(* ===== verification/Prelude.thy ===== *)
theory Prelude
  imports Complex_Main "HOL-Library.Multiset" "HOL-Library.Sublist" "HOL-Library.AList"
    "HOL-Library.Char_ord" "HOL-Library.List_Lexorder"
begin

text \<open>
  Shared vocabulary of the development: the collections the component theories fill and use,
  the interfaces (locales) the components implement, and generic facts on lists, association
  lists and insertion sort. Nothing here models code of the program.

  A Go string is a byte sequence and is modelled as \<open>string\<close> (a list of 8-bit characters);
  Go compares strings byte-wise, which is the order \<open>HOL-Library.List_Lexorder\<close> puts on
  lists over the order \<open>HOL-Library.Char_ord\<close> puts on characters.
\<close>

named_theorems frame_simps \<open>fields an operation does not write\<close>
named_theorems step_simps \<open>what an operation does to the fields it writes\<close>

section \<open>Keyed cells: the interface of a store of named records\<close>

text \<open>
  A client that reads and updates one record per key through \<open>get\<close> and \<open>upd\<close> relies on
  two laws: an update is seen by the next read of its key (starting from a fresh record when
  the key is new), and by no read of another key.
\<close>

locale keyed_cells =
  fixes get :: "'s \<Rightarrow> 'k \<Rightarrow> 'v option"
    and upd :: "'k \<Rightarrow> ('v \<Rightarrow> 'v) \<Rightarrow> 's \<Rightarrow> 's"
    and fresh :: "'k \<Rightarrow> 'v"
  assumes get_upd_same:
      "get (upd k f s) k = Some (f (case get s k of None \<Rightarrow> fresh k | Some v \<Rightarrow> v))"
    and get_upd_other: "k \<noteq> k' \<Longrightarrow> get (upd k f s) k' = get s k'"
begin

lemma get_upd:
  "get (upd k f s) k' =
     (if k' = k then Some (f (case get s k of None \<Rightarrow> fresh k | Some v \<Rightarrow> v)) else get s k')"
  by (simp add: get_upd_same get_upd_other)

lemma get_upds_other:
  "k \<notin> fst ` set us \<Longrightarrow> get (fold (\<lambda>(k, f). upd k f) us s) k = get s k"
  by (induction us arbitrary: s) (auto simp: get_upd_other)

lemma get_upds_single:
  assumes "distinct (map fst us)" and "(k, f) \<in> set us"
  shows "get (fold (\<lambda>(k, f). upd k f) us s) k
       = Some (f (case get s k of None \<Rightarrow> fresh k | Some v \<Rightarrow> v))"
  using assms
proof (induction us arbitrary: s)
  case Nil
  then show ?case by simp
next
  case (Cons u us)
  show ?case
  proof (cases "u = (k, f)")
    case True
    with Cons.prems have "k \<notin> fst ` set us" by auto
    with True show ?thesis by (simp add: get_upds_other get_upd_same)
  next
    case False
    with Cons.prems have mem: "(k, f) \<in> set us" by auto
    with Cons.prems have "fst u \<noteq> k" by (auto intro: rev_image_eqI)
    with Cons.IH [OF _ mem] Cons.prems show ?thesis
      by (cases u) (simp add: get_upd_other)
  qed
qed

text \<open>Updates of pairwise different keys give the same cells in every order.\<close>

lemma get_upds_order:
  assumes "distinct (map fst us)" and "mset us = mset us'"
  shows "get (fold (\<lambda>(k, f). upd k f) us s) k = get (fold (\<lambda>(k, f). upd k f) us' s) k"
proof -
  have set_eq: "set us = set us'" using assms(2) by (rule mset_eq_setD)
  have "mset (map fst us) = mset (map fst us')" using assms(2) by simp
  with assms(1) have dist': "distinct (map fst us')"
    using mset_eq_imp_distinct_iff by blast
  show ?thesis
  proof (cases "k \<in> fst ` set us")
    case True
    then obtain f where "(k, f) \<in> set us" by auto
    with set_eq assms(1) dist' show ?thesis by (simp add: get_upds_single)
  next
    case False
    with set_eq show ?thesis by (simp add: get_upds_other)
  qed
qed

end

section \<open>Steps on cells: the interface of a pass over named records\<close>

text \<open>
  A loop whose step \<open>step x\<close> changes at most the cell named \<open>key x\<close>, by \<open>fn x\<close>, and creates none. When
  no name occurs twice, a pass applies each function once, and the order of the steps is irrelevant
  to the cells.
\<close>

locale cell_steps =
  fixes get :: "'s \<Rightarrow> 'k \<Rightarrow> 'v option"
    and step :: "'x \<Rightarrow> 's \<Rightarrow> 's"
    and key :: "'x \<Rightarrow> 'k"
    and fn :: "'x \<Rightarrow> 'v \<Rightarrow> 'v"
  assumes get_step: "get (step x s) k = (if k = key x then map_option (fn x) (get s k) else get s k)"
begin

lemma get_steps_other: "k \<notin> key ` set xs \<Longrightarrow> get (fold step xs s) k = get s k"
  by (induction xs arbitrary: s) (auto simp: get_step)

lemma get_steps_single:
  assumes "distinct (map key xs)" and "x \<in> set xs"
  shows "get (fold step xs s) (key x) = map_option (fn x) (get s (key x))"
  using assms
proof (induction xs arbitrary: s)
  case Nil
  then show ?case by simp
next
  case (Cons y xs)
  show ?case
  proof (cases "x = y")
    case True
    with Cons.prems have "key x \<notin> key ` set xs" by auto
    with True show ?thesis by (simp add: get_steps_other get_step)
  next
    case False
    with Cons.prems have mem: "x \<in> set xs" by simp
    then have "key x \<in> key ` set xs" by (rule imageI)
    with Cons.prems(1) have "key x \<noteq> key y" by auto
    with Cons.IH [OF _ mem] Cons.prems(1) show ?thesis by (simp add: get_step)
  qed
qed

end

section \<open>Bounded logs: the interface of an event log with a capacity\<close>

text \<open>
  \<open>add\<close> appends while there is room and drops the oldest entry when there is none. From these
  laws: after any sequence of additions the log holds the newest \<open>cap\<close> entries, in order.
\<close>

definition last_n :: "nat \<Rightarrow> 'a list \<Rightarrow> 'a list" where
  "last_n n xs = drop (length xs - n) xs"

lemma length_last_n [simp]: "length (last_n n xs) = min n (length xs)"
  by (auto simp: last_n_def)

lemma last_n_all [simp]: "length xs \<le> n \<Longrightarrow> last_n n xs = xs"
  by (simp add: last_n_def)

lemma last_n_tl_snoc: "length xs = n \<Longrightarrow> 0 < n \<Longrightarrow> last_n n (tl xs @ e # es) = last_n n (xs @ e # es)"
  by (cases xs) (auto simp: last_n_def Suc_diff_le)

locale bounded_log =
  fixes add :: "'e \<Rightarrow> 's \<Rightarrow> 's"
    and log :: "'s \<Rightarrow> 'e list"
    and cap :: "'s \<Rightarrow> nat"
  assumes add_room: "length (log s) < cap s \<Longrightarrow> log (add e s) = log s @ [e]"
    and add_full: "cap s \<le> length (log s) \<Longrightarrow> log s \<noteq> [] \<Longrightarrow> log (add e s) = tl (log s) @ [e]"
    and cap_add [simp]: "cap (add e s) = cap s"
begin

lemma cap_adds [simp]: "cap (fold add es s) = cap s"
  by (induction es arbitrary: s) simp_all

lemma length_add:
  assumes "length (log s) \<le> cap s" and "0 < cap s"
  shows "length (log (add e s)) \<le> cap s"
  using assms add_room [of s e] add_full [of s e] by (cases "log s") (auto simp: le_less)

lemma log_adds:
  assumes "length (log s) \<le> cap s" and "0 < cap s"
  shows "log (fold add es s) = last_n (cap s) (log s @ es)"
  using assms
proof (induction es arbitrary: s)
  case Nil
  then show ?case by simp
next
  case (Cons e es)
  have len: "length (log (add e s)) \<le> cap (add e s)" "0 < cap (add e s)"
    using length_add [OF Cons.prems] Cons.prems by simp_all
  have "log (fold add (e # es) s) = last_n (cap s) (log (add e s) @ es)"
    using Cons.IH [OF len] by simp
  also have "\<dots> = last_n (cap s) (log s @ e # es)"
  proof (cases "length (log s) < cap s")
    case True
    then show ?thesis by (simp add: add_room)
  next
    case False
    with Cons.prems have full: "length (log s) = cap s" "log s \<noteq> []" by auto
    with Cons.prems show ?thesis by (simp add: add_full last_n_tl_snoc)
  qed
  finally show ?case .
qed

end

section \<open>Guarded cells: the interface of a validated setting\<close>

text \<open>
  \<open>update fn s\<close> computes a candidate from the current value, keeps it only when both the patch
  and the check accept it, and returns the value now in force with the error, if any.
\<close>

locale guarded_cell =
  fixes current :: "'s \<Rightarrow> 'f"
    and check :: "'f \<Rightarrow> 'e option"
    and update :: "('f \<Rightarrow> 'f \<times> 'e option) \<Rightarrow> 's \<Rightarrow> 's \<times> 'f \<times> 'e option"
  assumes update_accept:
      "fn (current s) = (f, None) \<Longrightarrow> check f = None
        \<Longrightarrow> snd (update fn s) = (f, None) \<and> current (fst (update fn s)) = f"
    and update_reject:
      "snd (fn (current s)) = Some e \<or> snd (fn (current s)) = None \<and> check (fst (fn (current s))) = Some e
        \<Longrightarrow> update fn s = (s, current s, Some e)"
begin

lemma update_cases:
  obtains (accepted) f where "fn (current s) = (f, None)" "check f = None"
      "snd (update fn s) = (f, None)" "current (fst (update fn s)) = f"
  | (rejected) e where "update fn s = (s, current s, Some e)"
proof (cases "fn (current s)")
  case (Pair f r)
  show thesis
  proof (cases r)
    case None
    show thesis
    proof (cases "check f")
      case None
      with Pair \<open>r = None\<close> show thesis using accepted update_accept [of fn s f] by blast
    next
      case (Some e)
      with Pair \<open>r = None\<close> show thesis using rejected update_reject [of fn s e] by simp
    qed
  next
    case (Some e)
    with Pair show thesis using rejected update_reject [of fn s e] by simp
  qed
qed

lemma update_keeps_check:
  assumes "check (current s) = None"
  shows "check (current (fst (update fn s))) = None"
  using assms by (cases rule: update_cases [of fn s]) simp_all

lemma updates_keep_check:
  "check (current s) = None \<Longrightarrow> check (current (fold (\<lambda>fn s. fst (update fn s)) fns s)) = None"
  by (induction fns arbitrary: s) (simp_all add: update_keeps_check)

lemma update_result: "fst (snd (update fn s)) = current (fst (update fn s))"
  by (cases rule: update_cases [of fn s]) simp_all

lemma update_error_unchanged: "snd (snd (update fn s)) \<noteq> None \<Longrightarrow> fst (update fn s) = s"
  by (cases rule: update_cases [of fn s]) simp_all

end

section \<open>Slices sorted with a comparison\<close>

text \<open>
  \<open>sort.Slice\<close> on a short slice is an insertion sort: each element moves left past the
  elements it is less than. The laws of the comparison are those of a strict weak order on
  the elements that occur; they fail for floating-point keys that are NaN, hence the carrier
  predicate \<open>ok\<close>.
\<close>

fun insert_left :: "('a \<Rightarrow> 'a \<Rightarrow> bool) \<Rightarrow> 'a \<Rightarrow> 'a list \<Rightarrow> 'a list" where
  "insert_left lt x [] = [x]"
| "insert_left lt x (y # ys) = (if lt x y then y # insert_left lt x ys else x # y # ys)"

definition sort_slice :: "('a \<Rightarrow> 'a \<Rightarrow> bool) \<Rightarrow> 'a list \<Rightarrow> 'a list" where
  "sort_slice lt xs = rev (fold (insert_left lt) xs [])"

lemma mset_insert_left [simp]: "mset (insert_left lt x ys) = add_mset x (mset ys)"
  by (induction ys) simp_all

lemma mset_fold_insert_left: "mset (fold (insert_left lt) xs ys) = mset xs + mset ys"
  by (induction xs arbitrary: ys) simp_all

lemma mset_sort_slice [simp]: "mset (sort_slice lt xs) = mset xs"
  by (simp add: sort_slice_def mset_fold_insert_left)

lemma set_sort_slice [simp]: "set (sort_slice lt xs) = set xs"
  using mset_sort_slice by (rule mset_eq_setD)

lemma length_sort_slice [simp]: "length (sort_slice lt xs) = length xs"
  using mset_sort_slice by (rule mset_eq_length)

locale slice_order =
  fixes lt :: "'a \<Rightarrow> 'a \<Rightarrow> bool"
    and ok :: "'a \<Rightarrow> bool"
  assumes less_asym: "ok a \<Longrightarrow> ok b \<Longrightarrow> lt a b \<Longrightarrow> \<not> lt b a"
    and less_negtrans:
      "ok a \<Longrightarrow> ok b \<Longrightarrow> ok c \<Longrightarrow> \<not> lt a b \<Longrightarrow> \<not> lt b c \<Longrightarrow> \<not> lt a c"
begin

lemma insert_left_sorted:
  assumes "ok x" and "\<forall>y \<in> set ys. ok y" and "sorted_wrt (\<lambda>a b. \<not> lt a b) ys"
  shows "sorted_wrt (\<lambda>a b. \<not> lt a b) (insert_left lt x ys)"
  using assms
proof (induction ys)
  case Nil
  then show ?case by simp
next
  case (Cons y ys)
  have set_ins: "set (insert_left lt x ys) = insert x (set ys)"
    using mset_insert_left [of lt x ys] by (metis set_mset_mset set_mset_add_mset_insert)
  show ?case
  proof (cases "lt x y")
    case True
    with Cons have "\<not> lt y x" by (auto dest: less_asym)
    with True Cons show ?thesis by (auto simp: set_ins)
  next
    case False
    with Cons.prems have "\<forall>z \<in> set ys. \<not> lt x z"
      using less_negtrans [of x y] by fastforce
    with False Cons show ?thesis by auto
  qed
qed

lemma sort_slice_sorted:
  assumes "\<forall>x \<in> set xs. ok x"
  shows "sorted_wrt (\<lambda>a b. \<not> lt b a) (sort_slice lt xs)"
proof -
  have "sorted_wrt (\<lambda>a b. \<not> lt a b) (fold (insert_left lt) xs ys)"
    if "\<forall>x \<in> set xs. ok x" "\<forall>y \<in> set ys. ok y" "sorted_wrt (\<lambda>a b. \<not> lt a b) ys" for ys
    using that
  proof (induction xs arbitrary: ys)
    case (Cons x xs)
    have "set (insert_left lt x ys) = insert x (set ys)"
      using mset_insert_left [of lt x ys] by (metis set_mset_mset set_mset_add_mset_insert)
    with Cons show ?case by (simp add: insert_left_sorted)
  qed simp
  from this [of "[]"] assms show ?thesis by (simp add: sort_slice_def sorted_wrt_rev)
qed

end

section \<open>Runs of a step function\<close>

text \<open>
  A handler is a step function of an event and a state. \<open>rel\<close> is what a step may do to the
  part of the state \<open>view\<close> shows; a reflexive and transitive relation holds over whole runs.
\<close>

locale monotone_steps =
  fixes step :: "'e \<Rightarrow> 's \<Rightarrow> 's"
    and rel :: "'s \<Rightarrow> 's \<Rightarrow> bool"
  assumes rel_refl: "rel s s"
    and rel_trans: "rel a b \<Longrightarrow> rel b c \<Longrightarrow> rel a c"
    and rel_step: "rel s (step e s)"
begin

lemma rel_run: "rel s (fold step es s)"
proof (induction es arbitrary: s)
  case Nil
  then show ?case by (simp add: rel_refl)
next
  case (Cons e es)
  from Cons.IH have "rel (step e s) (fold step es (step e s))" .
  with rel_step have "rel s (fold step es (step e s))" by (rule rel_trans)
  then show ?case by simp
qed

lemma rel_run_append: "rel (fold step es s) (fold step (es @ es') s)"
  by (simp add: rel_run)

end

locale invariant_steps =
  fixes step :: "'e \<Rightarrow> 's \<Rightarrow> 's"
    and ok :: "'e \<Rightarrow> bool"
    and inv :: "'s \<Rightarrow> bool"
  assumes inv_step: "ok e \<Longrightarrow> inv s \<Longrightarrow> inv (step e s)"
begin

lemma inv_run: "\<forall>e \<in> set es. ok e \<Longrightarrow> inv s \<Longrightarrow> inv (fold step es s)"
  by (induction es arbitrary: s) (simp_all add: inv_step)

end

end
