(* ===== verification/Float64.thy ===== *)
theory Float64
  imports Complex_Main "HOL-Library.Log_Nat"
begin

text \<open>
  The 64-bit floating-point numbers of the program (Go's \<open>float64\<close>, IEEE 754 binary64 with
  round-to-nearest-even). A finite value is the rational number it stands for; \<open>rnd\<close> rounds a
  rational to the format, overflow gives an infinity, and every arithmetic operation is the exact
  operation followed by \<open>rnd\<close>. Comparisons with NaN are false, and \<open>feq\<close> is \<open>==\<close>. The two zeros
  are identified: the program never divides by a zero whose sign it has computed, so no comparison
  in it can tell them apart. Each operation is rounded by itself, as on amd64, where the compiler
  does not fuse a product and a sum.

  The lemmas are the ones the components use: rounding is monotone and keeps the values of the
  format (in particular the integers up to \<open>2 ^ 53\<close>), and sums, products and quotients stay on the
  expected side of their arguments.
\<close>

section \<open>Powers of two and the binary exponent\<close>

definition pow2 :: "int \<Rightarrow> rat" where
  "pow2 k = (if 0 \<le> k then 2 ^ nat k else 1 / 2 ^ nat (- k))"

lemma pow2_pos [simp]: "0 < pow2 k"
  by (simp add: pow2_def)

lemma pow2_nonneg [simp]: "0 \<le> pow2 k"
  by (simp add: less_imp_le)

lemma pow2_neq_0 [simp]: "pow2 k \<noteq> 0"
  using pow2_pos [of k] by (simp del: pow2_pos)

lemma pow2_0 [simp]: "pow2 0 = 1"
  by (simp add: pow2_def)

lemma pow2_powi: "pow2 k = 2 powi k"
  unfolding pow2_def power_int_def by (simp add: power_one_over inverse_eq_divide)

lemma pow2_add: "pow2 (a + b) = pow2 a * pow2 b"
  by (simp add: pow2_powi power_int_add)

lemma pow2_diff: "pow2 (a - b) = pow2 a / pow2 b"
  by (simp add: pow2_powi power_int_diff)

lemma pow2_mono: "a \<le> b \<Longrightarrow> pow2 a \<le> pow2 b"
  by (simp add: pow2_powi power_int_increasing)

lemma pow2_strict_mono: "a < b \<Longrightarrow> pow2 a < pow2 b"
  by (simp add: pow2_powi power_int_strict_increasing)

lemma pow2_less_cancel: "pow2 a < pow2 b \<longleftrightarrow> a < b"
  by (metis linorder_not_less pow2_mono pow2_strict_mono)

lemma pow2_nat: "0 \<le> k \<Longrightarrow> pow2 k = of_int (2 ^ nat k)"
  by (simp add: pow2_def)

definition ilog :: "rat \<Rightarrow> int" where
  "ilog q = (let (n, d) = quotient_of q; k = bitlen n - bitlen d
             in if pow2 k \<le> q then k else k - 1)"

lemma bitlen_pow2:
  assumes "0 < n"
  shows "pow2 (bitlen n - 1) \<le> of_int n" and "of_int n < pow2 (bitlen n)"
proof -
  have b: "2 ^ nat (bitlen n - 1) \<le> n" "n < 2 ^ nat (bitlen n)"
    using bitlen_bounds [OF assms] by auto
  have "1 \<le> bitlen n"
    using assms bitlen_nonneg [of n] bitlen_eq_zero_iff [of n] by linarith
  then have "pow2 (bitlen n - 1) = of_int (2 ^ nat (bitlen n - 1))"
    and "pow2 (bitlen n) = of_int (2 ^ nat (bitlen n))"
    by (simp_all add: pow2_nat)
  with b show "pow2 (bitlen n - 1) \<le> of_int n" and "of_int n < pow2 (bitlen n)"
    by (simp_all only: of_int_le_iff of_int_less_iff)
qed

lemma ilog_bounds:
  assumes "0 < q"
  shows "pow2 (ilog q) \<le> q" and "q < pow2 (ilog q + 1)"
proof -
  obtain n d where nd: "quotient_of q = (n, d)" by (cases "quotient_of q")
  then have d: "0 < d" by (rule quotient_of_denom_pos)
  have q: "q = of_int n / of_int d" using nd by (rule quotient_of_div)
  with assms d have n: "0 < n" by (simp add: zero_less_divide_iff)
  let ?k = "bitlen n - bitlen d"
  note bn = bitlen_pow2 [OF n] and bd = bitlen_pow2 [OF d]
  have up: "q < pow2 (?k + 1)"
  proof -
    have "q < pow2 (bitlen n) / pow2 (bitlen d - 1)"
      unfolding q by (rule frac_less) (use bn bd n d in auto)
    also have "\<dots> = pow2 (?k + 1)"
      by (simp add: pow2_diff [symmetric] algebra_simps)
    finally show ?thesis .
  qed
  have lo: "pow2 (?k - 1) \<le> q"
  proof -
    have "pow2 (bitlen n - 1) / pow2 (bitlen d) \<le> q"
      unfolding q by (rule frac_le) (use bn bd n d in auto)
    then show ?thesis by (simp add: pow2_diff [symmetric] algebra_simps)
  qed
  show "pow2 (ilog q) \<le> q" "q < pow2 (ilog q + 1)"
    using up lo by (auto simp: ilog_def nd Let_def)
qed

lemma ilog_less_iff:
  assumes "0 < q" shows "ilog q < k \<longleftrightarrow> q < pow2 k"
proof
  assume "ilog q < k"
  then have "pow2 (ilog q + 1) \<le> pow2 k" by (intro pow2_mono) simp
  with ilog_bounds (2) [OF assms] show "q < pow2 k" by simp
next
  assume "q < pow2 k"
  with ilog_bounds (1) [OF assms] have "pow2 (ilog q) < pow2 k" by simp
  then show "ilog q < k" by (simp add: pow2_less_cancel)
qed

lemma ilog_le_iff:
  assumes "0 < q" shows "k \<le> ilog q \<longleftrightarrow> pow2 k \<le> q"
  using ilog_less_iff [OF assms, of k] by (simp add: not_less [symmetric])

lemma ilog_mono: "0 < a \<Longrightarrow> a \<le> b \<Longrightarrow> ilog a \<le> ilog b"
  using ilog_bounds (1) [of a] by (simp add: ilog_le_iff)

section \<open>Rounding to the nearest integer, ties to even\<close>

definition round_even :: "rat \<Rightarrow> int" where
  "round_even q =
     (let f = \<lfloor>q\<rfloor>; r = q - of_int f
      in if r < 1 / 2 then f else if 1 / 2 < r then f + 1 else if even f then f else f + 1)"

lemma round_even_of_int [simp]: "round_even (of_int n) = n"
  by (simp add: round_even_def)

lemma round_even_cases: "round_even q = \<lfloor>q\<rfloor> \<or> round_even q = \<lfloor>q\<rfloor> + 1"
  by (simp add: round_even_def Let_def)

lemma round_even_mono:
  assumes "a \<le> b" shows "round_even a \<le> round_even b"
proof (cases "\<lfloor>a\<rfloor> = \<lfloor>b\<rfloor>")
  case True
  with assms show ?thesis by (auto simp: round_even_def Let_def)
next
  case False
  moreover have "\<lfloor>a\<rfloor> \<le> \<lfloor>b\<rfloor>" using assms by (rule floor_mono)
  ultimately show ?thesis
    using round_even_cases [of a] round_even_cases [of b] by linarith
qed

lemma round_even_minus: "round_even (- q) = - round_even q"
proof (cases "q \<in> \<int>")
  case True
  then obtain n where "q = of_int n" by (auto simp: Ints_def)
  then show ?thesis using round_even_of_int [of "- n"] by simp
next
  case False
  then have ne: "q \<noteq> of_int \<lfloor>q\<rfloor>" by (metis Ints_of_int)
  have fl: "\<lfloor>- q\<rfloor> = - \<lfloor>q\<rfloor> - 1"
    using ne floor_correct [of q] by (intro floor_unique) (auto simp: less_le)
  show ?thesis
    unfolding round_even_def Let_def fl by (auto simp: field_simps)
qed

lemma round_even_le: "q \<le> of_int n \<Longrightarrow> round_even q \<le> n"
  using round_even_mono [of q "of_int n"] by simp

lemma round_even_ge: "of_int n \<le> q \<Longrightarrow> n \<le> round_even q"
  using round_even_mono [of "of_int n" q] by simp

section \<open>Rounding to binary64\<close>

definition ulp_exp :: "rat \<Rightarrow> int" where
  "ulp_exp q = (if q = 0 then - 1074 else max (ilog \<bar>q\<bar> - 52) (- 1074))"

definition rval :: "rat \<Rightarrow> rat" where
  "rval q = of_int (round_even (q / pow2 (ulp_exp q))) * pow2 (ulp_exp q)"

lemma ulp_exp_minus [simp]: "ulp_exp (- q) = ulp_exp q"
  by (simp add: ulp_exp_def)

lemma rval_minus: "rval (- q) = - rval q"
  by (simp add: rval_def round_even_minus)

lemma rval_0 [simp]: "rval 0 = 0"
  using round_even_of_int [of 0] by (simp add: rval_def)

lemma rval_nonneg: "0 \<le> q \<Longrightarrow> 0 \<le> rval q"
  using round_even_ge [of 0 "q / pow2 (ulp_exp q)"] by (simp add: rval_def)

lemma rval_mono_pos:
  assumes a: "0 < a" and ab: "a \<le> b"
  shows "rval a \<le> rval b"
proof (cases "ulp_exp a = ulp_exp b")
  case True
  have "a / pow2 (ulp_exp b) \<le> b / pow2 (ulp_exp b)" using ab by (simp add: divide_right_mono)
  then show ?thesis unfolding rval_def True by (simp add: round_even_mono mult_right_mono)
next
  case False
  have il: "ilog a \<le> ilog b" using assms by (rule ilog_mono)
  with False a ab have lt: "ilog a < ilog b" and eb: "ulp_exp b = ilog b - 52"
    and ea: "ulp_exp a \<le> ilog b"
    by (auto simp: ulp_exp_def max_def split: if_splits)
  have "a \<le> pow2 (ilog b)"
    using lt a ilog_less_iff [of a "ilog b"] by simp
  then have "a / pow2 (ulp_exp a) \<le> pow2 (ilog b - ulp_exp a)"
    by (simp add: pow2_diff divide_right_mono)
  also have "\<dots> = of_int (2 ^ nat (ilog b - ulp_exp a))" using ea by (simp add: pow2_nat)
  finally have "round_even (a / pow2 (ulp_exp a)) \<le> 2 ^ nat (ilog b - ulp_exp a)"
    by (rule round_even_le)
  then have "(of_int (round_even (a / pow2 (ulp_exp a))) :: rat) \<le> of_int (2 ^ nat (ilog b - ulp_exp a))"
    by (simp only: of_int_le_iff)
  also have "\<dots> = pow2 (ilog b - ulp_exp a)" using ea by (simp add: pow2_nat)
  finally have "rval a \<le> pow2 (ilog b - ulp_exp a) * pow2 (ulp_exp a)"
    unfolding rval_def by (rule mult_right_mono) simp
  also have "\<dots> = pow2 (ilog b)" by (simp add: pow2_diff)
  also have "\<dots> = of_int (2 ^ 52) * pow2 (ulp_exp b)"
    using pow2_nat [of 52] by (simp add: eb pow2_diff)
  also have "\<dots> \<le> rval b"
  proof -
    have "of_int (2 ^ 52) \<le> b / pow2 (ulp_exp b)"
      using ilog_bounds (1) [of b] a ab pow2_nat [of 52] by (simp add: eb pow2_diff field_simps)
    then have "2 ^ 52 \<le> round_even (b / pow2 (ulp_exp b))" by (rule round_even_ge)
    then have "(of_int (2 ^ 52) :: rat) \<le> of_int (round_even (b / pow2 (ulp_exp b)))"
      by (simp only: of_int_le_iff)
    then show ?thesis unfolding rval_def by (rule mult_right_mono) simp
  qed
  finally show ?thesis .
qed

lemma rval_mono:
  assumes "a \<le> b" shows "rval a \<le> rval b"
proof -
  consider "0 < a" | "a \<le> 0" "0 \<le> b" | "b < 0" by linarith
  then show ?thesis
  proof cases
    case 1
    with assms show ?thesis by (intro rval_mono_pos)
  next
    case 2
    then show ?thesis using rval_nonneg [of "- a"] rval_nonneg [of b] by (simp add: rval_minus)
  next
    case 3
    with assms have "rval (- b) \<le> rval (- a)" by (intro rval_mono_pos) auto
    then show ?thesis by (simp add: rval_minus)
  qed
qed

lemma rval_grid:
  assumes m: "\<bar>m\<bar> \<le> 2 ^ 53" and e: "- 1074 \<le> e"
  shows "rval (of_int m * pow2 e) = of_int m * pow2 e"
proof (cases "m = 0")
  case False
  let ?q = "of_int m * pow2 e"
  have q: "?q \<noteq> 0" using False by simp
  have abs: "\<bar>?q\<bar> = of_int \<bar>m\<bar> * pow2 e" by (simp add: abs_mult)
  show ?thesis
  proof (cases "ulp_exp ?q \<le> e")
    case True
    have "?q / pow2 (ulp_exp ?q) = of_int (m * 2 ^ nat (e - ulp_exp ?q))"
      using True pow2_nat [of "e - ulp_exp ?q"] by (simp add: pow2_diff field_simps)
    then show ?thesis
      unfolding rval_def using round_even_of_int by (metis divide_eq_eq pow2_neq_0)
  next
    case gt: False
    have "(of_int \<bar>m\<bar> :: rat) \<le> of_int (2 ^ 53)" using m by (simp only: of_int_le_iff)
    then have "\<bar>?q\<bar> \<le> pow2 53 * pow2 e" unfolding abs using pow2_nat [of 53] by simp
    then have le: "\<bar>?q\<bar> \<le> pow2 (e + 53)" by (simp add: pow2_add mult.commute)
    have "e + 53 \<le> ilog \<bar>?q\<bar>" using gt e q by (auto simp: ulp_exp_def)
    then have ge: "pow2 (e + 53) \<le> \<bar>?q\<bar>" using q ilog_le_iff [of "\<bar>?q\<bar>"] by simp
    have eq: "\<bar>?q\<bar> = pow2 (e + 53)" using le ge by simp
    have "ilog \<bar>?q\<bar> = e + 53"
      using ilog_le_iff [of "\<bar>?q\<bar>" "e + 53"] ilog_less_iff [of "\<bar>?q\<bar>" "e + 54"] q eq
        pow2_strict_mono [of "e + 53" "e + 54"] by simp
    with e q have u: "ulp_exp ?q = e + 1" by (simp add: ulp_exp_def)
    have rv: "rval (pow2 (e + 53)) = pow2 (e + 53)"
    proof -
      have "ulp_exp (pow2 (e + 53)) = e + 1"
        using u eq by (metis abs_of_pos abs_if pow2_pos ulp_exp_minus)
      moreover have "pow2 (e + 53) / pow2 (e + 1) = of_int (2 ^ 52)"
        using pow2_nat [of 52] by (simp add: pow2_diff [symmetric])
      ultimately show ?thesis
        unfolding rval_def using round_even_of_int by (metis divide_eq_eq pow2_neq_0)
    qed
    from eq have "?q = pow2 (e + 53) \<or> ?q = - pow2 (e + 53)" by linarith
    then show ?thesis
    proof
      assume "?q = pow2 (e + 53)"
      with rv show ?thesis by metis
    next
      assume "?q = - pow2 (e + 53)"
      with rv show ?thesis by (metis rval_minus)
    qed
  qed
qed simp

lemma rval_idem [simp]: "rval (rval q) = rval q"
proof -
  let ?e = "ulp_exp q" and ?m = "round_even (q / pow2 (ulp_exp q))"
  have e: "- 1074 \<le> ?e" by (simp add: ulp_exp_def)
  have "\<bar>q\<bar> \<le> pow2 (?e + 53)"
  proof (cases "q = 0")
    case False
    then have "\<bar>q\<bar> < pow2 (ilog \<bar>q\<bar> + 1)" by (simp add: ilog_bounds)
    also have "\<dots> \<le> pow2 (?e + 53)" 
      using False by (intro pow2_mono) (auto simp: ulp_exp_def)
    finally show ?thesis by simp
  qed simp
  then have b: "\<bar>q / pow2 ?e\<bar> \<le> of_int (2 ^ 53)"
    using pow2_nat [of 53] by (simp add: pow2_add abs_divide pos_divide_le_eq)
  have "\<bar>?m\<bar> \<le> 2 ^ 53"
    using round_even_le [of "q / pow2 ?e" "2 ^ 53"] round_even_ge [of "- (2 ^ 53)" "q / pow2 ?e"] b
    unfolding abs_le_iff by simp
  then show ?thesis using rval_grid [OF _ e] by (simp add: rval_def)
qed

section \<open>The values and the operations of \<open>float64\<close>\<close>

datatype float64 = Fin rat | PInf | NInf | NaN

definition rnd :: "rat \<Rightarrow> float64" where
  "rnd q = (let v = rval q
            in if pow2 1024 \<le> v then PInf else if v \<le> - pow2 1024 then NInf else Fin v)"

fun is_nan :: "float64 \<Rightarrow> bool" where
  "is_nan NaN = True"
| "is_nan _ = False"

fun is_fin :: "float64 \<Rightarrow> bool" where
  "is_fin (Fin _) = True"
| "is_fin _ = False"

fun fsgn :: "float64 \<Rightarrow> int" where
  "fsgn (Fin q) = (if 0 < q then 1 else if q < 0 then - 1 else 0)"
| "fsgn PInf = 1"
| "fsgn NInf = - 1"
| "fsgn NaN = 0"

text \<open>The data values a \<open>float64\<close> variable can hold: finite values are on the binary64 grid.\<close>

fun wf64 :: "float64 \<Rightarrow> bool" where
  "wf64 (Fin q) = (rval q = q \<and> \<bar>q\<bar> < pow2 1024)"
| "wf64 _ = True"

lemmas wf64_Fin = wf64.simps(1)

declare wf64.simps(1) [simp del]

instantiation float64 :: "{zero, one, plus, minus, uminus, times, inverse, ord}"
begin

definition zero_float64 :: float64 where "0 = Fin 0"

definition one_float64 :: float64 where "1 = Fin 1"

fun uminus_float64 :: "float64 \<Rightarrow> float64" where
  "- Fin q = Fin (- q)"
| "- PInf = NInf"
| "- NInf = PInf"
| "- NaN = NaN"

fun plus_float64 :: "float64 \<Rightarrow> float64 \<Rightarrow> float64" where
  "Fin a + Fin b = rnd (a + b)"
| "NaN + y = NaN"
| "x + NaN = NaN"
| "PInf + NInf = NaN"
| "NInf + PInf = NaN"
| "PInf + y = PInf"
| "x + PInf = PInf"
| "NInf + y = NInf"
| "x + NInf = NInf"

definition minus_float64 :: "float64 \<Rightarrow> float64 \<Rightarrow> float64" where
  "x - y = x + - (y :: float64)"

fun times_float64 :: "float64 \<Rightarrow> float64 \<Rightarrow> float64" where
  "Fin a * Fin b = rnd (a * b)"
| "(x :: float64) * y = (if fsgn x * fsgn y = 0 then NaN else if 0 < fsgn x * fsgn y then PInf else NInf)"

fun divide_float64 :: "float64 \<Rightarrow> float64 \<Rightarrow> float64" where
  "divide_float64 (Fin a) (Fin b) =
     (if b = 0 then (if a = 0 then NaN else if 0 < a then PInf else NInf) else rnd (a / b))"
| "divide_float64 NaN y = NaN"
| "divide_float64 x NaN = NaN"
| "divide_float64 (Fin a) y = Fin 0"
| "divide_float64 x (Fin b) = (if (0 \<le> b) = (x = PInf) then PInf else NInf)"
| "divide_float64 x y = NaN"

definition inverse_float64 :: "float64 \<Rightarrow> float64" where
  "inverse x = Fin 1 div (x :: float64)"

fun less_eq_float64 :: "float64 \<Rightarrow> float64 \<Rightarrow> bool" where
  "Fin a \<le> Fin b \<longleftrightarrow> a \<le> b"
| "NaN \<le> y \<longleftrightarrow> False"
| "x \<le> NaN \<longleftrightarrow> False"
| "NInf \<le> y \<longleftrightarrow> True"
| "x \<le> PInf \<longleftrightarrow> True"
| "(x :: float64) \<le> y \<longleftrightarrow> False"

fun less_float64 :: "float64 \<Rightarrow> float64 \<Rightarrow> bool" where
  "Fin a < Fin b \<longleftrightarrow> a < b"
| "NaN < y \<longleftrightarrow> False"
| "x < NaN \<longleftrightarrow> False"
| "PInf < y \<longleftrightarrow> False"
| "x < NInf \<longleftrightarrow> False"
| "(x :: float64) < y \<longleftrightarrow> True"

instance ..

end

definition feq :: "float64 \<Rightarrow> float64 \<Rightarrow> bool" where
  "feq x y \<longleftrightarrow> x \<le> y \<and> y \<le> x"

definition of_int64 :: "int \<Rightarrow> float64" where
  "of_int64 n = rnd (of_int n)"

subsection \<open>Rounding\<close>

lemma rnd_not_nan [simp]: "\<not> is_nan (rnd q)" "rnd q \<noteq> NaN"
  by (simp_all add: rnd_def Let_def)

lemma wf64_rnd [simp]: "wf64 (rnd q)"
  by (auto simp: rnd_def Let_def not_le abs_less_iff wf64_Fin)

lemma rnd_wf: "wf64 (Fin q) \<Longrightarrow> rnd q = Fin q"
  by (auto simp: rnd_def abs_less_iff wf64_Fin)

lemma rnd_mono: "a \<le> b \<Longrightarrow> rnd a \<le> rnd b"
  using rval_mono [of a b] by (auto simp: rnd_def Let_def)

lemma wf64_grid:
  assumes "\<bar>m\<bar> \<le> 2 ^ 53" and "- 1074 \<le> e" and "e \<le> 970"
  shows "wf64 (Fin (of_int m * pow2 e))"
proof -
  have "(of_int \<bar>m\<bar> :: rat) \<le> of_int (2 ^ 53)" using assms(1) by (simp only: of_int_le_iff)
  then have "\<bar>of_int m * pow2 e\<bar> \<le> pow2 53 * pow2 970"
    using pow2_mono [OF assms(3)] pow2_nat [of 53]
    by (auto simp: abs_mult intro!: mult_mono)
  also have "\<dots> < pow2 1024" by (simp add: pow2_add [symmetric] pow2_less_cancel)
  finally show ?thesis using rval_grid [OF assms(1,2)] by (simp add: wf64_Fin)
qed

lemma wf64_int: "\<bar>n\<bar> \<le> 2 ^ 53 \<Longrightarrow> wf64 (Fin (of_int n))"
  using wf64_grid [of n 0] by simp

lemma wf64_dyadic: "\<bar>n\<bar> \<le> 2 ^ 53 \<Longrightarrow> k \<le> 1074 \<Longrightarrow> wf64 (Fin (of_int n / 2 ^ k))"
  using wf64_grid [of n "- int k"] by (simp add: pow2_def split: if_splits)

lemma wf64_Fin_0 [simp]: "wf64 (Fin 0)" and wf64_Fin_1 [simp]: "wf64 (Fin 1)"
  using wf64_int [of 0] wf64_int [of 1] by simp_all

lemma wf64_numeral [simp]: "(numeral w :: int) \<le> 2 ^ 53 \<Longrightarrow> wf64 (Fin (numeral w))"
  using wf64_int [of "numeral w"] by simp

lemma rnd_int: "\<bar>n\<bar> \<le> 2 ^ 53 \<Longrightarrow> rnd (of_int n) = Fin (of_int n)"
  by (intro rnd_wf wf64_int)

lemma rnd_dyadic: "\<bar>n\<bar> \<le> 2 ^ 53 \<Longrightarrow> k \<le> 1074 \<Longrightarrow> rnd (of_int n / 2 ^ k) = Fin (of_int n / 2 ^ k)"
  by (intro rnd_wf wf64_dyadic)

lemma rnd_0 [simp]: "rnd 0 = Fin 0" and rnd_1 [simp]: "rnd 1 = Fin 1"
  by (simp_all add: rnd_wf)

lemma rnd_numeral [simp]: "(numeral w :: int) \<le> 2 ^ 53 \<Longrightarrow> rnd (numeral w) = Fin (numeral w)"
  by (simp add: rnd_wf)

lemma rnd_neg_numeral [simp]:
  "(numeral w :: int) \<le> 2 ^ 53 \<Longrightarrow> rnd (- numeral w) = Fin (- numeral w)"
  using rnd_int [of "- numeral w"] by simp

subsection \<open>Order\<close>

lemma fle_trans: "x \<le> y \<Longrightarrow> y \<le> z \<Longrightarrow> x \<le> (z :: float64)"
  by (cases x; cases y; cases z) auto

lemma flt_trans: "x < y \<Longrightarrow> y < z \<Longrightarrow> x < (z :: float64)"
  by (cases x; cases y; cases z) auto

lemma flt_fle_trans: "x < y \<Longrightarrow> y \<le> z \<Longrightarrow> x < (z :: float64)"
  by (cases x; cases y; cases z) auto

lemma fle_flt_trans: "x \<le> y \<Longrightarrow> y < z \<Longrightarrow> x < (z :: float64)"
  by (cases x; cases y; cases z) auto

lemma flt_imp_fle: "x < y \<Longrightarrow> x \<le> (y :: float64)"
  by (cases x; cases y) auto

lemma flt_irrefl [simp]: "\<not> x < (x :: float64)"
  by (cases x) auto

lemma fle_refl_iff: "x \<le> x \<longleftrightarrow> \<not> is_nan (x :: float64)"
  by (cases x) auto

lemma fle_refl [intro]: "\<not> is_nan x \<Longrightarrow> x \<le> (x :: float64)"
  by (simp add: fle_refl_iff)

lemma fle_not_nan: "x \<le> y \<Longrightarrow> \<not> is_nan x \<and> \<not> is_nan (y :: float64)"
  by (cases x; cases y) auto

lemma flt_not_nan: "x < y \<Longrightarrow> \<not> is_nan x \<and> \<not> is_nan (y :: float64)"
  by (cases x; cases y) auto

lemma fnot_less: "\<not> is_nan x \<Longrightarrow> \<not> is_nan y \<Longrightarrow> \<not> x < y \<longleftrightarrow> y \<le> (x :: float64)"
  by (cases x; cases y) auto

lemma fnot_le: "\<not> is_nan x \<Longrightarrow> \<not> is_nan y \<Longrightarrow> \<not> x \<le> y \<longleftrightarrow> y < (x :: float64)"
  by (cases x; cases y) auto

lemma flt_not_fle: "x < y \<Longrightarrow> \<not> y \<le> (x :: float64)"
  by (cases x; cases y) auto

lemma fle_antisym: "x \<le> y \<Longrightarrow> y \<le> x \<Longrightarrow> x = (y :: float64)"
  by (cases x; cases y) auto

lemma feq_iff: "feq x y \<longleftrightarrow> x = y \<and> \<not> is_nan x"
  by (cases x; cases y) (auto simp: feq_def)

lemma Fin_le_0_iff [simp]: "0 \<le> Fin q \<longleftrightarrow> 0 \<le> q" "Fin q \<le> 0 \<longleftrightarrow> q \<le> 0"
  "0 < Fin q \<longleftrightarrow> 0 < q" "Fin q < 0 \<longleftrightarrow> q < 0"
  by (simp_all add: zero_float64_def)

lemma is_nan_0_1 [simp]: "\<not> is_nan 0" "\<not> is_nan 1" "is_fin 0" "is_fin 1" "wf64 0" "wf64 1"
  by (simp_all add: zero_float64_def one_float64_def)

lemma is_fin_not_nan: "is_fin x \<Longrightarrow> \<not> is_nan x"
  by (cases x) auto

subsection \<open>Arithmetic\<close>

lemma wf64_plus [simp]: "wf64 (x + y)"
  by (cases x; cases y) simp_all

lemma wf64_times [simp]: "wf64 (x * y)"
  by (cases x; cases y) simp_all

lemma wf64_uminus [simp]: "wf64 (- x) \<longleftrightarrow> wf64 x"
  by (cases x) (simp_all add: rval_minus wf64_Fin)

lemma wf64_minus [simp]: "wf64 (x - y)"
  by (simp add: minus_float64_def)

lemma wf64_divide [simp]: "wf64 (x / y)"
  by (cases x; cases y) simp_all

lemma rnd_ge_wf: "wf64 (Fin a) \<Longrightarrow> a \<le> b \<Longrightarrow> Fin a \<le> rnd b"
  using rnd_mono [of a b] by (simp add: rnd_wf)

lemma rnd_le_wf: "wf64 (Fin b) \<Longrightarrow> a \<le> b \<Longrightarrow> rnd a \<le> Fin b"
  using rnd_mono [of a b] by (simp add: rnd_wf)

lemma fplus_nonneg: "0 \<le> x \<Longrightarrow> 0 \<le> y \<Longrightarrow> 0 \<le> x + (y :: float64)"
  using rnd_ge_wf [of 0] by (cases x; cases y) (auto simp: zero_float64_def)

lemma fplus_ge_left: "wf64 x \<Longrightarrow> \<not> is_nan x \<Longrightarrow> x \<noteq> NInf \<Longrightarrow> 0 \<le> y \<Longrightarrow> x \<le> x + y"
  by (cases x; cases y) (auto simp: zero_float64_def intro: rnd_ge_wf)

lemma fminus_nonneg: "y \<le> x \<Longrightarrow> is_fin y \<Longrightarrow> 0 \<le> x - (y :: float64)"
  using rnd_ge_wf [of 0] by (cases x; cases y) (auto simp: zero_float64_def minus_float64_def)

lemma fminus_le_left: "wf64 x \<Longrightarrow> is_fin x \<Longrightarrow> 0 \<le> y \<Longrightarrow> x - y \<le> x"
  by (cases x; cases y)
    (auto simp: zero_float64_def minus_float64_def intro: rnd_le_wf)

lemma ftimes_nonneg: "0 \<le> x \<Longrightarrow> is_fin x \<Longrightarrow> 0 \<le> y \<Longrightarrow> is_fin y \<Longrightarrow> 0 \<le> x * (y :: float64)"
  using rnd_ge_wf [of 0] by (cases x; cases y) (auto simp: zero_float64_def)

lemma ftimes_ge_left: "wf64 x \<Longrightarrow> 0 < x \<Longrightarrow> 1 \<le> y \<Longrightarrow> x \<le> x * y"
  by (cases x; cases y)
    (auto simp: zero_float64_def one_float64_def intro!: rnd_ge_wf
      simp: mult_le_cancel_left1)

lemma ftimes_le_left: "wf64 x \<Longrightarrow> 0 < x \<Longrightarrow> is_fin x \<Longrightarrow> y \<le> 1 \<Longrightarrow> x * y \<le> x"
  by (cases x; cases y)
    (auto simp: zero_float64_def one_float64_def intro!: rnd_le_wf
      simp: mult_le_cancel_left2)

lemma fdivide_nonneg: "0 \<le> x \<Longrightarrow> is_fin x \<Longrightarrow> 0 < y \<Longrightarrow> 0 \<le> x / (y :: float64)"
  using rnd_ge_wf [of 0] by (cases x; cases y) (auto simp: zero_float64_def)

lemma fdivide_le_1: "x \<le> y \<Longrightarrow> is_fin x \<Longrightarrow> 0 < y \<Longrightarrow> x / y \<le> 1"
  using rnd_le_wf [of 1] by (cases x; cases y) (auto simp: zero_float64_def one_float64_def)

lemma of_int64_nonneg: "0 \<le> n \<Longrightarrow> 0 \<le> of_int64 n"
  unfolding of_int64_def zero_float64_def by (rule rnd_ge_wf) simp_all

lemma of_int64_mono: "m \<le> n \<Longrightarrow> of_int64 m \<le> of_int64 n"
  by (simp add: of_int64_def rnd_mono)

lemma of_int64_exact: "\<bar>n\<bar> \<le> 2 ^ 53 \<Longrightarrow> of_int64 n = Fin (of_int n)"
  by (simp add: of_int64_def rnd_int)

end
