(* ===== verification/Config.thy ===== *)
theory Config
  imports Prelude Float64
begin

text \<open>
  The configuration of the program (\<open>internal/config/config.go\<close>): the nested structs of
  \<open>Config\<close> as records, \<open>applyDefaults\<close>, \<open>validate\<close> and \<open>Load\<close>. Reading the file and parsing
  the YAML are done by code outside the repository and are parameters of \<open>Load\<close>. An \<open>error\<close>
  is \<open>Some\<close> of its message, \<open>nil\<close> is \<open>None\<close>.

  The lemmas show that defaulting is idempotent and what a configuration that \<open>Load\<close> returns
  without error satisfies; comparisons are those of \<open>float64\<close>, so a NaN passes every check that
  is written as the negation of the wanted range.
\<close>

section \<open>The structs\<close>

record server_config =
  Host :: string
  Port :: int

record market_config =
  Timezone :: string
  OpenTime :: string
  SelectionTime :: string
  VWAPCrossCutoff :: string
  ForceExitTime :: string

record filters_config =
  cf_Open5mRangePctMin :: float64
  cf_Open5mRangePctMax :: float64
  cf_Open5mVolMin :: float64
  cf_Open5mVolMax :: float64
  cf_Open5mTodayPctMin :: float64
  cf_Open5mTodayPctMax :: float64
  cf_EntryMinAfterOpen :: int
  cf_EntryMaxAfterOpen :: int
  cf_EntryPriceMin :: float64
  cf_EntryPriceMax :: float64
  cf_SoldOffFromOpenPctMin :: float64
  cf_SoldOffOpen5mRangePctMin :: float64
  cf_SoldOffOpen5mTodayPctMin :: float64

record risk_config =
  TakeProfitPct :: float64
  StopLossPct :: float64

record history_config =
  Open5mLookbackSessions :: int
  MaxCalendarLookback :: int
  MaxWorkers :: int

record massive_config =
  Feed :: string
  Massive_Market :: string
  WSBatchSize :: int

record openai_config =
  TTSModel :: string
  Voice :: string
  ResponseFormat :: string

record ui_config =
  MaxEvents :: int

record config =
  cfg_Server :: server_config
  cfg_Market :: market_config
  cfg_Filters :: filters_config
  cfg_Risk :: risk_config
  cfg_History :: history_config
  cfg_Massive :: massive_config
  cfg_OpenAI :: openai_config
  cfg_UI :: ui_config

definition zero_config :: config where
  "zero_config =
     \<lparr>cfg_Server = \<lparr>Host = [], Port = 0\<rparr>,
      cfg_Market = \<lparr>Timezone = [], OpenTime = [], SelectionTime = [], VWAPCrossCutoff = [], ForceExitTime = []\<rparr>,
      cfg_Filters =
        \<lparr>cf_Open5mRangePctMin = 0, cf_Open5mRangePctMax = 0, cf_Open5mVolMin = 0, cf_Open5mVolMax = 0,
         cf_Open5mTodayPctMin = 0, cf_Open5mTodayPctMax = 0, cf_EntryMinAfterOpen = 0,
         cf_EntryMaxAfterOpen = 0, cf_EntryPriceMin = 0, cf_EntryPriceMax = 0,
         cf_SoldOffFromOpenPctMin = 0, cf_SoldOffOpen5mRangePctMin = 0, cf_SoldOffOpen5mTodayPctMin = 0\<rparr>,
      cfg_Risk = \<lparr>TakeProfitPct = 0, StopLossPct = 0\<rparr>,
      cfg_History = \<lparr>Open5mLookbackSessions = 0, MaxCalendarLookback = 0, MaxWorkers = 0\<rparr>,
      cfg_Massive = \<lparr>Feed = [], Massive_Market = [], WSBatchSize = 0\<rparr>,
      cfg_OpenAI = \<lparr>TTSModel = [], Voice = [], ResponseFormat = []\<rparr>,
      cfg_UI = \<lparr>MaxEvents = 0\<rparr>\<rparr>"

section \<open>Defaults\<close>

definition or_string :: "string \<Rightarrow> string \<Rightarrow> string" where
  "or_string s d = (if s = [] then d else s)"

definition or_pos_int :: "int \<Rightarrow> int \<Rightarrow> int" where
  "or_pos_int n d = (if n \<le> 0 then d else n)"

definition or_pos_float :: "float64 \<Rightarrow> float64 \<Rightarrow> float64" where
  "or_pos_float x d = (if x \<le> 0 then d else x)"

definition applyDefaults :: "config \<Rightarrow> config" where
  "applyDefaults c =
     \<lparr>cfg_Server =
        (let s = cfg_Server c
         in s\<lparr>Host := or_string (Host s) ''0.0.0.0'', Port := (if Port s = 0 then 8097 else Port s)\<rparr>),
      cfg_Market =
        (let m = cfg_Market c
         in m\<lparr>Timezone := or_string (Timezone m) ''America/New_York'',
              OpenTime := or_string (OpenTime m) ''09:30:00'',
              SelectionTime := or_string (SelectionTime m) ''09:35:00'',
              VWAPCrossCutoff := or_string (VWAPCrossCutoff m) ''09:43:00'',
              ForceExitTime := or_string (ForceExitTime m) ''11:00:00''\<rparr>),
      cfg_Filters =
        (let f = cfg_Filters c
         in f\<lparr>cf_SoldOffFromOpenPctMin := or_pos_float (cf_SoldOffFromOpenPctMin f) (rnd (20 / 100)),
              cf_SoldOffOpen5mRangePctMin := or_pos_float (cf_SoldOffOpen5mRangePctMin f) (rnd (1 / 100)),
              cf_SoldOffOpen5mTodayPctMin := or_pos_float (cf_SoldOffOpen5mTodayPctMin f) (rnd 50)\<rparr>),
      cfg_Risk =
        (let r = cfg_Risk c
         in r\<lparr>TakeProfitPct := or_pos_float (TakeProfitPct r) (rnd (5 / 100)),
              StopLossPct := or_pos_float (StopLossPct r) (rnd (2 / 100))\<rparr>),
      cfg_History =
        (let h = cfg_History c
         in h\<lparr>Open5mLookbackSessions := or_pos_int (Open5mLookbackSessions h) 10,
              MaxCalendarLookback := or_pos_int (MaxCalendarLookback h) 35,
              MaxWorkers := or_pos_int (MaxWorkers h) 6\<rparr>),
      cfg_Massive =
        (let v = cfg_Massive c
         in v\<lparr>Feed := or_string (Feed v) ''realtime'',
              Massive_Market := or_string (Massive_Market v) ''stocks'',
              WSBatchSize := or_pos_int (WSBatchSize v) 200\<rparr>),
      cfg_OpenAI =
        (let a = cfg_OpenAI c
         in a\<lparr>TTSModel := or_string (TTSModel a) ''tts-1'',
              Voice := or_string (Voice a) ''alloy'',
              ResponseFormat := or_string (ResponseFormat a) ''mp3''\<rparr>),
      cfg_UI = (let u = cfg_UI c in u\<lparr>MaxEvents := or_pos_int (MaxEvents u) 250\<rparr>)\<rparr>"

section \<open>Validation and loading\<close>

definition validate :: "config \<Rightarrow> string option" where
  "validate c =
     (let f = cfg_Filters c
      in if Port (cfg_Server c) \<le> 0 \<or> 65535 < Port (cfg_Server c)
         then Some ''server.port must be 1..65535''
         else if cf_Open5mRangePctMin f \<le> 0 \<or> cf_Open5mRangePctMax f \<le> 0
             \<or> cf_Open5mRangePctMax f < cf_Open5mRangePctMin f
         then Some ''filters.open_5m_range_pct_min/max invalid''
         else if cf_Open5mVolMax f < cf_Open5mVolMin f
         then Some ''filters.open_5m_vol_min/max invalid''
         else if cf_EntryMaxAfterOpen f < cf_EntryMinAfterOpen f
         then Some ''filters.entry_minutes_after_open_min/max invalid''
         else if cf_EntryPriceMax f < cf_EntryPriceMin f
         then Some ''filters.entry_price_min/max invalid''
         else if cf_SoldOffFromOpenPctMin f \<le> 0 \<or> 1 \<le> cf_SoldOffFromOpenPctMin f
         then Some ''filters.sold_off_from_open_pct_min invalid (expected 0..1)''
         else if cf_SoldOffOpen5mRangePctMin f \<le> 0 \<or> 1 \<le> cf_SoldOffOpen5mRangePctMin f
         then Some ''filters.sold_off_open5m_range_pct_min invalid (expected 0..1)''
         else if cf_SoldOffOpen5mTodayPctMin f \<le> 0
         then Some ''filters.sold_off_open5m_today_pct_min invalid (>0)''
         else None)"

definition Load ::
  "(string \<Rightarrow> string + string) \<Rightarrow> (string \<Rightarrow> config \<Rightarrow> config \<times> string option) \<Rightarrow> string
     \<Rightarrow> config \<times> string option" where
  "Load ReadFile Unmarshal path =
     (case ReadFile path of
        Inl err \<Rightarrow> (zero_config, Some err)
      | Inr b \<Rightarrow>
          (case Unmarshal b zero_config of
             (c, Some err) \<Rightarrow> (c, Some err)
           | (c, None) \<Rightarrow> let c = applyDefaults c in (c, validate c)))"

section \<open>Lemmas\<close>

lemma or_string_nonempty [simp]: "d \<noteq> [] \<Longrightarrow> or_string s d \<noteq> []"
  by (simp add: or_string_def)

lemma or_string_idem [simp]: "or_string (or_string s d) d = or_string s d"
  by (simp add: or_string_def)

lemma or_pos_int_pos [simp]: "0 < d \<Longrightarrow> 0 < or_pos_int n d"
  by (simp add: or_pos_int_def)

lemma or_pos_int_idem [simp]: "or_pos_int (or_pos_int n d) d = or_pos_int n d"
  by (simp add: or_pos_int_def)

lemma or_pos_float_idem [simp]: "or_pos_float (or_pos_float x d) d = or_pos_float x d"
  by (simp add: or_pos_float_def)

lemma or_pos_float_not_le [simp]: "\<not> d \<le> 0 \<Longrightarrow> \<not> or_pos_float x d \<le> 0"
  by (simp add: or_pos_float_def)

text \<open>The decimal defaults are positive after rounding, since a power of two lies below them.\<close>

lemma rnd_pos_dyadic:
  assumes "1 / 2 ^ k \<le> q" and "k \<le> 1074"
  shows "0 < rnd q"
proof -
  have "Fin (1 / 2 ^ k) \<le> rnd q"
    using assms wf64_dyadic [of 1 k] by (intro rnd_ge_wf) simp_all
  moreover have "0 < Fin (1 / 2 ^ k)" by simp
  ultimately show ?thesis by (rule flt_fle_trans [rotated])
qed

lemma default_pos [simp]:
  "0 < rnd (1 / 5)" "0 < rnd (1 / 100)" "0 < rnd 50" "0 < rnd (1 / 20)" "0 < rnd (1 / 50)"
  using rnd_pos_dyadic [of 7] by simp_all

lemma default_not_nonpos [simp]:
  "\<not> rnd (1 / 5) \<le> 0" "\<not> rnd (1 / 100) \<le> 0" "\<not> rnd (1 / 20) \<le> 0" "\<not> rnd (1 / 50) \<le> 0"
  by (rule flt_not_fle, simp)+

section \<open>Properties\<close>

lemma applyDefaults_idem: "applyDefaults (applyDefaults c) = applyDefaults c"
  by (simp add: applyDefaults_def Let_def)

text \<open>Defaulting completes a configuration: what it yields has no empty name and no non-positive count,
  percentage or capacity among the fields it covers, keeps every field that was already set, and is
  a fixed point of defaulting.\<close>

theorem applyDefaults_completes:
  "applyDefaults (applyDefaults c) = applyDefaults c
   \<and> 0 < MaxEvents (cfg_UI (applyDefaults c)) \<and> 0 < WSBatchSize (cfg_Massive (applyDefaults c))
   \<and> 0 < MaxWorkers (cfg_History (applyDefaults c))
   \<and> 0 < Open5mLookbackSessions (cfg_History (applyDefaults c))
   \<and> 0 < MaxCalendarLookback (cfg_History (applyDefaults c))
   \<and> \<not> TakeProfitPct (cfg_Risk (applyDefaults c)) \<le> 0 \<and> \<not> StopLossPct (cfg_Risk (applyDefaults c)) \<le> 0
   \<and> Timezone (cfg_Market (applyDefaults c)) \<noteq> [] \<and> Feed (cfg_Massive (applyDefaults c)) \<noteq> []
   \<and> MaxEvents (cfg_UI (applyDefaults c)) = (if MaxEvents (cfg_UI c) \<le> 0 then 250 else MaxEvents (cfg_UI c))
   \<and> Timezone (cfg_Market (applyDefaults c))
       = (if Timezone (cfg_Market c) = [] then ''America/New_York'' else Timezone (cfg_Market c))
   \<and> cf_Open5mRangePctMin (cfg_Filters (applyDefaults c)) = cf_Open5mRangePctMin (cfg_Filters c)"
  by (simp add: applyDefaults_idem) (simp add: applyDefaults_def Let_def or_pos_int_def or_string_def)

end
