(* ===== verification/Filters.thy ===== *)
theory Filters
  imports Config
begin

text \<open>
  The runtime filters (\<open>RuntimeFilters\<close> of \<open>internal/store/store.go\<close>): their initialisation from
  the configuration, their validation, and the patch that \<open>POST /api/filters\<close>
  (\<open>handleFilters\<close> of \<open>internal/server/api.go\<close>) applies to them. A JSON field that is absent is a
  nil pointer, here \<open>None\<close>.

  The lemmas compare the two validators: \<open>validate\<close> of the configuration does not look at the
  today-percentage range that \<open>validateRuntimeFilters\<close> insists on.
\<close>

section \<open>Filters and their validation\<close>

record runtime_filters =
  Open5mRangePctMin :: float64
  Open5mRangePctMax :: float64
  Open5mVolMin :: float64
  Open5mVolMax :: float64
  Open5mTodayPctMin :: float64
  Open5mTodayPctMax :: float64
  EntryMinAfterOpen :: int
  EntryMaxAfterOpen :: int
  EntryPriceMin :: float64
  EntryPriceMax :: float64
  SoldOffFromOpenPctMin :: float64
  SoldOffOpen5mRangePctMin :: float64
  SoldOffOpen5mTodayPctMin :: float64

definition runtimeFiltersFromConfig :: "config \<Rightarrow> runtime_filters" where
  "runtimeFiltersFromConfig c =
     (let f = cfg_Filters c
      in \<lparr>Open5mRangePctMin = cf_Open5mRangePctMin f, Open5mRangePctMax = cf_Open5mRangePctMax f,
          Open5mVolMin = cf_Open5mVolMin f, Open5mVolMax = cf_Open5mVolMax f,
          Open5mTodayPctMin = cf_Open5mTodayPctMin f, Open5mTodayPctMax = cf_Open5mTodayPctMax f,
          EntryMinAfterOpen = cf_EntryMinAfterOpen f, EntryMaxAfterOpen = cf_EntryMaxAfterOpen f,
          EntryPriceMin = cf_EntryPriceMin f, EntryPriceMax = cf_EntryPriceMax f,
          SoldOffFromOpenPctMin = cf_SoldOffFromOpenPctMin f,
          SoldOffOpen5mRangePctMin = cf_SoldOffOpen5mRangePctMin f,
          SoldOffOpen5mTodayPctMin = cf_SoldOffOpen5mTodayPctMin f\<rparr>)"

definition validateRuntimeFilters :: "runtime_filters \<Rightarrow> string option" where
  "validateRuntimeFilters f =
     (if Open5mRangePctMin f \<le> 0 \<or> Open5mRangePctMax f \<le> 0 \<or> Open5mRangePctMax f < Open5mRangePctMin f
      then Some ''open_5m_range_pct_min/max invalid''
      else if Open5mVolMax f < Open5mVolMin f
      then Some ''open_5m_vol_min/max invalid''
      else if Open5mTodayPctMax f < Open5mTodayPctMin f
      then Some ''open_5m_today_pct_min/max invalid''
      else if EntryMaxAfterOpen f < EntryMinAfterOpen f
      then Some ''entry_minutes_after_open_min/max invalid''
      else if EntryPriceMax f < EntryPriceMin f
      then Some ''entry_price_min/max invalid''
      else if SoldOffFromOpenPctMin f \<le> 0 \<or> 1 \<le> SoldOffFromOpenPctMin f
      then Some ''sold_off_from_open_pct_min invalid (expected 0..1)''
      else if SoldOffOpen5mRangePctMin f \<le> 0 \<or> 1 \<le> SoldOffOpen5mRangePctMin f
      then Some ''sold_off_open5m_range_pct_min invalid (expected 0..1)''
      else if SoldOffOpen5mTodayPctMin f \<le> 0
      then Some ''sold_off_open5m_today_pct_min invalid (>0)''
      else None)"

section \<open>The patch of the filters endpoint\<close>

record filtersPatch =
  p_Open5mRangePctMin :: "float64 option"
  p_Open5mRangePctMax :: "float64 option"
  p_Open5mVolMin :: "float64 option"
  p_Open5mVolMax :: "float64 option"
  p_Open5mTodayPctMin :: "float64 option"
  p_Open5mTodayPctMax :: "float64 option"
  p_EntryMinAfterOpen :: "int option"
  p_EntryMaxAfterOpen :: "int option"
  p_EntryPriceMin :: "float64 option"
  p_EntryPriceMax :: "float64 option"
  p_SoldOffFromOpenPctMin :: "float64 option"
  p_SoldOffOpen5mRangePctMin :: "float64 option"
  p_SoldOffOpen5mTodayPctMin :: "float64 option"

text \<open>\<open>if p.X != nil { f.X = *p.X }\<close> for one field.\<close>

definition patched :: "'a option \<Rightarrow> 'a \<Rightarrow> 'a" where
  "patched p v = (case p of None \<Rightarrow> v | Some x \<Rightarrow> x)"

definition apply_patch :: "filtersPatch \<Rightarrow> runtime_filters \<Rightarrow> runtime_filters \<times> string option" where
  "apply_patch p f =
     (f\<lparr>Open5mRangePctMin := patched (p_Open5mRangePctMin p) (Open5mRangePctMin f),
        Open5mRangePctMax := patched (p_Open5mRangePctMax p) (Open5mRangePctMax f),
        Open5mVolMin := patched (p_Open5mVolMin p) (Open5mVolMin f),
        Open5mVolMax := patched (p_Open5mVolMax p) (Open5mVolMax f),
        Open5mTodayPctMin := patched (p_Open5mTodayPctMin p) (Open5mTodayPctMin f),
        Open5mTodayPctMax := patched (p_Open5mTodayPctMax p) (Open5mTodayPctMax f),
        EntryMinAfterOpen := patched (p_EntryMinAfterOpen p) (EntryMinAfterOpen f),
        EntryMaxAfterOpen := patched (p_EntryMaxAfterOpen p) (EntryMaxAfterOpen f),
        EntryPriceMin := patched (p_EntryPriceMin p) (EntryPriceMin f),
        EntryPriceMax := patched (p_EntryPriceMax p) (EntryPriceMax f),
        SoldOffFromOpenPctMin := patched (p_SoldOffFromOpenPctMin p) (SoldOffFromOpenPctMin f),
        SoldOffOpen5mRangePctMin := patched (p_SoldOffOpen5mRangePctMin p) (SoldOffOpen5mRangePctMin f),
        SoldOffOpen5mTodayPctMin := patched (p_SoldOffOpen5mTodayPctMin p) (SoldOffOpen5mTodayPctMin f)\<rparr>,
      None)"

definition empty_patch :: filtersPatch where
  "empty_patch =
     \<lparr>p_Open5mRangePctMin = None, p_Open5mRangePctMax = None, p_Open5mVolMin = None,
      p_Open5mVolMax = None, p_Open5mTodayPctMin = None, p_Open5mTodayPctMax = None,
      p_EntryMinAfterOpen = None, p_EntryMaxAfterOpen = None, p_EntryPriceMin = None,
      p_EntryPriceMax = None, p_SoldOffFromOpenPctMin = None, p_SoldOffOpen5mRangePctMin = None,
      p_SoldOffOpen5mTodayPctMin = None\<rparr>"

section \<open>Lemmas\<close>

lemma patched_simps [simp]: "patched None v = v" "patched (Some x) v = x"
  by (simp_all add: patched_def)

lemma apply_patch_no_error [simp]: "snd (apply_patch p f) = None"
  by (simp add: apply_patch_def)

lemma apply_empty_patch [simp]: "apply_patch empty_patch f = (f, None)"
  by (simp add: apply_patch_def empty_patch_def)

lemma validateRuntimeFilters_None_iff:
  "validateRuntimeFilters f = None \<longleftrightarrow>
     \<not> Open5mRangePctMin f \<le> 0 \<and> \<not> Open5mRangePctMax f \<le> 0
     \<and> \<not> Open5mRangePctMax f < Open5mRangePctMin f \<and> \<not> Open5mVolMax f < Open5mVolMin f
     \<and> \<not> Open5mTodayPctMax f < Open5mTodayPctMin f \<and> EntryMinAfterOpen f \<le> EntryMaxAfterOpen f
     \<and> \<not> EntryPriceMax f < EntryPriceMin f
     \<and> \<not> SoldOffFromOpenPctMin f \<le> 0 \<and> \<not> 1 \<le> SoldOffFromOpenPctMin f
     \<and> \<not> SoldOffOpen5mRangePctMin f \<le> 0 \<and> \<not> 1 \<le> SoldOffOpen5mRangePctMin f
     \<and> \<not> SoldOffOpen5mTodayPctMin f \<le> 0"
  by (simp add: validateRuntimeFilters_def not_less)

lemma validate_None_iff:
  "validate c = None \<longleftrightarrow>
     1 \<le> Port (cfg_Server c) \<and> Port (cfg_Server c) \<le> 65535
     \<and> \<not> cf_Open5mRangePctMin (cfg_Filters c) \<le> 0 \<and> \<not> cf_Open5mRangePctMax (cfg_Filters c) \<le> 0
     \<and> \<not> cf_Open5mRangePctMax (cfg_Filters c) < cf_Open5mRangePctMin (cfg_Filters c)
     \<and> \<not> cf_Open5mVolMax (cfg_Filters c) < cf_Open5mVolMin (cfg_Filters c)
     \<and> cf_EntryMinAfterOpen (cfg_Filters c) \<le> cf_EntryMaxAfterOpen (cfg_Filters c)
     \<and> \<not> cf_EntryPriceMax (cfg_Filters c) < cf_EntryPriceMin (cfg_Filters c)
     \<and> \<not> cf_SoldOffFromOpenPctMin (cfg_Filters c) \<le> 0 \<and> \<not> 1 \<le> cf_SoldOffFromOpenPctMin (cfg_Filters c)
     \<and> \<not> cf_SoldOffOpen5mRangePctMin (cfg_Filters c) \<le> 0
     \<and> \<not> 1 \<le> cf_SoldOffOpen5mRangePctMin (cfg_Filters c)
     \<and> \<not> cf_SoldOffOpen5mTodayPctMin (cfg_Filters c) \<le> 0"
  by (auto simp: validate_def Let_def not_less not_le)

lemma validate_runtime_iff:
  assumes "validate c = None"
  shows "validateRuntimeFilters (runtimeFiltersFromConfig c) = None
     \<longleftrightarrow> \<not> cf_Open5mTodayPctMax (cfg_Filters c) < cf_Open5mTodayPctMin (cfg_Filters c)"
  using assms
  by (simp add: validate_None_iff validateRuntimeFilters_None_iff runtimeFiltersFromConfig_def Let_def)

end
