(* ===== verification/GoTime.thy ===== *)
theory GoTime
  imports Prelude Float64
begin

text \<open>
  What the program uses of Go's package \<open>time\<close>, and the program's own helpers over it.

  An instant (\<open>time.Time\<close>) is the number of nanoseconds since the Unix epoch, as an integer;
  \<open>Before\<close> and \<open>After\<close> are \<open><\<close>, and the zero value is midnight of 1 January of the year 1.
  A \<open>time.Duration\<close> is a 64-bit number of nanoseconds; \<open>Sub\<close> saturates. A location
  (\<open>*time.Location\<close>) is its lookup function, which the time-zone database of the host
  supplies: for a Unix second, the offset east of UTC in seconds and the interval of Unix
  seconds in which that offset holds. The calendar is computed as \<open>absDate\<close> and \<open>Date\<close> of
  the standard library do (400/100/4/1-year blocks), with the year origin at the year 1,
  which is congruent to the library's origin modulo 400 years.

  The lemmas show the calendar's round trip (day number to date and back), that
  \<open>go_date\<close> is read back by the clock wherever the zone has no gap at that local
  time, and that the string comparison on \<open>"15:04"\<close> clock strings is a comparison of times.
\<close>

section \<open>Instants and durations\<close>

type_synonym gotime = int
type_synonym duration = int
type_synonym zone = "int \<Rightarrow> int \<times> int \<times> int"

definition sec_ns :: int where "sec_ns = 1000000000"
definition minute_ns :: int where "minute_ns = 60 * sec_ns"

definition zero_time :: gotime where "zero_time = - 62135596800 * sec_ns"

definition IsZero :: "gotime \<Rightarrow> bool" where "IsZero t \<longleftrightarrow> t = zero_time"

definition UnixMilli :: "int \<Rightarrow> gotime" where "UnixMilli ms = ms * 1000000"

definition to_millis :: "gotime \<Rightarrow> int" where "to_millis t = t div 1000000"

definition Unix :: "gotime \<Rightarrow> int" where "Unix t = t div sec_ns"

definition tquot :: "int \<Rightarrow> int \<Rightarrow> int" where
  "tquot a b = sgn a * sgn b * (\<bar>a\<bar> div \<bar>b\<bar>)"

definition trem :: "int \<Rightarrow> int \<Rightarrow> int" where
  "trem a b = a - tquot a b * b"

definition Sub :: "gotime \<Rightarrow> gotime \<Rightarrow> duration" where
  "Sub a b = max (- (2 ^ 63)) (min (2 ^ 63 - 1) (a - b))"

definition Seconds :: "duration \<Rightarrow> float64" where
  "Seconds d = of_int64 (tquot d sec_ns) + of_int64 (trem d sec_ns) / rnd 1000000000"

section \<open>The calendar\<close>

definition is_leap :: "int \<Rightarrow> bool" where
  "is_leap y \<longleftrightarrow> y mod 4 = 0 \<and> (y mod 100 \<noteq> 0 \<or> y mod 400 = 0)"

definition days_before :: "int list" where
  "days_before = [0, 31, 59, 90, 120, 151, 181, 212, 243, 273, 304, 334, 365]"

definition year_days :: "int \<Rightarrow> int" where
  "year_days year =
     (let y = year - 1; n400 = y div 400; y = y - 400 * n400; n100 = y div 100; y = y - 100 * n100;
          n4 = y div 4; n = y - 4 * n4
      in 146097 * n400 + 36524 * n100 + 1461 * n4 + 365 * n)"

definition days_of_civil :: "int \<Rightarrow> int \<Rightarrow> int \<Rightarrow> int" where
  "days_of_civil y m d =
     year_days y + days_before ! nat (m - 1) + (if is_leap y \<and> 3 \<le> m then 1 else 0) + (d - 1) - 719162"

definition split_year :: "int \<Rightarrow> int \<times> int" where
  "split_year day =
     (let n400 = day div 146097; d = day - 146097 * n400;
          n = d div 36524; n100 = n - n div 4; d = d - 36524 * n100;
          n4 = d div 1461; d = d - 1461 * n4;
          n = d div 365; n1 = n - n div 4; d = d - 365 * n1
      in (400 * n400 + 100 * n100 + 4 * n4 + n1 + 1, d))"

definition split_month :: "bool \<Rightarrow> int \<Rightarrow> int \<times> int" where
  "split_month leap yday =
     (if leap \<and> yday = 59 then (2, 29)
      else let day = (if leap \<and> 59 < yday then yday - 1 else yday);
               month = day div 31; en = days_before ! nat (month + 1)
           in if en \<le> day then (month + 2, day - en + 1)
              else (month + 1, day - days_before ! nat month + 1))"

definition civil_of_days :: "int \<Rightarrow> int \<times> int \<times> int" where
  "civil_of_days n =
     (let (y, yday) = split_year (n + 719162); (m, d) = split_month (is_leap y) yday in (y, m, d))"

definition Weekday :: "int \<Rightarrow> int" where
  "Weekday day = (day + 4) mod 7"

definition Sunday :: int where "Sunday = 0"
definition Saturday :: int where "Saturday = 6"

section \<open>Local time\<close>

definition local_secs :: "zone \<Rightarrow> gotime \<Rightarrow> int" where
  "local_secs z t = (let u = Unix t in u + fst (z u))"

definition local_day :: "zone \<Rightarrow> gotime \<Rightarrow> int" where
  "local_day z t = local_secs z t div 86400"

definition clock_secs :: "zone \<Rightarrow> gotime \<Rightarrow> int" where
  "clock_secs z t = local_secs z t mod 86400"

definition civil :: "zone \<Rightarrow> gotime \<Rightarrow> int \<times> int \<times> int" where
  "civil z t = civil_of_days (local_day z t)"

definition unlocal :: "zone \<Rightarrow> int \<Rightarrow> int" where
  "unlocal z l =
     (case z l of (off, start, en) \<Rightarrow>
        if off = 0 then l
        else let utc = l - off
             in if utc < start \<or> en \<le> utc then l - fst (z utc) else l - off)"

definition go_date :: "zone \<Rightarrow> int \<Rightarrow> int \<Rightarrow> int \<Rightarrow> int \<Rightarrow> int \<Rightarrow> int \<Rightarrow> gotime" where
  "go_date z y m d hh mm ss =
     unlocal z (days_of_civil y m d * 86400 + hh * 3600 + mm * 60 + ss) * sec_ns"

definition AddDays :: "zone \<Rightarrow> gotime \<Rightarrow> int \<Rightarrow> gotime" where
  "AddDays z t k =
     (case civil z t of (y, m, d) \<Rightarrow>
        let c = clock_secs z t
        in go_date z y m (d + k) (c div 3600) (c div 60 mod 60) (c mod 60) + t mod sec_ns)"

section \<open>Formatting and scanning\<close>

definition digit :: "int \<Rightarrow> char" where
  "digit k = char_of (48 + nat k)"

fun show_nat :: "nat \<Rightarrow> string" where
  "show_nat n = (if n < 10 then [digit (int n)] else show_nat (n div 10) @ [digit (int (n mod 10))])"

declare show_nat.simps [simp del]

definition show_int :: "int \<Rightarrow> string" where
  "show_int k = (if k < 0 then ''-'' @ show_nat (nat (- k)) else show_nat (nat k))"

definition pad2 :: "int \<Rightarrow> string" where
  "pad2 k = [digit (k div 10 mod 10), digit (k mod 10)]"

definition pad_year :: "int \<Rightarrow> string" where
  "pad_year y =
     (let ds = show_nat (nat \<bar>y\<bar>)
      in (if y < 0 then ''-'' else []) @ replicate (4 - length ds) (CHR ''0'') @ ds)"

definition fmt_hm :: "zone \<Rightarrow> gotime \<Rightarrow> string" where
  "fmt_hm z t = (let c = clock_secs z t in pad2 (c div 3600) @ '':'' @ pad2 (c div 60 mod 60))"

definition fmt_hms :: "zone \<Rightarrow> gotime \<Rightarrow> string" where
  "fmt_hms z t = fmt_hm z t @ '':'' @ pad2 (clock_secs z t mod 60)"

definition fmt_ymd :: "zone \<Rightarrow> gotime \<Rightarrow> string" where
  "fmt_ymd z t =
     (case civil z t of (y, m, d) \<Rightarrow> pad_year y @ ''-'' @ pad2 m @ ''-'' @ pad2 d)"

definition fmt_full :: "zone \<Rightarrow> gotime \<Rightarrow> string" where
  "fmt_full z t = fmt_ymd z t @ '' '' @ fmt_hms z t"

definition is_digit :: "char \<Rightarrow> bool" where
  "is_digit c \<longleftrightarrow> 48 \<le> (of_char c :: nat) \<and> (of_char c :: nat) \<le> 57"

definition digit_val :: "char \<Rightarrow> int" where
  "digit_val c = of_char c - 48"

text \<open>\<open>SkipSpace\<close> of package \<open>fmt\<close> on ASCII input: a newline is an error for \<open>Sscanf\<close>.\<close>

fun skip_space :: "string \<Rightarrow> string option" where
  "skip_space [] = Some []"
| "skip_space (c # s) =
     (if of_char c = (10 :: nat) then None
      else if of_char c \<in> {9, 11, 12, 13, 32 :: nat} then skip_space s else Some (c # s))"

definition in_int64 :: "int \<Rightarrow> bool" where
  "in_int64 k \<longleftrightarrow> - (2 ^ 63) \<le> k \<and> k < 2 ^ 63"

text \<open>The verb \<open>%d\<close>: blanks, an optional sign, then at least one digit.\<close>

definition scan_d :: "string \<Rightarrow> (int \<times> string) option" where
  "scan_d s0 =
     (case skip_space s0 of
        None \<Rightarrow> None
      | Some s \<Rightarrow>
          let signed = (s \<noteq> [] \<and> (hd s = CHR ''-'' \<or> hd s = CHR ''+''));
              rest = (if signed then tl s else s);
              ds = takeWhile is_digit rest;
              v = foldl (\<lambda>acc c. 10 * acc + digit_val c) 0 ds;
              v = (if signed \<and> hd s = CHR ''-'' then - v else v)
          in if ds = [] \<or> \<not> in_int64 v then None else Some (v, dropWhile is_digit rest))"

text \<open>\<open>fmt.Sscanf(hms, "%d:%d:%d", &hh, &mm, &ss)\<close> with the error dropped: what was scanned stays.\<close>

definition scan_colon :: "string \<Rightarrow> string option" where
  "scan_colon s = (case s of [] \<Rightarrow> None | c # r \<Rightarrow> if c = CHR '':'' then Some r else None)"

definition Sscanf_hms :: "string \<Rightarrow> int \<times> int \<times> int" where
  "Sscanf_hms s =
     (case scan_d s of
        None \<Rightarrow> (0, 0, 0)
      | Some (hh, r) \<Rightarrow>
          (case Option.bind (scan_colon r) scan_d of
             None \<Rightarrow> (hh, 0, 0)
           | Some (mm, r') \<Rightarrow>
               (case Option.bind (scan_colon r') scan_d of
                  None \<Rightarrow> (hh, mm, 0)
                | Some (ss, _) \<Rightarrow> (hh, mm, ss))))"

section \<open>The program's time helpers\<close>

definition atTime :: "zone \<Rightarrow> gotime \<Rightarrow> string \<Rightarrow> gotime" where
  "atTime z now hms =
     (case Sscanf_hms hms of (hh, mm, ss) \<Rightarrow>
        case civil z now of (y, m, d) \<Rightarrow> go_date z y m d hh mm ss)"

definition dateOnlyInLoc :: "zone \<Rightarrow> gotime \<Rightarrow> gotime" where
  "dateOnlyInLoc z t = (case civil z t of (y, m, d) \<Rightarrow> go_date z y m d 0 0 0)"

definition sameDayInLoc :: "zone \<Rightarrow> gotime \<Rightarrow> gotime \<Rightarrow> bool" where
  "sameDayInLoc z a b \<longleftrightarrow> civil z a = civil z b"

definition minTime :: "gotime \<Rightarrow> gotime \<Rightarrow> gotime" where
  "minTime a b = (if IsZero a then b else if IsZero b then a else if a < b then a else b)"

section \<open>Zones\<close>

text \<open>
  A local time (seconds on the local clock since 1970-01-01 00:00:00) exists in a zone when
  the instant \<open>go_date\<close> makes of it shows that time again; it does not for a time a
  daylight-saving switch skips. A zone of constant offset has every local time.
\<close>

definition reads_back :: "zone \<Rightarrow> int \<Rightarrow> bool" where
  "reads_back z l \<longleftrightarrow> unlocal z l + fst (z (unlocal z l)) = l"

text \<open>A zone whose every day has a midnight.\<close>

definition full_days :: "zone \<Rightarrow> bool" where
  "full_days z \<longleftrightarrow> (\<forall>n. reads_back z (n * 86400))"

definition fixed_zone :: "int \<Rightarrow> zone" where
  "fixed_zone off = (\<lambda>_. (off, - (2 ^ 63), 2 ^ 63 - 1))"

lemma reads_back_fixed [simp]: "reads_back (fixed_zone off) l"
  by (simp add: reads_back_def unlocal_def fixed_zone_def Let_def)

lemma full_days_fixed [simp]: "full_days (fixed_zone off)"
  by (simp add: full_days_def)

section \<open>Calendar lemmas\<close>

lemma cut4:
  fixes d K :: int
  assumes "0 \<le> d" and "d \<le> 4 * K" and "0 < K"
  defines "n \<equiv> d div K - d div K div 4"
  shows "0 \<le> n" and "n \<le> 3" and "0 \<le> d - K * n"
    and "d - K * n < K \<or> d - K * n = K \<and> n = 3 \<and> d = 4 * K"
proof -
  define q where "q = d div K"
  have d: "d = K * q + d mod K" "0 \<le> d mod K" "d mod K < K" using assms(3) by (auto simp: q_def)
  have q0: "0 \<le> q" using assms(1,3) by (simp add: q_def pos_imp_zdiv_nonneg_iff)
  have "q \<le> 4 * K div K" unfolding q_def using assms(2,3) by (intro zdiv_mono1)
  then have q4: "q \<le> 4" using assms(3) by simp
  from q0 q4 consider "q \<in> {0, 1, 2, 3}" | "q = 4" by force
  then have "0 \<le> n \<and> n \<le> 3 \<and> 0 \<le> d - K * n \<and> (d - K * n < K \<or> d - K * n = K \<and> n = 3 \<and> d = 4 * K)"
  proof cases
    case 1
    then have "n = q" by (auto simp: n_def q_def [symmetric])
    with 1 d show ?thesis by auto
  next
    case 2
    then have "n = 3" by (simp add: n_def q_def [symmetric])
    with 2 d assms(2) show ?thesis by simp
  qed
  then show "0 \<le> n" "n \<le> 3" "0 \<le> d - K * n" "d - K * n < K \<or> d - K * n = K \<and> n = 3 \<and> d = 4 * K"
    by auto
qed

lemma split_year_parts:
  obtains a b c e r where "split_year day = (400 * a + 100 * b + 4 * c + e + 1, r)"
    "day = 146097 * a + 36524 * b + 1461 * c + 365 * e + r"
    "0 \<le> b" "b \<le> 3" "0 \<le> c" "c \<le> 24" "0 \<le> e" "e \<le> 3" "0 \<le> r"
    "r < 365 \<or> r = 365 \<and> e = 3 \<and> (c \<noteq> 24 \<or> b = 3)"
proof -
  define a where "a = day div 146097"
  define d1 where "d1 = day - 146097 * a"
  define b where "b = d1 div 36524 - d1 div 36524 div 4"
  define d2 where "d2 = d1 - 36524 * b"
  define c where "c = d2 div 1461"
  define d3 where "d3 = d2 - 1461 * c"
  define e where "e = d3 div 365 - d3 div 365 div 4"
  define r where "r = d3 - 365 * e"
  have "d1 = day mod 146097" unfolding d1_def a_def by (simp add: minus_mult_div_eq_mod)
  then have d1: "0 \<le> d1" "d1 \<le> 4 * 36524" by auto
  have b: "0 \<le> b" "b \<le> 3" "0 \<le> d2" "d2 < 36524 \<or> d2 = 36524 \<and> b = 3"
    using cut4 [OF d1] unfolding d2_def b_def by auto
  have "d3 = d2 mod 1461" unfolding d3_def c_def by (simp add: minus_mult_div_eq_mod)
  then have d3: "0 \<le> d3" "d3 \<le> 4 * 365" "d2 = 1461 * c + d3" by (auto simp: d3_def)
  have c: "0 \<le> c" "c \<le> 24" "d3 < 1460 \<or> c \<noteq> 24 \<or> b = 3"
    using b(3,4) d3 by linarith+
  have e: "0 \<le> e" "e \<le> 3" "0 \<le> r" "r < 365 \<or> r = 365 \<and> e = 3 \<and> d3 = 1460"
    using cut4 [OF d3(1,2)] unfolding r_def e_def by auto
  show thesis
  proof (rule that [of a b c e r])
    show "split_year day = (400 * a + 100 * b + 4 * c + e + 1, r)"
      unfolding split_year_def Let_def a_def [symmetric] d1_def [symmetric] b_def [symmetric]
        d2_def [symmetric] c_def [symmetric] d3_def [symmetric] e_def [symmetric] r_def [symmetric]
      by (rule refl)
    show "day = 146097 * a + 36524 * b + 1461 * c + 365 * e + r"
      by (simp add: r_def d3_def d2_def d1_def)
  qed (use b c e in auto)
qed

lemma year_days_parts:
  assumes "0 \<le> b" "b \<le> 3" "0 \<le> c" "c \<le> 24" "0 \<le> e" "e \<le> (3::int)"
  shows "year_days (400 * a + 100 * b + 4 * c + e + 1) = 146097 * a + 36524 * b + 1461 * c + 365 * e"
    and "is_leap (400 * a + 100 * b + 4 * c + e + 1) \<longleftrightarrow> e = 3 \<and> (c \<noteq> 24 \<or> b = 3)"
proof -
  let ?y = "400 * a + 100 * b + 4 * c + e + 1"
  have 1: "(400 * a + 100 * b + 4 * c + e) div 400 = a"
    using div_mult_self2 [of 400 "100 * b + 4 * c + e" a] assms by (simp add: algebra_simps div_pos_pos_trivial)
  have 2: "(100 * b + 4 * c + e) div 100 = b"
    using div_mult_self2 [of 100 "4 * c + e" b] assms by (simp add: algebra_simps div_pos_pos_trivial)
  have 3: "(4 * c + e) div 4 = c"
    using div_mult_self2 [of 4 "e" c] assms by (simp add: algebra_simps div_pos_pos_trivial)
  from 1 2 3 show "year_days ?y = 146097 * a + 36524 * b + 1461 * c + 365 * e"
    by (simp add: year_days_def Let_def)
  have m4: "?y mod 4 = (e + 1) mod 4"
    using mod_mult_self2 [of "e + 1" 4 "100 * a + 25 * b + c"] by (simp add: algebra_simps)
  have m100: "?y mod 100 = (4 * c + e + 1) mod 100"
    using mod_mult_self2 [of "4 * c + e + 1" 100 "4 * a + b"] by (simp add: algebra_simps)
  have m400: "?y mod 400 = (100 * b + 4 * c + e + 1) mod 400"
    using mod_mult_self2 [of "100 * b + 4 * c + e + 1" 400 a] by (simp add: algebra_simps)
  show "is_leap ?y \<longleftrightarrow> e = 3 \<and> (c \<noteq> 24 \<or> b = 3)"
  proof (cases "e = 3")
    case False
    then have "e = 0 \<or> e = 1 \<or> e = 2" using assms(5,6) by linarith
    with False m4 show ?thesis by (auto simp: is_leap_def)
  next
    case e: True
    show ?thesis
    proof (cases "c = 24")
      case False
      with assms e have "?y mod 100 \<noteq> 0" unfolding m100 by (subst mod_pos_pos_trivial) auto
      with e m4 False show ?thesis by (auto simp: is_leap_def)
    next
      case c: True
      have "b = 0 \<or> b = 1 \<or> b = 2 \<or> b = 3" using assms(1,2) by linarith
      with e c m4 m100 m400 show ?thesis by (auto simp: is_leap_def)
    qed
  qed
qed

lemma upto_cases:
  "0 \<le> k \<Longrightarrow> k \<le> 11 \<Longrightarrow> k = 0 \<or> k = 1 \<or> k = 2 \<or> k = 3 \<or> k = 4 \<or> k = 5 \<or> k = 6 \<or> k = 7
     \<or> k = 8 \<or> k = 9 \<or> k = 10 \<or> k = (11 :: int)"
  by arith

lemma split_month_inverse:
  assumes "0 \<le> r" and "r < 365 + (if leap then 1 else 0)" and "split_month leap r = (m, d)"
  shows "days_before ! nat (m - 1) + (if leap \<and> 3 \<le> m then 1 else 0) + (d - 1) = r"
    and "1 \<le> m" "m \<le> 12" "1 \<le> d" "d \<le> 31"
proof -
  define day where "day = (if leap \<and> 59 < r then r - 1 else r)"
  have day: "0 \<le> day" "day < 365" using assms(1,2) by (auto simp: day_def split: if_splits)
  then have "0 \<le> day div 31" "day div 31 \<le> 11" by auto
  then consider "day div 31 = 0" | "day div 31 = 1" | "day div 31 = 2" | "day div 31 = 3" | "day div 31 = 4"
    | "day div 31 = 5" | "day div 31 = 6" | "day div 31 = 7" | "day div 31 = 8" | "day div 31 = 9"
    | "day div 31 = 10" | "day div 31 = 11" using upto_cases [of "day div 31"] by blast
  then have "days_before ! nat (m - 1) + (if leap \<and> 3 \<le> m then 1 else 0) + (d - 1) = r
     \<and> 1 \<le> m \<and> m \<le> 12 \<and> 1 \<le> d \<and> d \<le> 31"
    using assms(3) day unfolding split_month_def day_def [symmetric] Let_def
    by cases (auto simp: days_before_def day_def split: if_splits)
  then show "days_before ! nat (m - 1) + (if leap \<and> 3 \<le> m then 1 else 0) + (d - 1) = r"
    "1 \<le> m" "m \<le> 12" "1 \<le> d" "d \<le> 31" by auto
qed
lemma split_year_bounds:
  "split_year day = (y, r) \<Longrightarrow> 0 \<le> r \<and> r < 365 + (if is_leap y then 1 else 0) \<and> year_days y + r = day"
proof -
  assume s: "split_year day = (y, r)"
  obtain a b c e r' where p: "split_year day = (400 * a + 100 * b + 4 * c + e + 1, r')"
    "day = 146097 * a + 36524 * b + 1461 * c + 365 * e + r'"
    "0 \<le> b" "b \<le> 3" "0 \<le> c" "c \<le> 24" "0 \<le> e" "e \<le> 3" "0 \<le> r'"
    "r' < 365 \<or> r' = 365 \<and> e = 3 \<and> (c \<noteq> 24 \<or> b = 3)"
    by (rule split_year_parts)
  note yp = year_days_parts [OF p(3-8), of a]
  from s p(1) have y: "y = 400 * a + 100 * b + 4 * c + e + 1" and r: "r = r'" by auto
  show ?thesis unfolding y r yp using p by auto
qed

lemma days_of_civil_of_days:
  assumes "civil_of_days n = (y, m, d)"
  shows "days_of_civil y m (d + k) = n + k" and "1 \<le> m" "m \<le> 12" "1 \<le> d" "d \<le> 31"
proof -
  obtain r where sy: "split_year (n + 719162) = (y, r)" and sm: "split_month (is_leap y) r = (m, d)"
    using assms by (auto simp: civil_of_days_def split: prod.splits)
  note b = split_year_bounds [OF sy]
  then have b2: "0 \<le> r" "r < 365 + (if is_leap y then 1 else 0)" by auto
  note i = split_month_inverse [OF b2 sm]
  show "days_of_civil y m (d + k) = n + k" using i(1) b by (simp add: days_of_civil_def)
  show "1 \<le> m" "m \<le> 12" "1 \<le> d" "d \<le> 31" using i by auto
qed

lemma civil_of_days_inj: "civil_of_days a = civil_of_days b \<longleftrightarrow> a = b"
  by (metis days_of_civil_of_days(1) add.right_neutral prod_cases3)

lemma sameDayInLoc_iff: "sameDayInLoc z a b \<longleftrightarrow> local_day z a = local_day z b"
  by (simp add: sameDayInLoc_def civil_def civil_of_days_inj)

lemma Unix_of_secs [simp]: "0 \<le> e \<Longrightarrow> e < sec_ns \<Longrightarrow> Unix (u * sec_ns + e) = u"
  by (simp add: Unix_def sec_ns_def)

lemma local_secs_unlocal:
  "reads_back z l \<Longrightarrow> 0 \<le> e \<Longrightarrow> e < sec_ns \<Longrightarrow> local_secs z (unlocal z l * sec_ns + e) = l"
  by (simp add: local_secs_def Let_def reads_back_def)

lemma clock_secs_bounds [simp]: "0 \<le> clock_secs z t" "clock_secs z t < 86400"
  by (simp_all add: clock_secs_def)

lemma clock_parts: "c div 3600 * 3600 + c div 60 mod 60 * 60 + c mod 60 = (c :: int)"
proof -
  have "c div 3600 = c div 60 div 60" using zdiv_zmult2_eq [of 60 c 60] by simp
  with div_mult_mod_eq [of c 60] div_mult_mod_eq [of "c div 60" 60] show ?thesis by linarith
qed

lemma day_secs_split: "0 \<le> c \<Longrightarrow> c < 86400 \<Longrightarrow> (n * 86400 + c) div 86400 = n \<and> (n * 86400 + c) mod 86400 = (c :: int)"
  using div_mult_self1 [of 86400 c n] by (simp add: add.commute)

lemma local_secs_go_date:
  assumes "reads_back z (days_of_civil y m d * 86400 + hh * 3600 + mm * 60 + ss)"
  shows "local_secs z (go_date z y m d hh mm ss) = days_of_civil y m d * 86400 + hh * 3600 + mm * 60 + ss"
  using local_secs_unlocal [OF assms, of 0] by (simp add: go_date_def sec_ns_def)

text \<open>The instant of a clock time on the local date of \<open>t\<close>.\<close>

lemma local_secs_on_day:
  assumes "civil z t = (y, m, d)" and "reads_back z ((local_day z t + k) * 86400 + c)"
    and "hh * 3600 + mm * 60 + ss = c"
  shows "local_secs z (go_date z y m (d + k) hh mm ss) = (local_day z t + k) * 86400 + c"
proof -
  have "days_of_civil y m (d + k) = local_day z t + k"
    using assms(1) unfolding civil_def by (rule days_of_civil_of_days)
  with assms(3) have l: "days_of_civil y m (d + k) * 86400 + hh * 3600 + mm * 60 + ss
      = (local_day z t + k) * 86400 + c"
    by simp
  show ?thesis using local_secs_go_date [of z y m "d + k" hh mm ss] assms(2) unfolding l by simp
qed

lemma AddDays_local:
  assumes "reads_back z ((local_day z t + k) * 86400 + clock_secs z t)"
  shows "local_day z (AddDays z t k) = local_day z t + k"
    and "clock_secs z (AddDays z t k) = clock_secs z t"
proof -
  obtain y m d where c: "civil z t = (y, m, d)" by (cases "civil z t")
  let ?c = "clock_secs z t"
  have days: "days_of_civil y m (d + k) = local_day z t + k"
    using c unfolding civil_def by (rule days_of_civil_of_days)
  have "AddDays z t k = unlocal z ((local_day z t + k) * 86400 + ?c) * sec_ns + t mod sec_ns"
    using clock_parts [of ?c] by (simp add: AddDays_def c go_date_def days Let_def add.assoc)
  then have "local_secs z (AddDays z t k) = (local_day z t + k) * 86400 + ?c"
    using local_secs_unlocal [OF assms, of "t mod sec_ns"] by (simp add: sec_ns_def)
  then show "local_day z (AddDays z t k) = local_day z t + k"
    and "clock_secs z (AddDays z t k) = ?c"
    using day_secs_split [of ?c "local_day z t + k"]
    by (simp_all only: local_day_def [of z "AddDays z t k"] clock_secs_def [of z "AddDays z t k"]
        clock_secs_bounds simp_thms)
qed

lemma dateOnlyInLoc_local:
  assumes "reads_back z (local_day z t * 86400)"
  shows "local_day z (dateOnlyInLoc z t) = local_day z t" and "clock_secs z (dateOnlyInLoc z t) = 0"
proof -
  obtain y m d where c: "civil z t = (y, m, d)" by (cases "civil z t")
  have "local_secs z (go_date z y m (d + 0) 0 0 0) = (local_day z t + 0) * 86400 + 0"
    by (rule local_secs_on_day [OF c]) (use assms in auto)
  then show "local_day z (dateOnlyInLoc z t) = local_day z t" and "clock_secs z (dateOnlyInLoc z t) = 0"
    by (simp_all add: dateOnlyInLoc_def c local_day_def [of z "go_date z y m d 0 0 0"] clock_secs_def)
qed

section \<open>Clock strings\<close>

lemma digit_less_iff:
  "0 \<le> a \<Longrightarrow> a < 10 \<Longrightarrow> 0 \<le> b \<Longrightarrow> b < 10 \<Longrightarrow> digit a < digit b \<longleftrightarrow> a < b"
  by (auto simp: digit_def less_char_def)

lemma digit_eq_iff:
  "0 \<le> a \<Longrightarrow> a < 10 \<Longrightarrow> 0 \<le> b \<Longrightarrow> b < 10 \<Longrightarrow> digit a = digit b \<longleftrightarrow> a = b"
  using digit_less_iff [of a b] digit_less_iff [of b a] by (metis linorder_neq_iff)

lemma ten_lex:
  fixes p q p' q' :: int
  assumes "0 \<le> q" "q < 10" "0 \<le> q'" "q' < 10"
  shows "p * 10 + q < p' * 10 + q' \<longleftrightarrow> p < p' \<or> p = p' \<and> q < q'"
    and "p * 10 + q = p' * 10 + q' \<longleftrightarrow> p = p' \<and> q = q'"
  using assms by (cases p p' rule: linorder_cases; auto)+

lemma pad2_append_less:
  assumes "0 \<le> a" "a < 100" "0 \<le> b" "b < 100"
  shows "pad2 a @ s < pad2 b @ t \<longleftrightarrow> a < b \<or> a = b \<and> s < t"
proof -
  have d: "0 \<le> a div 10" "a div 10 < 10" "0 \<le> b div 10" "b div 10 < 10"
    using assms by auto
  have m: "a div 10 mod 10 = a div 10" "b div 10 mod 10 = b div 10"
    using d by (simp_all add: mod_pos_pos_trivial)
  have lex: "a < b \<longleftrightarrow> a div 10 < b div 10 \<or> a div 10 = b div 10 \<and> a mod 10 < b mod 10"
    "a = b \<longleftrightarrow> a div 10 = b div 10 \<and> a mod 10 = b mod 10"
    using ten_lex [where p = "a div 10" and q = "a mod 10" and p' = "b div 10" and q' = "b mod 10"]
    by simp_all
  show ?thesis
    using d lex by (auto simp: pad2_def m digit_less_iff digit_eq_iff)
qed

definition clock_hm :: "int \<Rightarrow> int \<Rightarrow> string" where
  "clock_hm h m = pad2 h @ '':'' @ pad2 m"

lemma clock_hm_less:
  assumes "0 \<le> h" "h < 100" "0 \<le> m" "m < 60" "0 \<le> h'" "h' < 100" "0 \<le> m'" "m' < 60"
  shows "clock_hm h m < clock_hm h' m' \<longleftrightarrow> h * 60 + m < h' * 60 + m'"
proof -
  have "pad2 m < pad2 m' \<longleftrightarrow> m < m'"
    using pad2_append_less [of m m' "[]" "[]"] assms by simp
  with assms show ?thesis
    using pad2_append_less [of h h' "'':'' @ pad2 m" "'':'' @ pad2 m'"]
    by (auto simp: clock_hm_def)
qed

lemma fmt_hm_clock: "fmt_hm z t = clock_hm (clock_secs z t div 3600) (clock_secs z t div 60 mod 60)"
  by (simp add: fmt_hm_def clock_hm_def Let_def)

lemma fmt_hm_less_iff:
  assumes "0 \<le> h" "h < 24" "0 \<le> m" "m < 60"
  shows "fmt_hm z t < clock_hm h m \<longleftrightarrow> clock_secs z t div 60 < h * 60 + m"
    and "clock_hm h m < fmt_hm z t \<longleftrightarrow> h * 60 + m < clock_secs z t div 60"
proof -
  let ?c = "clock_secs z t"
  have c: "0 \<le> ?c div 3600" "?c div 3600 < 100" using clock_secs_bounds [of z t] by linarith+
  have e: "?c div 3600 * 60 + ?c div 60 mod 60 = ?c div 60"
    using zdiv_zmult2_eq [of 60 ?c 60] by simp
  have b: "0 \<le> ?c div 60 mod 60" "?c div 60 mod 60 < 60" by simp_all
  show "fmt_hm z t < clock_hm h m \<longleftrightarrow> ?c div 60 < h * 60 + m"
    using clock_hm_less [OF c b, of h m] assms e by (simp add: fmt_hm_clock)
  show "clock_hm h m < fmt_hm z t \<longleftrightarrow> h * 60 + m < ?c div 60"
    using clock_hm_less [OF _ _ _ _ c b, of h m] assms e by (simp add: fmt_hm_clock)
qed

lemma clock_0930: "''09:30'' = clock_hm 9 30" and clock_0934: "''09:34'' = clock_hm 9 34"
  by code_simp+

lemma fmt_hm_window:
  "\<not> (fmt_hm z t < ''09:30'' \<or> ''09:34'' < fmt_hm z t)
     \<longleftrightarrow> 570 \<le> clock_secs z t div 60 \<and> clock_secs z t div 60 \<le> 574"
  using fmt_hm_less_iff [of 9 30 z t] fmt_hm_less_iff [of 9 34 z t]
  unfolding clock_0930 clock_0934 by auto

end
