(* ===== verification/Store.thy ===== *)
theory Store
  imports Filters GoTime
begin

text \<open>
  The in-memory store (\<open>internal/store/store.go\<close>). The fields of \<open>Store\<close> and \<open>TickerState\<close> are
  records; every method is a function of the store, atomic because the code runs it under the
  store's mutex. The map \<open>tickers\<close> is an association list with one entry per key; Go iterates
  over a map in an unspecified order, so an operation that iterates takes that order as an
  argument \<open>ord\<close>, a rearrangement of the keys. \<open>time.Now()\<close> is an argument where a method reads
  the clock. Cloning and pointer identity disappear: \<open>GetTicker\<close> copies, and no pointer into the
  map leaves the store.

  The lemmas state the laws of the interfaces of \<open>Prelude\<close> for the store: keyed cells for
  \<open>UpsertTicker\<close>/\<open>GetTicker\<close>, a bounded log for \<open>AddEvent\<close>, a guarded cell for \<open>UpdateFilters\<close>; and
  the frame of each method.
\<close>

section \<open>Data\<close>

datatype phase =
  PhaseWaitingOpen | PhaseCollecting5m | PhaseSelecting0935 | PhaseTrackingTicks | PhaseClosed

fun phase_string :: "phase \<Rightarrow> string" where
  "phase_string PhaseWaitingOpen = ''waiting_open''"
| "phase_string PhaseCollecting5m = ''collecting_open_5m''"
| "phase_string PhaseSelecting0935 = ''selecting_0935''"
| "phase_string PhaseTrackingTicks = ''tracking_ticks''"
| "phase_string PhaseClosed = ''closed''"

datatype mode = ModeRealtime | ModeHistoric

fun mode_string :: "mode \<Rightarrow> string" where
  "mode_string ModeRealtime = ''realtime''"
| "mode_string ModeHistoric = ''historic''"

record historic_summary =
  hs_DateNY :: string
  hs_WindowStartNY :: string
  hs_WindowEndNY :: string
  hs_Shares :: int
  hs_Candidates :: int
  hs_TradesTaken :: int
  hs_NoEntry :: int
  hs_Wins :: int
  hs_Losses :: int
  hs_TimeExits :: int
  hs_WinRate :: float64
  hs_NetPnL :: float64
  hs_TotalNotional :: float64
  hs_NetReturnPct :: float64
  hs_AvgReturnPct :: float64
  hs_AvgWinPct :: float64
  hs_AvgLossPct :: float64
  hs_ProfitFactor :: float64
  hs_BestTradePct :: float64
  hs_WorstTradePct :: float64

record historic_trade =
  ht_Symbol :: string
  ht_EntryTimeNY :: string
  ht_EntryPrice :: float64
  ht_EntryMinutesAfterOpen :: float64
  ht_TakeProfitPrice :: float64
  ht_StopPrice :: float64
  ht_ExitTimeNY :: string
  ht_ExitPrice :: float64
  ht_ExitMinutesAfterOpen :: float64
  ht_ExitReason :: string
  ht_Shares :: int
  ht_RealizedPnLPct :: float64
  ht_RealizedPnL :: float64
  ht_HoldPrice :: float64
  ht_HoldPnLPct :: float64
  ht_HoldPnL :: float64
  ht_MFEPrice :: float64
  ht_MFETimeNY :: string
  ht_MFEPnLPct :: float64
  ht_MFEPnL :: float64
  ht_MAEPrice :: float64
  ht_MAETimeNY :: string
  ht_MAEPnLPct :: float64
  ht_MAEPnL :: float64

record historic_no_entry =
  ne_Symbol :: string
  ne_Open5mVol :: float64
  ne_Open5mRangePct :: float64
  ne_Open5mTodayPct :: float64
  ne_SawCrossInWindow :: bool
  ne_FirstCrossTimeNY :: string
  ne_FirstCrossPrice :: float64
  ne_Reason :: string

record historic_sold_off =
  so_Symbol :: string
  so_Open0930 :: float64
  so_LowPrice :: float64
  so_LowTimeNY :: string
  so_PriceAtScanTime :: float64
  so_DropPct :: float64
  so_Open5mVol :: float64
  so_Open5mRangePct :: float64
  so_Open5mTodayPct :: float64

record historic_report =
  Summary :: historic_summary
  Trades :: "historic_trade list"
  NoEntries :: "historic_no_entry list"
  SoldOff :: "historic_sold_off list"

record event =
  ev_ID :: string
  ev_TimeNY :: string
  ev_Type :: string
  ev_Symbol :: string
  ev_Message :: string
  ev_AudioID :: string
  ev_Level :: string

record public_ticker =
  pt_Symbol :: string
  pt_Open0930 :: float64
  pt_Open5mVol :: float64
  pt_Open5mRangePct :: float64
  pt_Prev10AvgOpen5m :: float64
  pt_Open5mTodayPct :: float64
  pt_SawCrossInWindow :: bool
  pt_FirstCrossTimeNY :: string
  pt_FirstCrossPrice :: float64
  pt_VWAP :: float64
  pt_LastPrice :: float64
  pt_MinutesAfterOpen :: float64
  pt_Status :: string
  pt_EntryPrice :: float64
  pt_TakeProfitPrice :: float64
  pt_StopPrice :: float64

record ticker_state =
  Symbol :: string
  Open0930 :: float64
  Open0930Estimated :: bool
  ORHigh :: float64
  ORLow :: float64
  Open5mVol :: float64
  Open5mRangePct :: float64
  Prev10AvgOpen5mVol :: float64
  Open5mTodayPct :: float64
  CumPV :: float64
  CumV :: float64
  VWAP :: float64
  LastPrice :: float64
  LastTrade :: gotime
  PrevPrice :: float64
  PrevVWAP :: float64
  MinutesAfterOpen :: float64
  HasPosition :: bool
  EntryPrice :: float64
  EntryTime :: gotime
  TakeProfitPrice :: float64
  StopPrice :: float64
  Exited :: bool
  ExitReason :: string
  EntryMinutesAfterOpen :: float64
  ExitPrice :: float64
  ExitTime :: gotime
  ExitMinutesAfterOpen :: float64
  MaxPriceSinceEntry :: float64
  MaxPriceSinceEntryTime :: gotime
  MinPriceSinceEntry :: float64
  MinPriceSinceEntryTime :: gotime
  SawCrossInWindow :: bool
  FirstCrossTime :: gotime
  FirstCrossPrice :: float64
  Status :: string

text \<open>\<open>&TickerState{Symbol: symb, Status: "watching"}\<close>: every other field has its zero value.\<close>

definition new_ticker :: "string \<Rightarrow> ticker_state" where
  "new_ticker symb =
     \<lparr>Symbol = symb, Open0930 = 0, Open0930Estimated = False, ORHigh = 0, ORLow = 0, Open5mVol = 0,
      Open5mRangePct = 0, Prev10AvgOpen5mVol = 0, Open5mTodayPct = 0, CumPV = 0, CumV = 0, VWAP = 0,
      LastPrice = 0, LastTrade = zero_time, PrevPrice = 0, PrevVWAP = 0, MinutesAfterOpen = 0,
      HasPosition = False, EntryPrice = 0, EntryTime = zero_time, TakeProfitPrice = 0, StopPrice = 0,
      Exited = False, ExitReason = [], EntryMinutesAfterOpen = 0, ExitPrice = 0, ExitTime = zero_time,
      ExitMinutesAfterOpen = 0, MaxPriceSinceEntry = 0, MaxPriceSinceEntryTime = zero_time,
      MinPriceSinceEntry = 0, MinPriceSinceEntryTime = zero_time, SawCrossInWindow = False,
      FirstCrossTime = zero_time, FirstCrossPrice = 0, Status = ''watching''\<rparr>"

type_synonym bytes = string
type_synonym map_order = "string list \<Rightarrow> string list"

record store =
  st_cfg :: config
  mode :: mode
  historicReport :: "historic_report option"
  filters :: runtime_filters
  sessionID :: string
  historicTargetDateNY :: gotime
  historicResolvedDateNY :: gotime
  historicNote :: string
  phase :: phase
  watchlist :: "string list"
  watchset :: "string set"
  openTimeNY :: gotime
  selectionTimeNY :: gotime
  vwapCutoffNY :: gotime
  forceExitNY :: gotime
  tickers :: "(string \<times> ticker_state) list"
  events :: "event list"
  audio :: "string \<rightharpoonup> bytes"

record snapshot =
  sn_NowNY :: string
  sn_Mode :: mode
  sn_Phase :: phase
  sn_WatchlistCount :: int
  sn_OpenTimeNY :: string
  sn_SelectionTimeNY :: string
  sn_VwapCutoffNY :: string
  sn_ForceExitNY :: string
  sn_TrackedCount :: int
  sn_Tickers :: "public_ticker list"
  sn_Filters :: runtime_filters
  sn_Events :: "event list"
  sn_HistoricReport :: "historic_report option"
  sn_SessionID :: string
  sn_HistoricTargetDateNY :: string
  sn_HistoricResolvedDateNY :: string
  sn_HistoricNote :: string
  sn_HistoricMinDateNY :: string
  sn_HistoricMaxDateNY :: string

section \<open>Operations\<close>

definition New :: "gotime \<Rightarrow> config \<Rightarrow> string list \<Rightarrow> store" where
  "New now c wl =
     \<lparr>st_cfg = c, mode = ModeRealtime, historicReport = None, filters = runtimeFiltersFromConfig c,
      sessionID = show_int now, historicTargetDateNY = zero_time, historicResolvedDateNY = zero_time,
      historicNote = [], phase = PhaseWaitingOpen, watchlist = wl, watchset = set wl,
      openTimeNY = zero_time, selectionTimeNY = zero_time, vwapCutoffNY = zero_time,
      forceExitNY = zero_time, tickers = [], events = [], audio = Map.empty\<rparr>"

definition SetMode :: "mode \<Rightarrow> store \<Rightarrow> store" where
  "SetMode m s = s\<lparr>mode := m\<rparr>"

definition Mode :: "store \<Rightarrow> mode" where
  "Mode s = mode s"

definition Filters :: "store \<Rightarrow> runtime_filters" where
  "Filters s = filters s"

definition UpdateFilters ::
  "(runtime_filters \<Rightarrow> runtime_filters \<times> string option) \<Rightarrow> store
     \<Rightarrow> store \<times> runtime_filters \<times> string option" where
  "UpdateFilters fn s =
     (let cur = filters s
      in case fn cur of
           (_, Some err) \<Rightarrow> (s, cur, Some err)
         | (nxt, None) \<Rightarrow>
             (case validateRuntimeFilters nxt of
                Some err \<Rightarrow> (s, cur, Some err)
              | None \<Rightarrow> (s\<lparr>filters := nxt\<rparr>, nxt, None)))"

definition SetHistoricReport :: "historic_report option \<Rightarrow> store \<Rightarrow> store" where
  "SetHistoricReport r s = s\<lparr>historicReport := r\<rparr>"

definition ResetForHistoricRun ::
  "gotime \<Rightarrow> gotime \<Rightarrow> gotime \<Rightarrow> string \<Rightarrow> store \<Rightarrow> store \<times> string" where
  "ResetForHistoricRun now targetDateNY resolvedDateNY note s =
     (let s = s\<lparr>sessionID := show_int now\<rparr>;
          s = s\<lparr>historicTargetDateNY := targetDateNY, historicResolvedDateNY := resolvedDateNY,
                historicNote := note\<rparr>;
          s = s\<lparr>historicReport := None, tickers := [], events := [], audio := Map.empty\<rparr>
      in (s, sessionID s))"

definition TickerStates :: "map_order \<Rightarrow> store \<Rightarrow> ticker_state list" where
  "TickerStates ord s = map (\<lambda>k. the (map_of (tickers s) k)) (ord (map fst (tickers s)))"

definition Watchlist :: "store \<Rightarrow> string list" where
  "Watchlist s = watchlist s"

definition HasSymbol :: "store \<Rightarrow> string \<Rightarrow> bool" where
  "HasSymbol s symb \<longleftrightarrow> symb \<in> watchset s"

definition SetTimes :: "gotime \<Rightarrow> gotime \<Rightarrow> gotime \<Rightarrow> gotime \<Rightarrow> store \<Rightarrow> store" where
  "SetTimes openNY selNY cutoffNY exitNY s =
     s\<lparr>openTimeNY := openNY, selectionTimeNY := selNY, vwapCutoffNY := cutoffNY, forceExitNY := exitNY\<rparr>"

definition Times :: "store \<Rightarrow> gotime \<times> gotime \<times> gotime \<times> gotime" where
  "Times s = (openTimeNY s, selectionTimeNY s, vwapCutoffNY s, forceExitNY s)"

definition SetPhase :: "phase \<Rightarrow> store \<Rightarrow> store" where
  "SetPhase p s = s\<lparr>phase := p\<rparr>"

definition GetTicker :: "store \<Rightarrow> string \<Rightarrow> ticker_state option" where
  "GetTicker s symb = map_of (tickers s) symb"

definition UpsertTicker :: "string \<Rightarrow> (ticker_state \<Rightarrow> ticker_state) \<Rightarrow> store \<Rightarrow> store" where
  "UpsertTicker symb fn s =
     (let t = (case map_of (tickers s) symb of None \<Rightarrow> new_ticker symb | Some t \<Rightarrow> t)
      in s\<lparr>tickers := AList.update symb (fn t) (tickers s)\<rparr>)"

definition SetTrackedTickers :: "(string \<times> ticker_state) list \<Rightarrow> store \<Rightarrow> store" where
  "SetTrackedTickers states s = s\<lparr>tickers := states\<rparr>"

definition StoreAudio :: "string \<Rightarrow> bytes \<Rightarrow> store \<Rightarrow> store" where
  "StoreAudio audioID b s = s\<lparr>audio := (audio s)(audioID \<mapsto> b)\<rparr>"

definition GetAudio :: "store \<Rightarrow> string \<Rightarrow> bytes option" where
  "GetAudio s audioID = audio s audioID"

text \<open>
  \<open>copy(s.events, s.events[1:])\<close> moves every event one place down and leaves the last one
  doubled; the assignment then overwrites that last place.
\<close>

definition AddEvent :: "event \<Rightarrow> store \<Rightarrow> store" where
  "AddEvent ev s =
     (if MaxEvents (cfg_UI (st_cfg s)) \<le> int (length (events s))
      then let shifted = tl (events s) @ [last (events s)]
           in s\<lparr>events := shifted[length shifted - 1 := ev]\<rparr>
      else s\<lparr>events := events s @ [ev]\<rparr>)"

text \<open>
  With a capacity of zero or less the slice expression \<open>s.events[1:]\<close> is out of range on the
  first event and the code panics; \<open>Load\<close> never produces such a capacity.
\<close>

definition AddEvent_panics :: "store \<Rightarrow> bool" where
  "AddEvent_panics s \<longleftrightarrow> MaxEvents (cfg_UI (st_cfg s)) \<le> 0 \<and> events s = []"

definition fmt_stored :: "zone \<Rightarrow> gotime \<Rightarrow> string" where
  "fmt_stored z t = fmt_full (if IsZero t then fixed_zone 0 else z) t"

definition public_of :: "zone \<Rightarrow> ticker_state \<Rightarrow> public_ticker" where
  "public_of z t =
     \<lparr>pt_Symbol = Symbol t, pt_Open0930 = Open0930 t, pt_Open5mVol = Open5mVol t,
      pt_Open5mRangePct = Open5mRangePct t, pt_Prev10AvgOpen5m = Prev10AvgOpen5mVol t,
      pt_Open5mTodayPct = Open5mTodayPct t, pt_SawCrossInWindow = SawCrossInWindow t,
      pt_FirstCrossTimeNY = (if IsZero (FirstCrossTime t) then [] else fmt_hms z (FirstCrossTime t)),
      pt_FirstCrossPrice = FirstCrossPrice t, pt_VWAP = VWAP t, pt_LastPrice = LastPrice t,
      pt_MinutesAfterOpen = MinutesAfterOpen t, pt_Status = Status t, pt_EntryPrice = EntryPrice t,
      pt_TakeProfitPrice = TakeProfitPrice t, pt_StopPrice = StopPrice t\<rparr>"

definition Snapshot :: "zone \<Rightarrow> map_order \<Rightarrow> gotime \<Rightarrow> store \<Rightarrow> snapshot" where
  "Snapshot z ord nowNY s =
     \<lparr>sn_NowNY = fmt_full z nowNY, sn_Mode = mode s, sn_Phase = phase s,
      sn_WatchlistCount = int (length (watchlist s)),
      sn_OpenTimeNY = fmt_stored z (openTimeNY s),
      sn_SelectionTimeNY = fmt_stored z (selectionTimeNY s),
      sn_VwapCutoffNY = fmt_stored z (vwapCutoffNY s),
      sn_ForceExitNY = fmt_stored z (forceExitNY s),
      sn_TrackedCount = int (length (tickers s)),
      sn_Tickers = map (public_of z) (TickerStates ord s),
      sn_Filters = filters s,
      sn_Events = events s,
      sn_HistoricReport = historicReport s,
      sn_SessionID = sessionID s,
      sn_HistoricTargetDateNY =
        (if IsZero (historicTargetDateNY s) then [] else fmt_ymd z (historicTargetDateNY s)),
      sn_HistoricResolvedDateNY =
        (if IsZero (historicResolvedDateNY s) then [] else fmt_ymd z (historicResolvedDateNY s)),
      sn_HistoricNote = historicNote s,
      sn_HistoricMinDateNY = [],
      sn_HistoricMaxDateNY =
        (if mode s = ModeHistoric then fmt_ymd z (dateOnlyInLoc z nowNY) else [])\<rparr>"

section \<open>Frames\<close>

text \<open>
  The fields no method but their own setter writes: what a caller may assume unchanged. The
  view \<open>settings\<close> collects the ones that a session's run never writes.
\<close>

definition settings ::
  "store \<Rightarrow> config \<times> mode \<times> runtime_filters \<times> string list \<times> string set" where
  "settings s = (st_cfg s, mode s, filters s, watchlist s, watchset s)"

lemma UpsertTicker_frame [frame_simps]:
  "st_cfg (UpsertTicker k f s) = st_cfg s" "mode (UpsertTicker k f s) = mode s"
  "historicReport (UpsertTicker k f s) = historicReport s" "filters (UpsertTicker k f s) = filters s"
  "phase (UpsertTicker k f s) = phase s" "watchlist (UpsertTicker k f s) = watchlist s"
  "watchset (UpsertTicker k f s) = watchset s" "openTimeNY (UpsertTicker k f s) = openTimeNY s"
  "events (UpsertTicker k f s) = events s" "audio (UpsertTicker k f s) = audio s"
  "sessionID (UpsertTicker k f s) = sessionID s" "Times (UpsertTicker k f s) = Times s"
  by (simp_all add: UpsertTicker_def Let_def Times_def)

lemma AddEvent_frame [frame_simps]:
  "st_cfg (AddEvent ev s) = st_cfg s" "mode (AddEvent ev s) = mode s"
  "historicReport (AddEvent ev s) = historicReport s" "filters (AddEvent ev s) = filters s"
  "phase (AddEvent ev s) = phase s" "watchlist (AddEvent ev s) = watchlist s"
  "watchset (AddEvent ev s) = watchset s" "openTimeNY (AddEvent ev s) = openTimeNY s"
  "tickers (AddEvent ev s) = tickers s" "audio (AddEvent ev s) = audio s"
  "sessionID (AddEvent ev s) = sessionID s" "Times (AddEvent ev s) = Times s"
  by (simp_all add: AddEvent_def Let_def Times_def)

lemma StoreAudio_frame [frame_simps]:
  "st_cfg (StoreAudio k b s) = st_cfg s" "mode (StoreAudio k b s) = mode s"
  "historicReport (StoreAudio k b s) = historicReport s" "filters (StoreAudio k b s) = filters s"
  "phase (StoreAudio k b s) = phase s" "watchlist (StoreAudio k b s) = watchlist s"
  "watchset (StoreAudio k b s) = watchset s" "openTimeNY (StoreAudio k b s) = openTimeNY s"
  "tickers (StoreAudio k b s) = tickers s" "events (StoreAudio k b s) = events s"
  "sessionID (StoreAudio k b s) = sessionID s" "Times (StoreAudio k b s) = Times s"
  by (simp_all add: StoreAudio_def Times_def)

lemma SetPhase_frame [frame_simps]:
  "st_cfg (SetPhase p s) = st_cfg s" "mode (SetPhase p s) = mode s"
  "historicReport (SetPhase p s) = historicReport s" "filters (SetPhase p s) = filters s"
  "phase (SetPhase p s) = p" "watchlist (SetPhase p s) = watchlist s"
  "watchset (SetPhase p s) = watchset s" "openTimeNY (SetPhase p s) = openTimeNY s"
  "tickers (SetPhase p s) = tickers s" "events (SetPhase p s) = events s"
  "audio (SetPhase p s) = audio s" "sessionID (SetPhase p s) = sessionID s"
  "Times (SetPhase p s) = Times s"
  by (simp_all add: SetPhase_def Times_def)

lemma settings_frame [frame_simps]:
  "settings (UpsertTicker k f s) = settings s" "settings (AddEvent ev s) = settings s"
  "settings (StoreAudio i b s) = settings s" "settings (SetPhase p s) = settings s"
  "settings (SetTimes t1 t2 t3 t4 s) = settings s" "settings (SetTrackedTickers ts s) = settings s"
  "settings (SetHistoricReport r s) = settings s"
  "settings (fst (ResetForHistoricRun now tgt res note s)) = settings s"
  by (simp_all add: settings_def frame_simps SetTimes_def SetTrackedTickers_def SetHistoricReport_def
      ResetForHistoricRun_def Let_def)

lemma GetTicker_frame [frame_simps]:
  "GetTicker (AddEvent ev s) k = GetTicker s k" "GetTicker (StoreAudio i b s) k = GetTicker s k"
  "GetTicker (SetPhase p s) k = GetTicker s k"
  by (simp_all add: GetTicker_def frame_simps)

lemma Filters_frame [frame_simps]:
  "Filters (UpsertTicker k f s) = Filters s" "Filters (AddEvent ev s) = Filters s"
  "Filters (StoreAudio i b s) = Filters s" "Filters (SetPhase p s) = Filters s"
  by (simp_all add: Filters_def frame_simps)

section \<open>The ticker map is a store of keyed cells\<close>

interpretation cells: keyed_cells GetTicker UpsertTicker new_ticker
  by unfold_locales (auto simp: GetTicker_def UpsertTicker_def Let_def update_conv' split: option.splits)

definition wf_tickers :: "store \<Rightarrow> bool" where
  "wf_tickers s \<longleftrightarrow> distinct (map fst (tickers s)) \<and> (\<forall>(k, t) \<in> set (tickers s). Symbol t = k)"

lemma keys_UpsertTicker:
  "fst ` set (tickers (UpsertTicker k f s)) = insert k (fst ` set (tickers s))"
proof -
  have "dom (map_of (tickers (UpsertTicker k f s))) = insert k (dom (map_of (tickers s)))"
    by (simp add: UpsertTicker_def Let_def update_conv')
  then show ?thesis by (simp add: dom_map_of_conv_image_fst)
qed

lemma wf_tickers_Upsert:
  assumes wf: "wf_tickers s" and symb: "\<And>t. Symbol t = k \<Longrightarrow> Symbol (f t) = k"
  shows "wf_tickers (UpsertTicker k f s)"
proof -
  let ?t = "case map_of (tickers s) k of None \<Rightarrow> new_ticker k | Some t \<Rightarrow> t"
  have "Symbol ?t = k"
    using wf by (auto simp: wf_tickers_def new_ticker_def dest: map_of_SomeD split: option.splits)
  then have ft: "Symbol (f ?t) = k" by (rule symb)
  have dist: "distinct (map fst (AList.update k (f ?t) (tickers s)))"
    using wf by (simp add: wf_tickers_def distinct_update)
  have "Symbol t = k'" if "(k', t) \<in> set (AList.update k (f ?t) (tickers s))" for k' t
  proof -
    have "map_of (AList.update k (f ?t) (tickers s)) k' = Some t"
      using dist that by (rule map_of_is_SomeI)
    then have "((map_of (tickers s))(k \<mapsto> f ?t)) k' = Some t" by (simp add: update_conv')
    then show ?thesis
      using ft wf by (auto simp: wf_tickers_def dest: map_of_SomeD split: if_splits)
  qed
  with dist show ?thesis by (auto simp: wf_tickers_def UpsertTicker_def Let_def)
qed

lemma wf_tickers_frame [frame_simps]:
  "wf_tickers (AddEvent ev s) = wf_tickers s" "wf_tickers (StoreAudio i b s) = wf_tickers s"
  "wf_tickers (SetPhase p s) = wf_tickers s"
  by (simp_all add: wf_tickers_def frame_simps)

section \<open>The event list is a bounded log, the filters a guarded cell\<close>

definition event_cap :: "store \<Rightarrow> nat" where
  "event_cap s = nat (MaxEvents (cfg_UI (st_cfg s)))"

lemma events_AddEvent:
  "events (AddEvent ev s) =
     (if MaxEvents (cfg_UI (st_cfg s)) \<le> int (length (events s)) then tl (events s) @ [ev]
      else events s @ [ev])"
  by (simp add: AddEvent_def Let_def list_update_append)

interpretation event_log: bounded_log AddEvent events event_cap
  by unfold_locales (auto simp: events_AddEvent event_cap_def frame_simps)

interpretation filter_cell: guarded_cell Filters validateRuntimeFilters UpdateFilters
  by unfold_locales
    (auto simp: UpdateFilters_def Filters_def Let_def split: prod.splits option.splits)

definition wf_events :: "store \<Rightarrow> bool" where
  "wf_events s \<longleftrightarrow> 0 < event_cap s \<and> length (events s) \<le> event_cap s"

lemma wf_events_no_panic: "wf_events s \<Longrightarrow> \<not> AddEvent_panics s"
  by (auto simp: wf_events_def AddEvent_panics_def event_cap_def)

lemma wf_events_AddEvent: "wf_events s \<Longrightarrow> wf_events (AddEvent ev s)"
  using event_log.length_add [of s ev] by (simp add: wf_events_def)

lemma wf_events_frame [frame_simps]:
  "wf_events (UpsertTicker k f s) = wf_events s" "wf_events (StoreAudio i b s) = wf_events s"
  "wf_events (SetPhase p s) = wf_events s"
  by (simp_all add: wf_events_def event_cap_def frame_simps)

section \<open>Iteration over the map\<close>

lemma set_TickerStates:
  assumes "wf_tickers s" and "mset (ord (map fst (tickers s))) = mset (map fst (tickers s))"
  shows "mset (TickerStates ord s) = mset (map snd (tickers s))"
proof -
  have "mset (TickerStates ord s) = image_mset (\<lambda>k. the (map_of (tickers s) k)) (mset (map fst (tickers s)))"
    by (simp only: TickerStates_def mset_map assms(2))
  also have "\<dots> = mset (map (\<lambda>kv. the (map_of (tickers s) (fst kv))) (tickers s))"
    by (simp only: mset_map image_mset.compositionality comp_def)
  also have "map (\<lambda>kv. the (map_of (tickers s) (fst kv))) (tickers s) = map snd (tickers s)"
    using assms(1) by (intro map_cong) (auto simp: wf_tickers_def)
  finally show ?thesis .
qed

section \<open>Properties\<close>

lemma Load_None:
  assumes "Load ReadFile Unmarshal path = (c, None)"
  shows "validate c = None \<and> (\<exists>c0. c = applyDefaults c0)"
  using assms by (auto simp: Load_def Let_def split: sum.splits prod.splits option.splits)

lemma applyDefaults_capacity: "0 < MaxEvents (cfg_UI (applyDefaults c))"
  by (simp add: applyDefaults_def Let_def)

lemma wf_events_New: "0 < MaxEvents (cfg_UI c) \<Longrightarrow> wf_events (New now c wl)"
  by (simp add: wf_events_def event_cap_def New_def)

text \<open>A file and a parser on which \<open>Load\<close> succeeds, for the instances of the properties.\<close>

definition sample_yaml :: "config \<Rightarrow> config" where
  "sample_yaml c = c\<lparr>cfg_Filters := (cfg_Filters c)\<lparr>cf_Open5mRangePctMin := Fin (1 / 64),
     cf_Open5mRangePctMax := 1, cf_SoldOffFromOpenPctMin := Fin (1 / 4),
     cf_SoldOffOpen5mRangePctMin := Fin (1 / 64), cf_SoldOffOpen5mTodayPctMin := Fin 50\<rparr>\<rparr>"

definition loaded_config :: config where
  "loaded_config = applyDefaults (sample_yaml zero_config)"

lemma loaded_ok:
  "validate loaded_config = None" "Load (\<lambda>_. Inr []) (\<lambda>_ c. (sample_yaml c, None)) ''config.yaml'' = (loaded_config, None)"
  "\<not> cf_Open5mTodayPctMax (cfg_Filters loaded_config) < cf_Open5mTodayPctMin (cfg_Filters loaded_config)"
proof -
  show v: "validate loaded_config = None"
    by (simp add: validate_None_iff loaded_config_def sample_yaml_def applyDefaults_def zero_config_def
        or_pos_float_def zero_float64_def one_float64_def Let_def)
  show "Load (\<lambda>_. Inr []) (\<lambda>_ c. (sample_yaml c, None)) ''config.yaml'' = (loaded_config, None)"
    using v by (simp add: Load_def loaded_config_def Let_def)
  show "\<not> cf_Open5mTodayPctMax (cfg_Filters loaded_config) < cf_Open5mTodayPctMin (cfg_Filters loaded_config)"
    by (simp add: loaded_config_def sample_yaml_def applyDefaults_def zero_config_def Let_def)
qed

text \<open>A configuration that loads without error has a usable port, a positive event capacity, batch size,
  worker count and lookbacks, no inverted range and no sold-off threshold outside its interval, all
  in the comparisons of floating point.\<close>

theorem Load_ok:
  assumes "Load ReadFile Unmarshal path = (c, None)"
  shows "1 \<le> Port (cfg_Server c) \<and> Port (cfg_Server c) \<le> 65535
    \<and> 0 < MaxEvents (cfg_UI c) \<and> 0 < WSBatchSize (cfg_Massive c) \<and> 0 < MaxWorkers (cfg_History c)
    \<and> 0 < Open5mLookbackSessions (cfg_History c) \<and> 0 < MaxCalendarLookback (cfg_History c)
    \<and> \<not> cf_Open5mRangePctMin (cfg_Filters c) \<le> 0
    \<and> \<not> cf_Open5mRangePctMax (cfg_Filters c) < cf_Open5mRangePctMin (cfg_Filters c)
    \<and> \<not> cf_Open5mVolMax (cfg_Filters c) < cf_Open5mVolMin (cfg_Filters c)
    \<and> cf_EntryMinAfterOpen (cfg_Filters c) \<le> cf_EntryMaxAfterOpen (cfg_Filters c)
    \<and> \<not> cf_EntryPriceMax (cfg_Filters c) < cf_EntryPriceMin (cfg_Filters c)
    \<and> \<not> cf_SoldOffFromOpenPctMin (cfg_Filters c) \<le> 0 \<and> \<not> 1 \<le> cf_SoldOffFromOpenPctMin (cfg_Filters c)
    \<and> \<not> TakeProfitPct (cfg_Risk c) \<le> 0 \<and> \<not> StopLossPct (cfg_Risk c) \<le> 0
    \<and> applyDefaults c = c"
proof -
  from Load_None [OF assms] obtain c0 where v: "validate c = None" and c: "c = applyDefaults c0" by blast
  have "0 < MaxEvents (cfg_UI c) \<and> 0 < WSBatchSize (cfg_Massive c) \<and> 0 < MaxWorkers (cfg_History c)
    \<and> 0 < Open5mLookbackSessions (cfg_History c) \<and> 0 < MaxCalendarLookback (cfg_History c)
    \<and> \<not> TakeProfitPct (cfg_Risk c) \<le> 0 \<and> \<not> StopLossPct (cfg_Risk c) \<le> 0"
    unfolding c by (simp add: applyDefaults_def Let_def)
  moreover have "applyDefaults c = c" unfolding c by (rule applyDefaults_idem)
  ultimately show ?thesis using v [unfolded validate_None_iff] by simp
qed

theorem Load_ok_witness: "0 < MaxEvents (cfg_UI loaded_config) \<and> applyDefaults loaded_config = loaded_config"
  using Load_ok [OF loaded_ok(2)] by simp

text \<open>C34. The event list after any events of a run is the newest of them, at most the configured number, in
  order, for every configuration that loads; adding never panics.\<close>

theorem events_keep_newest:
  assumes "Load ReadFile Unmarshal path = (c, None)"
  shows "events (fold AddEvent evs (New now c wl)) = last_n (nat (MaxEvents (cfg_UI c))) evs
    \<and> \<not> AddEvent_panics (fold AddEvent evs (New now c wl))"
proof -
  have pos: "0 < MaxEvents (cfg_UI c)"
    using Load_None [OF assms] applyDefaults_capacity by blast
  then have wf: "wf_events (New now c wl)" by (rule wf_events_New)
  then have "wf_events (fold AddEvent evs (New now c wl))"
    by (induction evs rule: rev_induct) (simp_all add: wf_events_AddEvent)
  moreover have "events (fold AddEvent evs (New now c wl)) = last_n (nat (MaxEvents (cfg_UI c))) evs"
    using event_log.log_adds [of "New now c wl" evs] pos by (simp add: event_cap_def New_def)
  ultimately show ?thesis by (simp add: wf_events_no_panic)
qed

theorem events_keep_newest_witness:
  "\<not> AddEvent_panics (fold AddEvent
     [\<lparr>ev_ID = ''1-BUY-A'', ev_TimeNY = ''09:36:00'', ev_Type = ''BUY'', ev_Symbol = ''A'', ev_Message = ''buy A'',
       ev_AudioID = [], ev_Level = ''info''\<rparr>] (New 0 loaded_config [''A'']))"
  using events_keep_newest [OF loaded_ok(2)] by blast

lemma UpdateFilters_cases:
  "(\<exists>f. fn (Filters s) = (f, None) \<and> validateRuntimeFilters f = None
        \<and> UpdateFilters fn s = (s\<lparr>filters := f\<rparr>, f, None))
   \<or> (\<exists>err. UpdateFilters fn s = (s, Filters s, Some err)
        \<and> (snd (fn (Filters s)) = Some err \<or> validateRuntimeFilters (fst (fn (Filters s))) = Some err))"
  by (cases "fn (Filters s)")
    (auto simp: UpdateFilters_def Filters_def Let_def split: option.splits)

text \<open>Filter updates are all or nothing: an update either installs exactly the candidate, which is valid,
  and returns it, changing no other field, or returns an error with the filters in force and leaves
  the whole store unchanged.\<close>

theorem UpdateFilters_atomic:
  "(\<exists>f. fn (Filters s) = (f, None) \<and> validateRuntimeFilters f = None
        \<and> UpdateFilters fn s = (s\<lparr>filters := f\<rparr>, f, None))
   \<or> (\<exists>err. UpdateFilters fn s = (s, Filters s, Some err)
        \<and> (snd (fn (Filters s)) = Some err \<or> validateRuntimeFilters (fst (fn (Filters s))) = Some err))"
  by (rule UpdateFilters_cases)

text \<open>The filters in force are always valid: starting from a configuration that passes validation and
  whose today-percentage range is not inverted, no sequence of patches makes them invalid.\<close>

theorem filters_always_valid:
  assumes "validate c = None"
    and "\<not> cf_Open5mTodayPctMax (cfg_Filters c) < cf_Open5mTodayPctMin (cfg_Filters c)"
  shows "validateRuntimeFilters
    (Filters (fold (\<lambda>p s. fst (UpdateFilters (apply_patch p) s)) ps (New now c wl))) = None"
proof -
  have "validateRuntimeFilters (Filters (New now c wl)) = None"
    using assms by (simp add: Filters_def New_def validate_runtime_iff)
  from filter_cell.updates_keep_check [OF this, of "map apply_patch ps"] show ?thesis
    by (simp add: fold_map comp_def)
qed

theorem filters_always_valid_witness:
  "validateRuntimeFilters
    (Filters (fold (\<lambda>p s. fst (UpdateFilters (apply_patch p) s))
       [empty_patch\<lparr>p_Open5mVolMax := Some NaN\<rparr>] (New 0 loaded_config []))) = None"
  by (rule filters_always_valid [OF loaded_ok(1,3)])

text \<open>The two validators disagree: a configuration can pass \<open>validate\<close> while the runtime filters made of
  it are invalid, and then every patch that leaves the today-percentage range alone is refused.\<close>

theorem validators_disagree:
  "\<exists>c. validate c = None
     \<and> (\<forall>p. p_Open5mTodayPctMin p = None \<longrightarrow> p_Open5mTodayPctMax p = None
          \<longrightarrow> snd (snd (UpdateFilters (apply_patch p) (New 0 c wl))) \<noteq> None)"
proof -
  let ?c = "loaded_config\<lparr>cfg_Filters := (cfg_Filters loaded_config)\<lparr>cf_Open5mTodayPctMin := 1, cf_Open5mTodayPctMax := 0\<rparr>\<rparr>"
  have "validate ?c = None" using loaded_ok(1) by (simp add: validate_None_iff)
  moreover have "snd (snd (UpdateFilters (apply_patch p) (New 0 ?c wl))) \<noteq> None"
    if "p_Open5mTodayPctMin p = None" "p_Open5mTodayPctMax p = None" for p
  proof -
    have "validateRuntimeFilters (fst (apply_patch p (Filters (New 0 ?c wl)))) \<noteq> None"
      using that by (simp add: validateRuntimeFilters_None_iff apply_patch_def Filters_def New_def
          runtimeFiltersFromConfig_def Let_def zero_float64_def one_float64_def)
    then show ?thesis
      using UpdateFilters_cases [of "apply_patch p" "New 0 ?c wl"] by auto
  qed
  ultimately show ?thesis by blast
qed

theorem validators_disagree_witness:
  "\<exists>c. validate c = None \<and> snd (snd (UpdateFilters (apply_patch empty_patch) (New 0 c []))) \<noteq> None"
proof -
  have "p_Open5mTodayPctMin empty_patch = None" "p_Open5mTodayPctMax empty_patch = None"
    by (simp_all add: empty_patch_def)
  with validators_disagree [of "[]"] show ?thesis by blast
qed

text \<open>A snapshot is faithful whatever order the map is walked in: it lists the public view of every
  tracked ticker exactly once, and the events, filters, mode, phase and counts as they are.\<close>

theorem Snapshot_faithful:
  assumes "wf_tickers s" and "mset (ord (map fst (tickers s))) = mset (map fst (tickers s))"
  shows "mset (sn_Tickers (Snapshot z ord now s)) = image_mset (public_of z) (mset (map snd (tickers s)))
    \<and> sn_TrackedCount (Snapshot z ord now s) = int (length (sn_Tickers (Snapshot z ord now s)))
    \<and> sn_Events (Snapshot z ord now s) = events s \<and> sn_Filters (Snapshot z ord now s) = Filters s
    \<and> sn_Phase (Snapshot z ord now s) = phase s \<and> sn_Mode (Snapshot z ord now s) = Mode s"
proof -
  have "mset (TickerStates ord s) = mset (map snd (tickers s))" using assms by (rule set_TickerStates)
  moreover from this have "length (TickerStates ord s) = length (tickers s)"
    by (metis length_map mset_eq_length)
  ultimately show ?thesis by (simp add: Snapshot_def Filters_def Mode_def)
qed

theorem Snapshot_faithful_witness:
  "\<exists>s. mset (sn_Tickers (Snapshot (fixed_zone 0) rev 0 s)) =
     {#public_of (fixed_zone 0) (new_ticker ''A''), public_of (fixed_zone 0) (new_ticker ''B'')#}"
proof -
  let ?s = "(New 0 zero_config [])\<lparr>tickers := [(''A'', new_ticker ''A''), (''B'', new_ticker ''B'')]\<rparr>"
  have "wf_tickers ?s" by (simp add: wf_tickers_def new_ticker_def)
  from Snapshot_faithful [OF this, of rev "fixed_zone 0" 0] show ?thesis
    by (intro exI [of _ ?s]) simp
qed

end
