(* ===== verification/Symbols.thy ===== *)
theory Symbols
  imports Prelude
begin

text \<open>
  Ticker symbols: the string functions of the standard library the program normalises them with,
  the watchlist loader (\<open>internal/watchlist/watchlist.go\<close>) and the NATO spelling of a symbol
  (\<open>internal/nato/nato.go\<close>).

  \<open>strings.TrimSpace\<close> and \<open>strings.ToUpper\<close> treat ASCII strings directly and fall back to the
  Unicode tables of the standard library at the first non-ASCII byte; the fallbacks are the
  fields of \<open>unicode\<close>, a parameter. Reading and parsing the watchlist file are parameters of
  \<open>Load\<close>.

  The lemmas show that the loaded list is the list of normalised symbols without blanks and
  without later duplicates, and that the spelling is computed symbol by symbol.
\<close>

section \<open>Strings\<close>

record unicode =
  uni_ToUpper :: "string \<Rightarrow> string"
  uni_TrimFunc :: "string \<Rightarrow> string"
  uni_TrimRightFunc :: "string \<Rightarrow> string"

definition ascii :: "char \<Rightarrow> bool" where
  "ascii c \<longleftrightarrow> of_char c < (128 :: nat)"

definition ascii_space :: "char \<Rightarrow> bool" where
  "ascii_space c \<longleftrightarrow> of_char c \<in> {9, 10, 11, 12, 13, 32 :: nat}"

definition ascii_lower :: "char \<Rightarrow> bool" where
  "ascii_lower c \<longleftrightarrow> 97 \<le> (of_char c :: nat) \<and> (of_char c :: nat) \<le> 122"

definition upper_char :: "char \<Rightarrow> char" where
  "upper_char c = (if ascii_lower c then char_of (of_char c - 32 :: nat) else c)"

text \<open>The right end is trimmed on the reversed string, so that the last byte is the head.\<close>

definition TrimSpace :: "unicode \<Rightarrow> string \<Rightarrow> string" where
  "TrimSpace u s =
     (let s1 = dropWhile ascii_space s
      in if s1 \<noteq> [] \<and> \<not> ascii (hd s1) then uni_TrimFunc u s1
         else let r = dropWhile ascii_space (rev s1)
              in if r \<noteq> [] \<and> \<not> ascii (hd r) then uni_TrimRightFunc u (rev r) else rev r)"

definition ToUpper :: "unicode \<Rightarrow> string \<Rightarrow> string" where
  "ToUpper u s = (if list_all ascii s then map upper_char s else uni_ToUpper u s)"

section \<open>The watchlist\<close>

definition normalize :: "unicode \<Rightarrow> string \<Rightarrow> string" where
  "normalize u s = ToUpper u (TrimSpace u s)"

fun load_loop :: "unicode \<Rightarrow> string list \<Rightarrow> string set \<Rightarrow> string list \<Rightarrow> string list" where
  "load_loop u [] seen out = out"
| "load_loop u (it # its) seen out =
     (let s = normalize u it
      in if s = [] then load_loop u its seen out
         else if s \<in> seen then load_loop u its seen out
         else load_loop u its (insert s seen) (out @ [s]))"

definition Load_watchlist ::
  "unicode \<Rightarrow> (string \<Rightarrow> string + string) \<Rightarrow> (string \<Rightarrow> string + string list) \<Rightarrow> string
     \<Rightarrow> string + string list" where
  "Load_watchlist u ReadFile Unmarshal path =
     (case ReadFile path of
        Inl err \<Rightarrow> Inl err
      | Inr b \<Rightarrow>
          (case Unmarshal b of
             Inl err \<Rightarrow> Inl err
           | Inr wl \<Rightarrow> Inr (load_loop u wl {} [])))"

section \<open>NATO spelling\<close>

definition nato_words :: "(char \<times> string) list" where
  "nato_words =
     [(CHR ''A'', ''alpha''), (CHR ''B'', ''bravo''), (CHR ''C'', ''charlie''), (CHR ''D'', ''delta''),
      (CHR ''E'', ''echo''), (CHR ''F'', ''foxtrot''), (CHR ''G'', ''golf''), (CHR ''H'', ''hotel''),
      (CHR ''I'', ''india''), (CHR ''J'', ''juliett''), (CHR ''K'', ''kilo''), (CHR ''L'', ''lima''),
      (CHR ''M'', ''mike''), (CHR ''N'', ''november''), (CHR ''O'', ''oscar''), (CHR ''P'', ''papa''),
      (CHR ''Q'', ''quebec''), (CHR ''R'', ''romeo''), (CHR ''S'', ''sierra''), (CHR ''T'', ''tango''),
      (CHR ''U'', ''uniform''), (CHR ''V'', ''victor''), (CHR ''W'', ''whiskey''), (CHR ''X'', ''x-ray''),
      (CHR ''Y'', ''yankee''), (CHR ''Z'', ''zulu''), (CHR ''0'', ''zero''), (CHR ''1'', ''one''),
      (CHR ''2'', ''two''), (CHR ''3'', ''three''), (CHR ''4'', ''four''), (CHR ''5'', ''five''),
      (CHR ''6'', ''six''), (CHR ''7'', ''seven''), (CHR ''8'', ''eight''), (CHR ''9'', ''nine'')]"

text \<open>
  The code ranges over the runes of the string. A rune of the table is one ASCII byte, and no
  byte of a longer UTF-8 sequence (or of an invalid one) is ASCII, so the bytes give the same
  parts.
\<close>

fun nato_parts :: "string \<Rightarrow> string list" where
  "nato_parts [] = []"
| "nato_parts (r # rs) =
     (case map_of nato_words r of Some w \<Rightarrow> w # nato_parts rs | None \<Rightarrow> nato_parts rs)"

fun join :: "string \<Rightarrow> string list \<Rightarrow> string" where
  "join sep [] = []"
| "join sep [x] = x"
| "join sep (x # xs) = x @ sep @ join sep xs"

definition SpellNATO :: "unicode \<Rightarrow> string \<Rightarrow> string" where
  "SpellNATO u ticker = join '', '' (nato_parts (ToUpper u (TrimSpace u ticker)))"

section \<open>Lemmas\<close>

text \<open>The first occurrences of a list, in order.\<close>

definition firsts :: "'a list \<Rightarrow> 'a list" where
  "firsts xs = rev (remdups (rev xs))"

lemma firsts_simps [simp]: "firsts [] = []"
  "firsts (xs @ [x]) = (if x \<in> set xs then firsts xs else firsts xs @ [x])"
  by (simp_all add: firsts_def)

lemma set_firsts [simp]: "set (firsts xs) = set xs" and distinct_firsts [simp]: "distinct (firsts xs)"
  by (simp_all add: firsts_def)

lemma load_loop_firsts:
  "load_loop u its (set xs) (firsts xs)
     = firsts (xs @ filter (\<lambda>s. s \<noteq> []) (map (normalize u) its))"
proof (induction its arbitrary: xs)
  case Nil
  then show ?case by simp
next
  case (Cons it its)
  let ?s = "normalize u it"
  show ?case
  proof (cases "?s = [] \<or> ?s \<in> set xs")
    case True
    have "firsts (xs @ ?s # ys) = firsts (xs @ ys)" if "?s \<in> set xs" for ys
      using that by (induction ys rule: rev_induct) (auto simp flip: append_Cons append_assoc)
    with True Cons.IH [of xs] show ?thesis by auto
  next
    case False
    with Cons.IH [of "xs @ [?s]"] show ?thesis by (simp add: Let_def)
  qed
qed

lemma length_nato_parts: "length (nato_parts s) = length (filter (\<lambda>c. map_of nato_words c \<noteq> None) s)"
  by (induction s) (auto split: option.splits)

lemma nato_parts_append: "nato_parts (s @ t) = nato_parts s @ nato_parts t"
  by (induction s) (auto split: option.splits)

lemma nato_words_distinct: "distinct (map snd nato_words)"
  by code_simp

lemma nato_words_inj: "map_of nato_words a = Some w \<Longrightarrow> map_of nato_words b = Some w \<Longrightarrow> a = b"
proof -
  assume "map_of nato_words a = Some w" "map_of nato_words b = Some w"
  then have "(a, w) \<in> set nato_words" "(b, w) \<in> set nato_words" by (auto dest: map_of_SomeD)
  moreover have "inj_on snd (set nato_words)"
    using nato_words_distinct by (simp only: distinct_map)
  ultimately show "a = b" using inj_onD [of snd "set nato_words" "(a, w)" "(b, w)"] by simp
qed

section \<open>Properties\<close>

text \<open>C35. Loading a watchlist: a file that can be read and parsed gives the normalised symbols in the order of
  their first occurrence, none empty and none twice; an error of reading or parsing is returned.\<close>

theorem Load_watchlist_spec:
  "Load_watchlist u ReadFile Unmarshal path =
     (case ReadFile path of
        Inl err \<Rightarrow> Inl err
      | Inr b \<Rightarrow>
          (case Unmarshal b of
             Inl err \<Rightarrow> Inl err
           | Inr wl \<Rightarrow> Inr (firsts (filter (\<lambda>s. s \<noteq> []) (map (normalize u) wl)))))
   \<and> distinct (firsts (filter (\<lambda>s. s \<noteq> []) (map (normalize u) wl)))
   \<and> set (firsts (filter (\<lambda>s. s \<noteq> []) (map (normalize u) wl))) = normalize u ` set wl - {[]}"
  using load_loop_firsts [of u _ "[]"] by (auto simp: Load_watchlist_def split: sum.splits)

text \<open>The words are told apart by the separator: none contains a comma.\<close>

lemma nato_no_comma: "map_of nato_words c = Some w \<Longrightarrow> CHR '','' \<notin> set w \<and> w \<noteq> []"
proof -
  assume "map_of nato_words c = Some w"
  then have "(c, w) \<in> set nato_words" by (rule map_of_SomeD)
  moreover have "\<forall>(c, w) \<in> set nato_words. CHR '','' \<notin> set w \<and> w \<noteq> []" by code_simp
  ultimately show ?thesis by auto
qed

lemma parts_no_comma: "w \<in> set (nato_parts s) \<Longrightarrow> CHR '','' \<notin> set w \<and> w \<noteq> []"
  by (induction s) (auto split: option.splits dest: nato_no_comma)

lemma comma_split:
  assumes "CHR '','' \<notin> set x" "CHR '','' \<notin> set y" "x @ r = y @ r'"
    and "r = [] \<or> hd r = CHR '',''" "r' = [] \<or> hd r' = CHR '',''"
  shows "x = y \<and> r = r'"
proof -
  have tw: "takeWhile (\<lambda>c. c \<noteq> CHR '','') (v @ q) = v"
    if "CHR '','' \<notin> set v" "q = [] \<or> hd q = CHR '',''" for v q
    using that by (induction v) (auto simp: takeWhile_eq_Nil_iff)
  show ?thesis
    using tw [OF assms(1,4)] tw [OF assms(2,5)] assms(3) by simp
qed

lemma join_Cons: "join sep (x # xs) = x @ (if xs = [] then [] else sep @ join sep xs)"
  by (cases xs) simp_all

lemma join_inj:
  assumes "\<forall>w \<in> set xs. CHR '','' \<notin> set w \<and> w \<noteq> []" "\<forall>w \<in> set ys. CHR '','' \<notin> set w \<and> w \<noteq> []"
    and "join '', '' xs = join '', '' ys"
  shows "xs = ys"
  using assms
proof (induction xs arbitrary: ys)
  case Nil
  then show ?case by (cases ys) (auto simp: join_Cons)
next
  case (Cons x xs)
  then obtain y ys' where ys: "ys = y # ys'" by (cases ys) (auto simp: join_Cons)
  let ?r = "\<lambda>zs. if zs = [] then [] else '', '' @ join '', '' zs"
  have "x = y \<and> ?r xs = ?r ys'"
    using Cons.prems unfolding ys join_Cons by (intro comma_split) auto
  then have "x = y" "xs = [] \<longleftrightarrow> ys' = []" "join '', '' xs = join '', '' ys'"
    by (auto split: if_splits)
  with Cons.IH [of ys'] Cons.prems ys show ?case by auto
qed

lemma nato_parts_inj:
  assumes "\<forall>c \<in> set a. map_of nato_words c \<noteq> None" "\<forall>c \<in> set b. map_of nato_words c \<noteq> None"
    and "nato_parts a = nato_parts b"
  shows "a = b"
proof -
  have parts: "nato_parts s = map (\<lambda>c. the (map_of nato_words c)) s" if "\<forall>c \<in> set s. map_of nato_words c \<noteq> None" for s
    using that by (induction s) auto
  have "inj_on (\<lambda>c. the (map_of nato_words c)) (set a \<union> set b)"
  proof (rule inj_onI)
    fix c d assume "c \<in> set a \<union> set b" "d \<in> set a \<union> set b"
      and eq: "the (map_of nato_words c) = the (map_of nato_words d)"
    then obtain v w where "map_of nato_words c = Some v" "map_of nato_words d = Some w"
      using assms(1,2) by blast
    with eq show "c = d" by (auto intro: nato_words_inj)
  qed
  with assms parts show ?thesis by (simp add: inj_on_map_eq_map)
qed

text \<open>The spelling alphabet and the numerals, in order, and the word for a letter or digit.\<close>

definition spelling_alphabet :: "string list" where
  "spelling_alphabet =
     [''alpha'', ''bravo'', ''charlie'', ''delta'', ''echo'', ''foxtrot'', ''golf'', ''hotel'', ''india'', ''juliett'', ''kilo'',
      ''lima'', ''mike'', ''november'', ''oscar'', ''papa'', ''quebec'', ''romeo'', ''sierra'', ''tango'', ''uniform'', ''victor'',
      ''whiskey'', ''x-ray'', ''yankee'', ''zulu'']"

definition numerals :: "string list" where
  "numerals = [''zero'', ''one'', ''two'', ''three'', ''four'', ''five'', ''six'', ''seven'', ''eight'', ''nine'']"

definition capitals :: string where "capitals = ''ABCDEFGHIJKLMNOPQRSTUVWXYZ''"
definition decimals :: string where "decimals = ''0123456789''"

definition spellable :: "char \<Rightarrow> bool" where
  "spellable c \<longleftrightarrow> c \<in> set (capitals @ decimals)"

definition spoken :: "char \<Rightarrow> string" where
  "spoken c = the (map_of (zip (capitals @ decimals) (spelling_alphabet @ numerals)) c)"

lemma spoken_in_order: "map spoken (capitals @ decimals) = spelling_alphabet @ numerals"
proof -
  have len: "length (capitals @ decimals) = length (spelling_alphabet @ numerals)" and dist: "distinct (capitals @ decimals)"
    by (simp_all add: capitals_def decimals_def spelling_alphabet_def numerals_def)
  have "spoken ((capitals @ decimals) ! i) = (spelling_alphabet @ numerals) ! i" if "i < length (spelling_alphabet @ numerals)" for i
    unfolding spoken_def map_of_zip_nth [OF len dist that] by simp
  then show ?thesis using len by (intro nth_equalityI) (simp_all only: length_map nth_map)
qed

lemma nato_words_spoken: "map_of nato_words c = (if spellable c then Some (spoken c) else None)"
proof -
  have words: "nato_words = zip (capitals @ decimals) (spelling_alphabet @ numerals)"
    by (simp add: nato_words_def capitals_def decimals_def spelling_alphabet_def numerals_def)
  have len: "length (capitals @ decimals) = length (spelling_alphabet @ numerals)"
    by (simp add: capitals_def decimals_def spelling_alphabet_def numerals_def)
  show ?thesis
  proof (cases "spellable c")
    case True
    then have "map_of nato_words c \<noteq> None" using len by (simp add: spellable_def words map_of_zip_is_None)
    with True show ?thesis by (auto simp: spoken_def words)
  next
    case False
    then show ?thesis using len by (simp add: spellable_def words map_of_zip_is_None)
  qed
qed

lemma nato_parts_spoken: "nato_parts s = map spoken (filter spellable s)"
  by (induction s) (simp_all add: nato_words_spoken)

lemma spoken_initials: "map (hd \<circ> spoken) capitals = ''abcdefghijklmnopqrstuvwxyz''"
proof -
  have "map spoken capitals = spelling_alphabet"
    using spoken_in_order by (simp add: append_eq_append_conv capitals_def decimals_def spelling_alphabet_def numerals_def)
  then have "map (hd \<circ> spoken) capitals = map hd spelling_alphabet" by (metis map_map)
  then show ?thesis by (simp add: spelling_alphabet_def)
qed

text \<open>C36. NATO spelling: the spoken form is the words of the letters and digits of the normalised symbol, one for each
  and in its order, separated by commas, and nothing for any other character; a letter's word is the one of the
  spelling alphabet, which begins with it. So two symbols that normalise to letters and digits and sound alike
  normalise to the same symbol.\<close>

theorem SpellNATO_unambiguous:
  assumes "list_all spellable (normalize u a)" and "list_all spellable (normalize u b)"
  shows "SpellNATO u c = join '', '' (map spoken (filter spellable (normalize u c)))
    \<and> map (hd \<circ> spoken) capitals = ''abcdefghijklmnopqrstuvwxyz''
    \<and> (SpellNATO u a = SpellNATO u b \<longleftrightarrow> normalize u a = normalize u b)"
proof (intro conjI)
  show "SpellNATO u c = join '', '' (map spoken (filter spellable (normalize u c)))"
    by (simp add: SpellNATO_def normalize_def nato_parts_spoken)
  show "SpellNATO u a = SpellNATO u b \<longleftrightarrow> normalize u a = normalize u b"
  proof
    assume "SpellNATO u a = SpellNATO u b"
    then have "nato_parts (normalize u a) = nato_parts (normalize u b)"
      by (intro join_inj) (auto simp: SpellNATO_def normalize_def dest: parts_no_comma)
    then show "normalize u a = normalize u b"
      using assms by (intro nato_parts_inj) (auto simp: list_all_iff nato_words_spoken)
  qed (simp add: SpellNATO_def normalize_def)
qed (rule spoken_initials)

theorem SpellNATO_unambiguous_witness:
  "SpellNATO \<lparr>uni_ToUpper = id, uni_TrimFunc = id, uni_TrimRightFunc = id\<rparr> '' b-1 '' = ''bravo, one''
   \<and> SpellNATO \<lparr>uni_ToUpper = id, uni_TrimFunc = id, uni_TrimRightFunc = id\<rparr> ''ab1''
     \<noteq> SpellNATO \<lparr>uni_ToUpper = id, uni_TrimFunc = id, uni_TrimRightFunc = id\<rparr> ''ba1''"
proof -
  let ?u = "\<lparr>uni_ToUpper = id, uni_TrimFunc = id, uni_TrimRightFunc = id\<rparr>"
  have n: "normalize ?u ''ab1'' = ''AB1''" "normalize ?u ''ba1'' = ''BA1''" "normalize ?u '' b-1 '' = ''B-1''"
    and ok: "list_all spellable ''AB1''" "list_all spellable ''BA1''"
    and out: "join '', '' (map spoken (filter spellable ''B-1'')) = ''bravo, one''" by code_simp+
  from SpellNATO_unambiguous [of ?u "''ab1''" "''ba1''" "'' b-1 ''", unfolded n, OF ok] out show ?thesis by simp
qed

end
