(* ===== verification/Utf8.thy ===== *)
theory Utf8
  imports Prelude
begin

text \<open>
  Text as bytes: well-formed UTF-8 and the string literals of JSON, as \<open>unicode/utf8\<close> and \<open>encoding/json\<close> of the
  standard library read and write them.

  \<open>utf8_len\<close> is the length of the well-formed sequence a string starts with, 0 if there is none. \<open>quote_body\<close> is
  what the encoder writes between the quotes: control characters, quotes, backslashes and the three characters
  HTML gives a meaning are escaped, so are the two Unicode line separators, and a byte that starts no
  well-formed sequence becomes the escaped replacement character. \<open>unquote\<close> is what the decoder makes of the
  raw text between the quotes.

  The lemmas show that decoding what was encoded gives the string with its ill-formed bytes replaced
  (the string itself where it is UTF-8), and that the encoder writes no control character and no
  unescaped quote.
\<close>

section \<open>UTF-8\<close>

abbreviation byte :: "char \<Rightarrow> nat" where "byte c \<equiv> of_char c"

definition cont :: "char \<Rightarrow> bool" where
  "cont c \<longleftrightarrow> 128 \<le> byte c \<and> byte c \<le> 191"

text \<open>The second byte of a longer sequence, after a first byte.\<close>

definition second_ok :: "nat \<Rightarrow> char \<Rightarrow> bool" where
  "second_ok b c \<longleftrightarrow>
     (if b = 224 then 160 else if b = 240 then 144 else 128) \<le> byte c
     \<and> byte c \<le> (if b = 237 then 159 else if b = 244 then 143 else 191)"

definition utf8_len :: "string \<Rightarrow> nat" where
  "utf8_len s =
     (case s of
        [] \<Rightarrow> 0
      | a # r \<Rightarrow>
          if byte a < 128 then 1
          else if 194 \<le> byte a \<and> byte a \<le> 223 then (if 1 \<le> length r \<and> cont (r ! 0) then 2 else 0)
          else if 224 \<le> byte a \<and> byte a \<le> 239
          then (if 2 \<le> length r \<and> second_ok (byte a) (r ! 0) \<and> cont (r ! 1) then 3 else 0)
          else if 240 \<le> byte a \<and> byte a \<le> 244
          then (if 3 \<le> length r \<and> second_ok (byte a) (r ! 0) \<and> cont (r ! 1) \<and> cont (r ! 2) then 4 else 0)
          else 0)"

definition replacement :: string where
  "replacement = map char_of [239, 191, 189 :: nat]"

fun to_utf8 :: "string \<Rightarrow> string" where
  "to_utf8 [] = []"
| "to_utf8 (a # r) =
     (case utf8_len (a # r) of
        0 \<Rightarrow> replacement @ to_utf8 r
      | Suc n \<Rightarrow> a # take n r @ to_utf8 (drop n r))"

fun is_utf8 :: "string \<Rightarrow> bool" where
  "is_utf8 [] \<longleftrightarrow> True"
| "is_utf8 (a # r) \<longleftrightarrow> (case utf8_len (a # r) of 0 \<Rightarrow> False | Suc n \<Rightarrow> is_utf8 (drop n r))"

definition utf8_enc :: "nat \<Rightarrow> string" where
  "utf8_enc x =
     (if x < 128 then [char_of x]
      else if x < 2048 then [char_of (192 + x div 64), char_of (128 + x mod 64)]
      else if x < 65536
      then [char_of (224 + x div 4096), char_of (128 + x div 64 mod 64), char_of (128 + x mod 64)]
      else [char_of (240 + x div 262144), char_of (128 + x div 4096 mod 64), char_of (128 + x div 64 mod 64),
            char_of (128 + x mod 64)])"

section \<open>The encoder's side\<close>

definition hex_digit :: "nat \<Rightarrow> char" where
  "hex_digit k = (if k < 10 then char_of (48 + k) else char_of (87 + k))"

definition quotation :: char where "quotation = CHR 0x22"
definition backslash :: char where "backslash = CHR 0x5C"

definition escaped :: "char \<Rightarrow> string" where
  "escaped a =
     (if a = quotation \<or> a = backslash then [backslash, a]
      else if byte a = 8 then [backslash, CHR ''b'']
      else if byte a = 9 then [backslash, CHR ''t'']
      else if byte a = 10 then [backslash, CHR ''n'']
      else if byte a = 12 then [backslash, CHR ''f'']
      else if byte a = 13 then [backslash, CHR ''r'']
      else if byte a < 32 \<or> a \<in> {CHR ''<'', CHR ''>'', CHR ''&''}
      then backslash # ''u00'' @ [hex_digit (byte a div 16), hex_digit (byte a mod 16)]
      else [a])"

text \<open>The line separators U+2028 and U+2029 are the sequences 226, 128, 168 and 226, 128, 169.\<close>

definition line_separator :: "string \<Rightarrow> bool" where
  "line_separator w \<longleftrightarrow> w \<in> {map char_of [226, 128, 168 :: nat], map char_of [226, 128, 169 :: nat]}"

fun quote_body :: "string \<Rightarrow> string" where
  "quote_body [] = []"
| "quote_body (a # r) =
     (if byte a < 128 then escaped a @ quote_body r
      else (case utf8_len (a # r) of
              0 \<Rightarrow> backslash # ''ufffd'' @ quote_body r
            | Suc n \<Rightarrow>
                (if line_separator (a # take n r) then backslash # ''u202'' @ [hex_digit (byte (last (a # take n r)) mod 16)]
                 else a # take n r) @ quote_body (drop n r)))"

definition quote :: "string \<Rightarrow> string" where
  "quote s = quotation # quote_body s @ [quotation]"

section \<open>The decoder's side\<close>

definition hex_value :: "char \<Rightarrow> nat option" where
  "hex_value c =
     (if 48 \<le> byte c \<and> byte c \<le> 57 then Some (byte c - 48)
      else if 97 \<le> byte c \<and> byte c \<le> 102 then Some (byte c - 87)
      else if 65 \<le> byte c \<and> byte c \<le> 70 then Some (byte c - 55)
      else None)"

fun hex4 :: "string \<Rightarrow> nat option" where
  "hex4 (a # b # c # d # r) =
     (case (hex_value a, hex_value b, hex_value c, hex_value d) of
        (Some w, Some x, Some y, Some z) \<Rightarrow> Some (((w * 16 + x) * 16 + y) * 16 + z)
      | _ \<Rightarrow> None)"
| "hex4 _ = None"

definition is_high :: "nat \<Rightarrow> bool" where "is_high x \<longleftrightarrow> 55296 \<le> x \<and> x < 56320"
definition is_low :: "nat \<Rightarrow> bool" where "is_low x \<longleftrightarrow> 56320 \<le> x \<and> x < 57344"

text \<open>The second half of a surrogate pair, which must follow as an escape of its own.\<close>

definition low_half :: "string \<Rightarrow> nat option" where
  "low_half s =
     (case s of
        a # b # r \<Rightarrow>
          if a = backslash \<and> b = CHR ''u''
          then (case hex4 r of Some y \<Rightarrow> if is_low y then Some y else None | None \<Rightarrow> None)
          else None
      | _ \<Rightarrow> None)"

definition unescaped :: "char \<Rightarrow> char" where
  "unescaped c =
     (if c = CHR ''b'' then char_of (8 :: nat) else if c = CHR ''t'' then char_of (9 :: nat)
      else if c = CHR ''n'' then char_of (10 :: nat) else if c = CHR ''f'' then char_of (12 :: nat)
      else if c = CHR ''r'' then char_of (13 :: nat) else c)"

text \<open>
  The raw text has passed the scanner: a backslash is followed by one of the letters above, a quote, a
  slash or a backslash, or by the letter u and four hexadecimal digits.
\<close>

function unquote :: "string \<Rightarrow> string" where
  "unquote s =
     (case s of
        [] \<Rightarrow> []
      | a # r \<Rightarrow>
          if a = backslash then
            (case r of
               [] \<Rightarrow> []
             | e # r \<Rightarrow>
                 if e = CHR ''u'' then
                   (case hex4 r of
                      None \<Rightarrow> []
                    | Some x \<Rightarrow>
                        if is_high x \<or> is_low x then
                          (case if is_high x then low_half (drop 4 r) else None of
                             Some y \<Rightarrow> utf8_enc (65536 + (x - 55296) * 1024 + (y - 56320)) @ unquote (drop 10 r)
                           | None \<Rightarrow> replacement @ unquote (drop 4 r))
                        else utf8_enc x @ unquote (drop 4 r))
                 else unescaped e # unquote r)
          else (case utf8_len s of
                  0 \<Rightarrow> replacement @ unquote r
                | Suc n \<Rightarrow> a # take n r @ unquote (drop n r)))"
  by auto
termination by (relation "measure length") auto

declare unquote.simps [simp del]

section \<open>Well-formed sequences\<close>

lemma utf8_len_Nil [simp]: "utf8_len [] = 0"
  by (simp add: utf8_len_def)

lemma utf8_len_ascii: "byte a < 128 \<Longrightarrow> utf8_len (a # r) = 1"
  by (simp add: utf8_len_def)

text \<open>A sequence is recognised by its own bytes, whatever follows, and lies within the string.\<close>

text \<open>The tail of a sequence of \<open>n + 1\<close> bytes, given the first.\<close>

definition tail_ok :: "nat \<Rightarrow> nat \<Rightarrow> string \<Rightarrow> bool" where
  "tail_ok b n r \<longleftrightarrow>
     n \<le> length r \<and> (\<forall>i < n. if i = 0 \<and> 224 \<le> b then second_ok b (r ! i) else cont (r ! i))"

definition tail_len :: "nat \<Rightarrow> nat option" where
  "tail_len b =
     (if b < 128 then Some 0 else if 194 \<le> b \<and> b \<le> 223 then Some 1 else if 224 \<le> b \<and> b \<le> 239 then Some 2
      else if 240 \<le> b \<and> b \<le> 244 then Some 3 else None)"

lemma utf8_len_iff: "utf8_len (a # r) = Suc n \<longleftrightarrow> tail_len (byte a) = Some n \<and> tail_ok (byte a) n r"
proof -
  have "(\<forall>i < 2. P i) \<longleftrightarrow> P 0 \<and> P 1" "(\<forall>i < 3. P i) \<longleftrightarrow> P 0 \<and> P 1 \<and> P 2" for P :: "nat \<Rightarrow> bool"
    by (auto simp: numeral_2_eq_2 numeral_3_eq_3 less_Suc_eq)
  note less = this
  consider "byte a < 128" | "128 \<le> byte a" "byte a < 194" | "194 \<le> byte a" "byte a \<le> 223"
    | "224 \<le> byte a" "byte a \<le> 239" | "240 \<le> byte a" "byte a \<le> 244" | "244 < byte a" by linarith
  then show ?thesis
    by cases (simp_all add: utf8_len_def tail_len_def tail_ok_def less eq_commute [of _ n] cong: conj_cong)
qed

lemma utf8_len_take:
  assumes "utf8_len (a # r) = Suc n"
  shows "utf8_len (a # take n r @ t) = Suc n" and "n \<le> length r"
  using assms by (simp_all add: utf8_len_iff tail_ok_def nth_append)

lemma utf8_len_bytes:
  assumes "utf8_len (a # r) = Suc n" and "\<not> byte a < 128"
  shows "\<forall>c \<in> set (a # take n r). 128 \<le> byte c"
proof -
  have "cont c \<Longrightarrow> 128 \<le> byte c" "second_ok b c \<Longrightarrow> 128 \<le> byte c" for b c
    by (auto simp: cont_def second_ok_def split: if_splits)
  moreover have "\<forall>i < n. cont (r ! i) \<or> second_ok (byte a) (r ! i)" "n \<le> length r"
    using assms(1) by (auto simp: utf8_len_iff tail_ok_def split: if_splits)
  ultimately show ?thesis using assms(2) by (fastforce simp: in_set_conv_nth)
qed

lemma to_utf8_is_utf8: "is_utf8 s \<Longrightarrow> to_utf8 s = s"
  by (induction s rule: is_utf8.induct) (auto split: nat.splits)

lemma is_utf8_ascii: "list_all (\<lambda>c. byte c < 128) s \<Longrightarrow> is_utf8 s"
  by (induction s) (auto simp: utf8_len_ascii)

lemma to_utf8_ascii: "list_all (\<lambda>c. byte c < 128) s \<Longrightarrow> to_utf8 s = s"
  by (rule to_utf8_is_utf8 [OF is_utf8_ascii])

section \<open>Decoding what was encoded\<close>

lemma quote_chars [simp]:
  "byte quotation = 34" "byte backslash = 92" "quotation \<noteq> backslash" "backslash \<noteq> quotation"
  by (simp_all add: quotation_def backslash_def)

lemma unquote_Nil [simp]: "unquote [] = []"
  by (simp add: unquote.simps)

lemma unquote_plain: "utf8_len (a # r) = Suc n \<Longrightarrow> a \<noteq> backslash \<Longrightarrow> unquote (a # r) = a # take n r @ unquote (drop n r)"
  by (subst unquote.simps) simp

lemma unquote_letter: "e \<noteq> CHR ''u'' \<Longrightarrow> unquote (backslash # e # r) = unescaped e # unquote r"
  by (subst unquote.simps) simp

lemma unquote_hex:
  assumes "hex4 [w, x, y, z] = Some v" and "\<not> is_high v" and "\<not> is_low v"
  shows "unquote (backslash # CHR ''u'' # w # x # y # z # t) = utf8_enc v @ unquote t"
  using assms by (subst unquote.simps) simp

lemma hex_value_digit [simp]: "k < 16 \<Longrightarrow> hex_value (hex_digit k) = Some k"
  by (auto simp: hex_value_def hex_digit_def)

lemma byte_eqD: "byte a = k \<Longrightarrow> a = char_of k"
  by (metis char_of_char)

lemma escaped_cases:
  "(a = quotation \<or> a = backslash) \<or> byte a \<in> {8, 9, 10, 12, 13}
   \<or> escaped a = backslash # ''u00'' @ [hex_digit (byte a div 16), hex_digit (byte a mod 16)]
   \<or> escaped a = [a] \<and> a \<noteq> backslash \<and> a \<noteq> quotation \<and> 32 \<le> byte a"
  by (simp add: escaped_def)

lemma escaped_letters:
  "escaped (char_of (8 :: nat)) = [backslash, CHR ''b'']" "unescaped CHR ''b'' = char_of (8 :: nat)"
  "escaped (char_of (9 :: nat)) = [backslash, CHR ''t'']" "unescaped CHR ''t'' = char_of (9 :: nat)"
  "escaped (char_of (10 :: nat)) = [backslash, CHR ''n'']" "unescaped CHR ''n'' = char_of (10 :: nat)"
  "escaped (char_of (12 :: nat)) = [backslash, CHR ''f'']" "unescaped CHR ''f'' = char_of (12 :: nat)"
  "escaped (char_of (13 :: nat)) = [backslash, CHR ''r'']" "unescaped CHR ''r'' = char_of (13 :: nat)"
  by (code_simp)+

lemma unquote_escaped:
  assumes "byte a < 128"
  shows "unquote (escaped a @ t) = a # unquote t"
proof -
  have hexed: "unquote (backslash # ''u00'' @ [hex_digit (byte a div 16), hex_digit (byte a mod 16)] @ t) = a # unquote t"
  proof -
    have "hex_value (CHR ''0'') = Some 0" by (simp add: hex_value_def)
    moreover have "byte a div 16 * 16 + byte a mod 16 = byte a" by simp
    ultimately have "hex4 [CHR ''0'', CHR ''0'', hex_digit (byte a div 16), hex_digit (byte a mod 16)] = Some (byte a)"
      using assms by simp
    from unquote_hex [OF this, of t] assms show ?thesis by (simp add: is_high_def is_low_def utf8_enc_def)
  qed
  from escaped_cases [of a] consider (quote) "a = quotation \<or> a = backslash" | (letter) "byte a \<in> {8, 9, 10, 12, 13}"
    | (hex) "escaped a = backslash # ''u00'' @ [hex_digit (byte a div 16), hex_digit (byte a mod 16)]"
    | (plain) "escaped a = [a]" "a \<noteq> backslash"
    by blast
  then show ?thesis
  proof cases
    case quote
    have "unescaped quotation = quotation" "unescaped backslash = backslash" "quotation \<noteq> CHR ''u''" "backslash \<noteq> CHR ''u''"
      by (simp_all add: unescaped_def quotation_def backslash_def)
    with quote show ?thesis by (auto simp: escaped_def unquote_letter)
  next
    case letter
    then have "a \<in> {char_of (8 :: nat), char_of (9 :: nat), char_of (10 :: nat), char_of (12 :: nat), char_of (13 :: nat)}"
      by simp (metis byte_eqD)
    then show ?thesis using escaped_letters by (auto simp: unquote_letter)
  next
    case hex
    then show ?thesis using hexed by simp
  next
    case plain
    moreover have "unquote (a # t) = a # unquote t"
      using unquote_plain [of a t 0] utf8_len_ascii [OF assms] plain(2) by simp
    ultimately show ?thesis by simp
  qed
qed

lemma unquote_raw:
  assumes "utf8_len (a # r) = Suc n" and "\<not> byte a < 128"
  shows "unquote (a # take n r @ t) = a # take n r @ unquote t"
proof -
  note w = utf8_len_take(1) [OF assms(1), of t] utf8_len_take(2) [OF assms(1)]
  have "a \<noteq> backslash" using assms(2) by auto
  from unquote_plain [OF w(1) this] w(2) show ?thesis by simp
qed

lemma unquote_replacement: "unquote (backslash # ''ufffd'' @ t) = replacement @ unquote t"
proof -
  have "hex4 ''fffd'' = Some 65533" by (simp add: hex_value_def)
  from unquote_hex [OF this, of t] show ?thesis
    by (simp add: is_high_def is_low_def utf8_enc_def replacement_def)
qed

lemma unquote_separator:
  assumes "line_separator w"
  shows "unquote (backslash # ''u202'' @ [hex_digit (byte (last w) mod 16)] @ t) = w @ unquote t"
proof -
  have "hex4 ''2028'' = Some 8232" "hex4 ''2029'' = Some 8233" by (simp_all add: hex_value_def)
  note u = this(1) [THEN unquote_hex, of t] this(2) [THEN unquote_hex, of t]
  have "hex_digit 8 = CHR ''8''" "hex_digit 9 = CHR ''9''" by code_simp+
  with assms u show ?thesis
    by (auto simp: line_separator_def is_high_def is_low_def utf8_enc_def)
qed

lemma unquote_quote_body: "unquote (quote_body s) = to_utf8 s"
proof (induction s rule: quote_body.induct)
  case (2 a r)
  show ?case
  proof (cases "byte a < 128")
    case True
    with 2(1) show ?thesis by (simp add: unquote_escaped utf8_len_ascii)
  next
    case False
    show ?thesis
    proof (cases "utf8_len (a # r)")
      case 0
      with False 2(2) show ?thesis using unquote_replacement [of "quote_body r"] by simp
    next
      case (Suc n)
      with False 2(3) show ?thesis
        using unquote_raw [OF Suc False, of "quote_body (drop n r)"]
          unquote_separator [of "a # take n r" "quote_body (drop n r)"] by simp
    qed
  qed
qed simp

section \<open>What the scanner asks of a literal\<close>

text \<open>The automaton of a literal after its opening quote: plain text, after a backslash, and with that many
  hexadecimal digits to come. The closing quote is not its own.\<close>

datatype literal_state = Plain | Esc | Hex nat

fun literal_step :: "char \<Rightarrow> literal_state \<Rightarrow> literal_state option" where
  "literal_step c Plain =
     (if c = backslash then Some Esc else if byte c < 32 \<or> c = quotation then None else Some Plain)"
| "literal_step c Esc =
     (if c \<in> {quotation, backslash, CHR ''/'', CHR ''b'', CHR ''f'', CHR ''n'', CHR ''r'', CHR ''t''} then Some Plain
      else if c = CHR ''u'' then Some (Hex 3) else None)"
| "literal_step c (Hex n) =
     (if hex_value c = None then None else if n = 0 then Some Plain else Some (Hex (n - 1)))"

fun literal_run :: "string \<Rightarrow> literal_state \<Rightarrow> literal_state option" where
  "literal_run [] st = Some st"
| "literal_run (c # s) st = Option.bind (literal_step c st) (literal_run s)"

lemma literal_run_append: "literal_run (s @ t) st = Option.bind (literal_run s st) (literal_run t)"
  by (induction s arbitrary: st) (auto split: bind_splits)

lemma literal_run_hex:
  "hex_value c \<noteq> None \<Longrightarrow> hex_value d \<noteq> None \<Longrightarrow> hex_value e \<noteq> None \<Longrightarrow> hex_value f \<noteq> None
   \<Longrightarrow> literal_run [backslash, CHR ''u'', c, d, e, f] Plain = Some Plain"
  by (simp add: quotation_def backslash_def)

lemma literal_run_escaped:
  assumes "byte a < 128"
  shows "literal_run (escaped a) Plain = Some Plain"
proof -
  have "hex_value CHR ''0'' \<noteq> None" by (simp add: hex_value_def)
  then have hex: "literal_run (backslash # ''u00'' @ [hex_digit (byte a div 16), hex_digit (byte a mod 16)]) Plain = Some Plain"
    using literal_run_hex [of "CHR ''0''" "CHR ''0''" "hex_digit (byte a div 16)" "hex_digit (byte a mod 16)"] assms by simp
  have letter: "literal_run (escaped a) Plain = Some Plain" if "byte a \<in> {8, 9, 10, 12, 13}"
  proof -
    have "a \<in> {char_of (8 :: nat), char_of (9 :: nat), char_of (10 :: nat), char_of (12 :: nat), char_of (13 :: nat)}"
      using that by simp (metis byte_eqD)
    then show ?thesis using escaped_letters by (auto simp: quotation_def backslash_def)
  qed
  have "literal_run (escaped a) Plain = Some Plain" if "a = quotation \<or> a = backslash"
    using that by (auto simp: escaped_def quotation_def backslash_def)
  with escaped_cases [of a] letter hex show ?thesis by auto
qed

lemma literal_run_raw: "\<forall>c \<in> set w. 128 \<le> byte c \<Longrightarrow> literal_run w Plain = Some Plain"
proof (induction w)
  case (Cons c w)
  then have "c \<noteq> backslash" "c \<noteq> quotation" by auto
  with Cons show ?case by simp
qed simp

lemma literal_run_ufffd: "literal_run (backslash # ''ufffd'') Plain = Some Plain"
proof -
  have "hex_value CHR ''f'' \<noteq> None" "hex_value CHR ''d'' \<noteq> None" by (simp_all add: hex_value_def)
  then show ?thesis by (intro literal_run_hex)
qed

lemma literal_run_u202: "literal_run (backslash # ''u202'' @ [hex_digit (k mod 16)]) Plain = Some Plain"
proof -
  have "hex_value CHR ''2'' \<noteq> None" "hex_value CHR ''0'' \<noteq> None" "hex_value (hex_digit (k mod 16)) \<noteq> None"
    by (simp_all add: hex_value_def [of "CHR ''2''"] hex_value_def [of "CHR ''0''"])
  then show ?thesis unfolding append.simps by (intro literal_run_hex)
qed

lemma literal_run_quote_body: "literal_run (quote_body s) Plain = Some Plain"
proof (induction s rule: quote_body.induct)
  case (2 a r)
  show ?case
  proof (cases "byte a < 128")
    case True
    with 2(1) show ?thesis by (simp add: literal_run_append literal_run_escaped)
  next
    case False
    show ?thesis
    proof (cases "utf8_len (a # r)")
      case 0
      have "quote_body (a # r) = (backslash # ''ufffd'') @ quote_body r" using 0 False by simp
      then show ?thesis by (simp only: literal_run_append literal_run_ufffd bind.bind_lunit 2(2) [OF False 0])
    next
      case (Suc n)
      let ?h = "backslash # ''u202'' @ [hex_digit (byte (last (a # take n r)) mod 16)]"
      have "literal_run ?h Plain = Some Plain" by (rule literal_run_u202)
      moreover have "literal_run (a # take n r) Plain = Some Plain" by (rule literal_run_raw [OF utf8_len_bytes [OF Suc False]])
      ultimately have "literal_run (if line_separator (a # take n r) then ?h else a # take n r) Plain = Some Plain" by simp
      with Suc False 2(3) [OF False Suc] show ?thesis by (simp only: quote_body.simps if_False nat.case literal_run_append bind.bind_lunit)
    qed
  qed
qed simp

lemma literal_printable: "literal_run s st = Some st' \<Longrightarrow> \<forall>c \<in> set s. 32 \<le> byte c"
proof (induction s arbitrary: st)
  case (Cons c s)
  then obtain st1 where st1: "literal_step c st = Some st1" "literal_run s st1 = Some st'" by (auto split: bind_splits)
  have "32 \<le> byte c" using st1(1) by (cases st) (auto simp: quotation_def backslash_def hex_value_def split: if_splits)
  with Cons.IH [OF st1(2)] show ?case by simp
qed simp

end
