(* ===== verification/Json_Text.thy ===== *)
theory Json_Text
  imports Utf8
begin

text \<open>
  JSON text as \<open>encoding/json\<close> of the standard library scans and writes it.

  \<open>jstep\<close> is the scanner: one byte at a time, with the stack of the lists and objects that are open and what
  has been read of each. \<open>scan_json\<close> is what a decoder reads as the next value of a stream: it stops at the end
  of the value and does not look further; the end of the input acts as a space. A nesting deeper than
  \<open>max_nesting\<close> is an error, numbers keep their literal. \<open>encode\<close> is the text of a value: strings quoted, no
  space, members in the order given.

  The lemmas show that scanning the text of a value gives the value back, with the ill-formed bytes of
  its strings replaced, and that the text holds no control character.
\<close>

datatype json =
  JNull | JBool bool | JNum string | JStr string | JArr "json list" | JObj "(string \<times> json) list"

section \<open>Number literals\<close>

definition is_dig :: "char \<Rightarrow> bool" where
  "is_dig c \<longleftrightarrow> 48 \<le> (of_char c :: nat) \<and> (of_char c :: nat) \<le> 57"

datatype num_state = Minus | Zero | Digits | Dot | Frac | Exp | Exp_sign | Exp_digits

definition num_start :: "char \<Rightarrow> num_state option" where
  "num_start c = (if c = CHR ''-'' then Some Minus else if c = CHR ''0'' then Some Zero
     else if is_dig c then Some Digits else None)"

definition is_exp :: "char \<Rightarrow> bool" where
  "is_exp c \<longleftrightarrow> c = CHR ''e'' \<or> c = CHR ''E''"

fun num_step :: "char \<Rightarrow> num_state \<Rightarrow> num_state option" where
  "num_step c Minus = (if c = CHR ''0'' then Some Zero else if is_dig c then Some Digits else None)"
| "num_step c Zero = (if c = CHR ''.'' then Some Dot else if is_exp c then Some Exp else None)"
| "num_step c Digits =
     (if is_dig c then Some Digits else if c = CHR ''.'' then Some Dot else if is_exp c then Some Exp else None)"
| "num_step c Dot = (if is_dig c then Some Frac else None)"
| "num_step c Frac = (if is_dig c then Some Frac else if is_exp c then Some Exp else None)"
| "num_step c Exp =
     (if c = CHR ''+'' \<or> c = CHR ''-'' then Some Exp_sign else if is_dig c then Some Exp_digits else None)"
| "num_step c Exp_sign = (if is_dig c then Some Exp_digits else None)"
| "num_step c Exp_digits = (if is_dig c then Some Exp_digits else None)"

definition num_final :: "num_state \<Rightarrow> bool" where
  "num_final n \<longleftrightarrow> n \<in> {Zero, Digits, Frac, Exp_digits}"

section \<open>The scanner\<close>

datatype frame = In_array "json list" | In_object "(string \<times> json) list" string

text \<open>What the scanner waits for, or is within: a literal (of a key or of a value) with its raw text, a number,
  the rest of one of the three words.\<close>

datatype scan_mode =
  Value | Value_or_end | Key | Key_or_end | Colon | Comma_or_end
| Literal bool string literal_state | Number string num_state | Word string json

datatype scan_state = Scanning scan_mode "frame list" | Done json | Bad

definition max_nesting :: nat where "max_nesting = 10000"

definition json_space :: "char \<Rightarrow> bool" where
  "json_space c \<longleftrightarrow> byte c \<in> {9, 10, 13, 32}"

fun ended :: "json \<Rightarrow> frame list \<Rightarrow> scan_state" where
  "ended v [] = Done v"
| "ended v (In_array vs # fs) = Scanning Comma_or_end (In_array (vs @ [v]) # fs)"
| "ended v (In_object ms k # fs) = Scanning Comma_or_end (In_object (ms @ [(k, v)]) k # fs)"

definition opened :: "scan_mode \<Rightarrow> frame \<Rightarrow> frame list \<Rightarrow> scan_state" where
  "opened m f fs = (if length fs < max_nesting then Scanning m (f # fs) else Bad)"

definition value_step :: "char \<Rightarrow> frame list \<Rightarrow> scan_state" where
  "value_step c fs =
     (if json_space c then Scanning Value fs
      else if c = CHR ''['' then opened Value_or_end (In_array []) fs
      else if c = CHR ''{'' then opened Key_or_end (In_object [] []) fs
      else if c = quotation then Scanning (Literal False [] Plain) fs
      else if c = CHR ''t'' then Scanning (Word ''rue'' (JBool True)) fs
      else if c = CHR ''f'' then Scanning (Word ''alse'' (JBool False)) fs
      else if c = CHR ''n'' then Scanning (Word ''ull'' JNull) fs
      else (case num_start c of Some n \<Rightarrow> Scanning (Number [c] n) fs | None \<Rightarrow> Bad))"

definition key_step :: "char \<Rightarrow> frame list \<Rightarrow> scan_state" where
  "key_step c fs =
     (if json_space c then Scanning Key fs else if c = quotation then Scanning (Literal True [] Plain) fs else Bad)"

definition end_step :: "char \<Rightarrow> frame list \<Rightarrow> scan_state" where
  "end_step c fs =
     (if json_space c then Scanning Comma_or_end fs
      else case fs of
        [] \<Rightarrow> Bad
      | In_array vs # gs \<Rightarrow>
          if c = CHR '','' then Scanning Value fs else if c = CHR '']'' then ended (JArr vs) gs else Bad
      | In_object ms k # gs \<Rightarrow>
          if c = CHR '','' then Scanning Key fs else if c = CHR ''}'' then ended (JObj ms) gs else Bad)"

definition literal_end :: "bool \<Rightarrow> string \<Rightarrow> frame list \<Rightarrow> scan_state" where
  "literal_end key raw fs =
     (if key then (case fs of In_object ms k # gs \<Rightarrow> Scanning Colon (In_object ms (unquote raw) # gs) | _ \<Rightarrow> Bad)
      else ended (JStr (unquote raw)) fs)"

fun jstep :: "char \<Rightarrow> scan_state \<Rightarrow> scan_state" where
  "jstep c (Scanning Value fs) = value_step c fs"
| "jstep c (Scanning Value_or_end fs) =
     (if json_space c then Scanning Value_or_end fs else if c = CHR '']'' then end_step c fs else value_step c fs)"
| "jstep c (Scanning Key fs) = key_step c fs"
| "jstep c (Scanning Key_or_end fs) =
     (if json_space c then Scanning Key_or_end fs else if c = CHR ''}'' then end_step c fs else key_step c fs)"
| "jstep c (Scanning Colon fs) =
     (if json_space c then Scanning Colon fs else if c = CHR '':'' then Scanning Value fs else Bad)"
| "jstep c (Scanning Comma_or_end fs) = end_step c fs"
| "jstep c (Scanning (Literal key raw st) fs) =
     (if st = Plain \<and> c = quotation then literal_end key raw fs
      else case literal_step c st of Some st' \<Rightarrow> Scanning (Literal key (raw @ [c]) st') fs | None \<Rightarrow> Bad)"
| "jstep c (Scanning (Number lit n) fs) =
     (case num_step c n of
        Some n' \<Rightarrow> Scanning (Number (lit @ [c]) n') fs
      | None \<Rightarrow>
          if num_final n then (case ended (JNum lit) fs of Scanning m gs \<Rightarrow> end_step c gs | x \<Rightarrow> x) else Bad)"
| "jstep c (Scanning (Word w v) fs) =
     (case w of
        x # xs \<Rightarrow> if c = x then (if xs = [] then ended v fs else Scanning (Word xs v) fs) else Bad
      | [] \<Rightarrow> Bad)"
| "jstep c (Done v) = Done v"
| "jstep c Bad = Bad"

definition scan_json :: "string \<Rightarrow> json option" where
  "scan_json s = (case fold jstep (s @ '' '') (Scanning Value []) of Done v \<Rightarrow> Some v | _ \<Rightarrow> None)"

section \<open>The encoder\<close>

fun comma_sep :: "string list \<Rightarrow> string" where
  "comma_sep [] = []"
| "comma_sep [x] = x"
| "comma_sep (x # xs) = x @ '','' @ comma_sep xs"

fun encode :: "json \<Rightarrow> string" where
  "encode JNull = ''null''"
| "encode (JBool b) = (if b then ''true'' else ''false'')"
| "encode (JNum lit) = lit"
| "encode (JStr s) = quote s"
| "encode (JArr vs) = ''['' @ comma_sep (map encode vs) @ '']''"
| "encode (JObj ms) = ''{'' @ comma_sep (map (\<lambda>(k, v). quote k @ '':'' @ encode v) ms) @ ''}''"

text \<open>A value with the ill-formed bytes of its strings replaced.\<close>

fun utf8_json :: "json \<Rightarrow> json" where
  "utf8_json (JStr s) = JStr (to_utf8 s)"
| "utf8_json (JArr vs) = JArr (map utf8_json vs)"
| "utf8_json (JObj ms) = JObj (map (\<lambda>(k, v). (to_utf8 k, utf8_json v)) ms)"
| "utf8_json v = v"

text \<open>What can be written: number literals of the grammar, nesting within the bound.\<close>

fun num_run :: "string \<Rightarrow> num_state \<Rightarrow> num_state option" where
  "num_run [] n = Some n"
| "num_run (c # s) n = Option.bind (num_step c n) (num_run s)"

definition num_ok :: "string \<Rightarrow> bool" where
  "num_ok lit \<longleftrightarrow> (case lit of [] \<Rightarrow> False | c # s \<Rightarrow>
     (case Option.bind (num_start c) (num_run s) of Some n \<Rightarrow> num_final n | None \<Rightarrow> False))"

fun encodable :: "nat \<Rightarrow> json \<Rightarrow> bool" where
  "encodable d (JNum lit) \<longleftrightarrow> num_ok lit"
| "encodable d (JArr vs) \<longleftrightarrow> d < max_nesting \<and> list_all (encodable (Suc d)) vs"
| "encodable d (JObj ms) \<longleftrightarrow> d < max_nesting \<and> list_all (\<lambda>(k, v). encodable (Suc d) v) ms"
| "encodable d v \<longleftrightarrow> True"

section \<open>Scanning what was encoded\<close>

lemma Done_stays [simp]: "fold jstep s (Done v) = Done v"
  by (induction s) auto

lemma scan_literal:
  assumes "literal_run s st = Some Plain"
  shows "fold jstep (s @ quotation # t) (Scanning (Literal key raw st) fs) = fold jstep t (literal_end key (raw @ s) fs)"
  using assms
proof (induction s arbitrary: st raw)
  case (Cons c s)
  then obtain st' where st': "literal_step c st = Some st'" "literal_run s st' = Some Plain" by (auto split: bind_splits)
  then have "\<not> (st = Plain \<and> c = quotation)" by auto
  with st'(1) have "jstep c (Scanning (Literal key raw st) fs) = Scanning (Literal key (raw @ [c]) st') fs" by auto
  with Cons.IH [OF st'(2), of "raw @ [c]"] show ?case by simp
qed simp

text \<open>A number ends at a byte its automaton refuses.\<close>

definition delimiter :: "char \<Rightarrow> bool" where
  "delimiter c \<longleftrightarrow> c \<in> {CHR '','', CHR '']'', CHR ''}'', CHR '' ''}"

lemma delimiter_refused: "delimiter c \<Longrightarrow> num_step c n = None"
  by (cases n) (auto simp: delimiter_def is_dig_def is_exp_def)

lemma jstep_ended: "jstep c (ended v fs) = (case ended v fs of Scanning m gs \<Rightarrow> end_step c gs | x \<Rightarrow> x)"
  by (cases "(v, fs)" rule: ended.cases) auto

lemma scan_digits:
  assumes "num_run s n = Some n'" and "num_final n'" and "delimiter c"
  shows "fold jstep (s @ c # t) (Scanning (Number lit n) fs) = fold jstep (c # t) (ended (JNum (lit @ s)) fs)"
  using assms(1)
proof (induction s arbitrary: n lit)
  case Nil
  with assms(2) show ?case by (simp add: delimiter_refused [OF assms(3)] jstep_ended)
next
  case (Cons a s)
  then obtain m where m: "num_step a n = Some m" "num_run s m = Some n'" by (auto split: bind_splits)
  with Cons.IH [OF m(2), of "lit @ [a]"] show ?case by simp
qed

text \<open>How a text begins.\<close>

definition starts_value :: "string \<Rightarrow> bool" where
  "starts_value s \<longleftrightarrow> (case s of [] \<Rightarrow> False | a # r \<Rightarrow> \<not> json_space a \<and> a \<noteq> CHR '']'')"

lemma starts_encode: "encodable d v \<Longrightarrow> starts_value (encode v)"
  by (cases v) (auto simp: starts_value_def json_space_def quote_def quotation_def num_ok_def num_start_def is_dig_def
      split: list.splits option.splits bind_splits if_splits)

lemma first_of_list:
  assumes "starts_value s"
  shows "fold jstep (s @ t) (Scanning Value_or_end fs) = fold jstep (s @ t) (Scanning Value fs)"
  using assms by (cases s) (auto simp: starts_value_def)

lemma scan_key:
  assumes "m \<in> {Key, Key_or_end}"
  shows "fold jstep (quote k @ '':'' @ t) (Scanning m (In_object ms k' # fs))
    = fold jstep t (Scanning Value (In_object ms (to_utf8 k) # fs))"
proof -
  have "jstep quotation (Scanning m gs) = Scanning (Literal True [] Plain) gs" for gs
    using assms by (auto simp: key_step_def json_space_def) (auto simp: quotation_def)
  moreover have "quote k @ '':'' @ t = quotation # quote_body k @ quotation # '':'' @ t" by (simp add: quote_def)
  moreover have "fold jstep (quote_body k @ quotation # '':'' @ t) (Scanning (Literal True [] Plain) (In_object ms k' # fs))
      = fold jstep ('':'' @ t) (literal_end True (quote_body k) (In_object ms k' # fs))"
    using scan_literal [OF literal_run_quote_body, of k "'':'' @ t" True "[]"] by simp
  ultimately show ?thesis by (simp add: literal_end_def unquote_quote_body json_space_def)
qed

text \<open>A value followed by a delimiter is read whole; with it the members of a list and of an object.\<close>

definition reads :: "json \<Rightarrow> frame list \<Rightarrow> bool" where
  "reads v fs \<longleftrightarrow> (\<forall>c t. delimiter c \<longrightarrow>
     fold jstep (encode v @ c # t) (Scanning Value fs) = fold jstep (c # t) (ended (utf8_json v) fs))"

lemma delimiters [simp]: "delimiter CHR '',''" "delimiter CHR '']''" "delimiter CHR ''}''" "delimiter CHR '' ''"
  by (simp_all add: delimiter_def)

lemma end_steps [simp]:
  "end_step CHR '','' (In_array us # fs) = Scanning Value (In_array us # fs)"
  "end_step CHR '']'' (In_array us # fs) = ended (JArr us) fs"
  "end_step CHR '','' (In_object ms k # fs) = Scanning Key (In_object ms k # fs)"
  "end_step CHR ''}'' (In_object ms k # fs) = ended (JObj ms) fs"
  by (simp_all add: end_step_def json_space_def)

lemma scan_elements:
  assumes "vs \<noteq> []" and "\<And>v us. v \<in> set vs \<Longrightarrow> reads v (In_array us # fs)"
  shows "fold jstep (comma_sep (map encode vs) @ CHR '']'' # t) (Scanning Value (In_array us # fs))
    = fold jstep t (ended (JArr (us @ map utf8_json vs)) fs)"
  using assms
proof (induction vs arbitrary: us)
  case (Cons v vs)
  note v = Cons.prems(2) [of v, unfolded reads_def, rule_format]
  show ?case
  proof (cases vs)
    case Nil
    with v show ?thesis by simp
  next
    case (Cons w ws)
    then have "comma_sep (map encode (v # vs)) @ CHR '']'' # t
        = encode v @ CHR '','' # (comma_sep (map encode vs) @ CHR '']'' # t)" by simp
    moreover have "fold jstep (comma_sep (map encode vs) @ CHR '']'' # t) (Scanning Value (In_array (us @ [utf8_json v]) # fs))
        = fold jstep t (ended (JArr ((us @ [utf8_json v]) @ map utf8_json vs)) fs)"
      using Cons.IH Cons.prems Cons by simp
    ultimately show ?thesis using v by simp
  qed
qed simp

lemma scan_members:
  assumes "ms \<noteq> []" and "\<And>k v us k'. (k, v) \<in> set ms \<Longrightarrow> reads v (In_object us k' # fs)" and "m \<in> {Key, Key_or_end}"
  shows "fold jstep (comma_sep (map (\<lambda>(k, v). quote k @ '':'' @ encode v) ms) @ CHR ''}'' # t) (Scanning m (In_object us k' # fs))
    = fold jstep t (ended (JObj (us @ map (\<lambda>(k, v). (to_utf8 k, utf8_json v)) ms)) fs)"
  using assms
proof (induction ms arbitrary: us k' m)
  case (Cons kv ms)
  obtain k v where kv: "kv = (k, v)" by fastforce
  note v = Cons.prems(2) [of k v, unfolded kv reads_def, rule_format]
  note key = scan_key [OF Cons.prems(3)]
  show ?case
  proof (cases ms)
    case Nil
    with v key show ?thesis by (simp add: kv)
  next
    case (Cons w ws)
    let ?rest = "comma_sep (map (\<lambda>(k, v). quote k @ '':'' @ encode v) ms) @ CHR ''}'' # t"
    have "comma_sep (map (\<lambda>(k, v). quote k @ '':'' @ encode v) (kv # ms)) @ CHR ''}'' # t
        = quote k @ '':'' @ encode v @ CHR '','' # ?rest" using Cons by (simp add: kv)
    moreover have "fold jstep ?rest (Scanning Key (In_object (us @ [(to_utf8 k, utf8_json v)]) (to_utf8 k) # fs))
        = fold jstep t (ended (JObj ((us @ [(to_utf8 k, utf8_json v)]) @ map (\<lambda>(k, v). (to_utf8 k, utf8_json v)) ms)) fs)"
      by (rule Cons.IH) (use Cons.prems Cons in auto)
    ultimately show ?thesis using v key by (simp add: kv)
  qed
qed simp

lemma scan_word:
  assumes "w \<noteq> []"
  shows "fold jstep (w @ t) (Scanning (Word w v) fs) = fold jstep t (ended v fs)"
  using assms
proof (induction w)
  case (Cons x xs)
  then show ?case by (cases "xs = []") simp_all
qed simp

lemma value_step_number:
  assumes "num_start a = Some n"
  shows "value_step a fs = Scanning (Number [a] n) fs"
proof (cases "is_dig a")
  case True
  then have "\<not> json_space a" "a \<noteq> CHR ''[''" "a \<noteq> CHR ''{''" "a \<noteq> quotation" "a \<noteq> CHR ''t''" "a \<noteq> CHR ''f''" "a \<noteq> CHR ''n''"
    by (auto simp: is_dig_def json_space_def quotation_def)
  with assms show ?thesis by (simp add: value_step_def)
next
  case False
  with assms have "a = CHR ''-''" by (auto simp: num_start_def is_dig_def split: if_splits)
  with assms show ?thesis by (simp add: value_step_def json_space_def quotation_def)
qed

lemma reads_encode:
  assumes "encodable (length fs) v"
  shows "reads v fs"
  using assms
proof (induction v arbitrary: fs)
  case JNull
  show ?case using scan_word [of "''ull''"] by (simp add: reads_def value_step_def json_space_def quotation_def)
next
  case (JBool b)
  show ?case using scan_word [of "''rue''"] scan_word [of "''alse''"]
    by (simp add: reads_def value_step_def json_space_def quotation_def)
next
  case (JNum lit)
  then obtain a s n n' where lit: "lit = a # s" "num_start a = Some n" "num_run s n = Some n'" "num_final n'"
    by (auto simp: num_ok_def split: list.splits option.splits bind_splits)
  note value_step_number [OF lit(2), of fs]
  then have "fold jstep (encode (JNum lit) @ c # t) (Scanning Value fs) = fold jstep (s @ c # t) (Scanning (Number [a] n) fs)" for c t
    by (simp only: lit(1) encode.simps append.simps fold_simps jstep.simps)
  then show ?case using scan_digits [OF lit(3,4), where lit = "[a]" and fs = fs] by (simp only: reads_def lit(1) append.simps utf8_json.simps) blast
next
  case (JStr s)
  have "value_step quotation fs = Scanning (Literal False [] Plain) fs"
    by (simp add: value_step_def json_space_def) (simp add: quotation_def)
  then have "fold jstep (encode (JStr s) @ c # t) (Scanning Value fs)
      = fold jstep (quote_body s @ quotation # c # t) (Scanning (Literal False [] Plain) fs)" for c t
    by (simp only: quote_def encode.simps append.simps append_assoc fold_simps jstep.simps)
  then show ?case using scan_literal [OF literal_run_quote_body, of s _ False "[]" fs]
    by (simp only: reads_def literal_end_def unquote_quote_body append.simps utf8_json.simps if_False simp_thms)
next
  case (JArr vs)
  then have d: "length fs < max_nesting" and sub: "\<And>v us. v \<in> set vs \<Longrightarrow> reads v (In_array us # fs)"
    by (auto simp: list_all_iff)
  have open_array: "fold jstep (encode (JArr vs) @ t) (Scanning Value fs)
      = fold jstep (comma_sep (map encode vs) @ CHR '']'' # t) (Scanning Value_or_end (In_array [] # fs))" for t
    using d by (simp add: value_step_def opened_def json_space_def)
  have "fold jstep (comma_sep (map encode vs) @ CHR '']'' # t) (Scanning Value_or_end (In_array [] # fs))
      = fold jstep t (ended (JArr (map utf8_json vs)) fs)" for t
  proof (cases vs)
    case Nil
    then show ?thesis by (simp add: json_space_def)
  next
    case (Cons w ws)
    then have "starts_value (encode w)" using JArr.prems starts_encode by (auto simp: list_all_iff)
    then have "starts_value (comma_sep (map encode vs))"
      using Cons by (cases ws) (auto simp: starts_value_def split: list.splits)
    note first_of_list [OF this, of "CHR '']'' # t" "In_array [] # fs"]
    also note scan_elements [of vs fs t "[]", OF _ sub]
    finally show ?thesis using Cons by simp
  qed
  with open_array show ?case by (simp only: reads_def utf8_json.simps) blast
next
  case (JObj ms)
  then have d: "length fs < max_nesting" and sub: "\<And>k v us k'. (k, v) \<in> set ms \<Longrightarrow> reads v (In_object us k' # fs)"
    by (fastforce simp: list_all_iff)+
  let ?text = "comma_sep (map (\<lambda>(k, v). quote k @ '':'' @ encode v) ms)"
  have open_object: "fold jstep (encode (JObj ms) @ t) (Scanning Value fs)
      = fold jstep (?text @ CHR ''}'' # t) (Scanning Key_or_end (In_object [] [] # fs))" for t
    using d by (simp add: value_step_def opened_def json_space_def)
  have "fold jstep (?text @ CHR ''}'' # t) (Scanning Key_or_end (In_object [] [] # fs))
      = fold jstep t (ended (utf8_json (JObj ms)) fs)" for t
  proof (cases ms)
    case Nil
    then show ?thesis by (simp add: json_space_def)
  next
    case (Cons w ws)
    with scan_members [of ms fs Key_or_end t "[]" "[]", OF _ sub] show ?thesis by simp
  qed
  with open_object show ?case by (simp only: reads_def) blast
qed

lemma scan_encode:
  assumes "encodable 0 v"
  shows "scan_json (encode v) = Some (utf8_json v)"
proof -
  have "reads v []" using reads_encode [of "[]" v] assms by simp
  from this [unfolded reads_def, rule_format, OF delimiters(4), of "[]"]
  have "fold jstep (encode v @ '' '') (Scanning Value []) = Done (utf8_json v)" by simp
  then show ?thesis by (simp add: scan_json_def)
qed

text \<open>The text of a value is printable.\<close>

lemma num_run_printable: "num_run s n = Some n' \<Longrightarrow> \<forall>c \<in> set s. 32 \<le> byte c"
proof (induction s arbitrary: n)
  case (Cons c s)
  then obtain m where m: "num_step c n = Some m" "num_run s m = Some n'" by (auto split: bind_splits)
  have "32 \<le> byte c" using m(1) by (cases n) (auto simp: is_dig_def is_exp_def split: if_splits)
  with Cons.IH [OF m(2)] show ?case by simp
qed simp

lemma comma_sep_set: "set (comma_sep ws) \<subseteq> insert CHR '','' (\<Union>w \<in> set ws. set w)"
  by (induction ws rule: comma_sep.induct) auto

lemma quote_printable: "\<forall>c \<in> set (quote s). 32 \<le> byte c"
  using literal_printable [OF literal_run_quote_body [of s]] by (auto simp: quote_def)

lemma encode_printable: "encodable d v \<Longrightarrow> \<forall>c \<in> set (encode v). 32 \<le> byte c"
proof (induction v arbitrary: d)
  case (JNum lit)
  then show ?case
    using num_run_printable by (fastforce simp: num_ok_def num_start_def is_dig_def split: list.splits option.splits bind_splits if_splits)
next
  case (JStr s)
  show ?case using quote_printable by simp
next
  case (JArr vs)
  then have "\<forall>w \<in> set (map encode vs). \<forall>c \<in> set w. 32 \<le> byte c" by (auto simp: list_all_iff)
  with comma_sep_set [of "map encode vs"] show ?case by fastforce
next
  case (JObj ms)
  then have "\<forall>w \<in> set (map (\<lambda>(k, v). quote k @ '':'' @ encode v) ms). \<forall>c \<in> set w. 32 \<le> byte c"
    using quote_printable by (fastforce simp: list_all_iff)
  with comma_sep_set [of "map (\<lambda>(k, v). quote k @ '':'' @ encode v) ms"] show ?case by fastforce
qed auto

end
