(* ===== verification/Engine.thy ===== *)
theory Engine
  imports Store Symbols Json_Text
begin

text \<open>
  The engine struct and its event and speech helpers (\<open>internal/engine/engine.go\<close>), and the speech
  client they call (\<open>internal/openai/tts.go\<close>).

  The store the engine points to is passed and returned. What the engine reaches outside the
  repository is in its record too: \<open>e_http\<close> is the transport that answers the speech request,
  \<open>e_rand\<close> the random bytes drawn for its identifier at a given time and text, \<open>e_unicode\<close> the
  Unicode tables. \<open>e_loc\<close> is the location \<open>New\<close> loads; the API key is only passed on to the
  market-data client and has no place in the model.

  The lemmas give the frame of the helpers: they write the event list and the audio map only.
\<close>

section \<open>The speech client\<close>

record tts_client =
  apiKey :: string
  tts_model :: string
  tts_voice :: string
  responseFormat :: string

record tts_request =
  rq_authorization :: string
  rq_content_type :: string
  rq_text :: string

text \<open>
  What the transport answers: an error of \<open>Do\<close>, or a status code, the first 4096 bytes of the
  body and the result of reading the whole body.
\<close>

type_synonym transport = "tts_request \<Rightarrow> string + (int \<times> string \<times> (string + bytes))"

definition Enabled :: "tts_client \<Rightarrow> bool" where
  "Enabled c \<longleftrightarrow> apiKey c \<noteq> []"

definition randID :: "bytes \<Rightarrow> string" where
  "randID b = concat (map (\<lambda>c. [hex_digit (of_char c div 16), hex_digit (of_char c mod 16)]) b)"

text \<open>A map is marshalled with its keys in order.\<close>

definition speech_json :: "tts_client \<Rightarrow> string \<Rightarrow> json" where
  "speech_json c txt = JObj [(''input'', JStr txt), (''model'', JStr (tts_model c)),
     (''response_format'', JStr (responseFormat c)), (''voice'', JStr (tts_voice c))]"

definition Synthesize ::
  "tts_client \<Rightarrow> transport \<Rightarrow> bytes \<Rightarrow> string \<Rightarrow> string + (string \<times> bytes)" where
  "Synthesize c http rand txt =
     (if apiKey c = [] then Inl ''openai api key missing''
      else
        case http \<lparr>rq_authorization = ''Bearer '' @ apiKey c, rq_content_type = ''application/json'',
                   rq_text = encode (speech_json c txt)\<rparr> of
          Inl err \<Rightarrow> Inl err
        | Inr (status, head4k, body) \<Rightarrow>
            if status < 200 \<or> 299 < status
            then Inl (''openai tts failed: status='' @ show_int status @ '' body='' @ head4k)
            else (case body of
                    Inl err \<Rightarrow> Inl err
                  | Inr audioBytes \<Rightarrow> Inr (randID rand, audioBytes)))"

section \<open>The engine\<close>

record engine =
  e_cfg :: config
  e_tts :: "tts_client option"
  e_loc :: zone
  e_http :: transport
  e_rand :: "gotime \<Rightarrow> string \<Rightarrow> bytes"
  e_unicode :: unicode

section \<open>Events and speech\<close>

definition emit ::
  "engine \<Rightarrow> gotime \<Rightarrow> string \<Rightarrow> string \<Rightarrow> string \<Rightarrow> string \<Rightarrow> string \<Rightarrow> store \<Rightarrow> store" where
  "emit e tsNY typ symb msg audioID level s =
     AddEvent
       \<lparr>ev_ID = show_int tsNY @ ''-'' @ typ @ ''-'' @ symb,
        ev_TimeNY = fmt_hms (e_loc e) tsNY,
        ev_Type = typ, ev_Symbol = symb, ev_Message = msg, ev_AudioID = audioID, ev_Level = level\<rparr> s"

definition say :: "engine \<Rightarrow> gotime \<Rightarrow> string \<Rightarrow> store \<Rightarrow> string \<times> store" where
  "say e tsNY txt s =
     (case e_tts e of
        None \<Rightarrow> ([], s)
      | Some c \<Rightarrow>
          if \<not> Enabled c then ([], s)
          else (case Synthesize c (e_http e) (e_rand e tsNY txt) txt of
                  Inl err \<Rightarrow> ([], s)
                | Inr (audioID, audioBytes) \<Rightarrow> (audioID, StoreAudio audioID audioBytes s)))"

section \<open>Frames\<close>

lemma emit_frame [frame_simps]:
  "st_cfg (emit e t typ k msg a l s) = st_cfg s" "phase (emit e t typ k msg a l s) = phase s"
  "watchlist (emit e t typ k msg a l s) = watchlist s" "watchset (emit e t typ k msg a l s) = watchset s"
  "tickers (emit e t typ k msg a l s) = tickers s" "audio (emit e t typ k msg a l s) = audio s"
  "GetTicker (emit e t typ k msg a l s) k' = GetTicker s k'"
  "Filters (emit e t typ k msg a l s) = Filters s" "Times (emit e t typ k msg a l s) = Times s"
  "settings (emit e t typ k msg a l s) = settings s" "wf_tickers (emit e t typ k msg a l s) = wf_tickers s"
  by (simp_all add: emit_def frame_simps)

lemma wf_events_emit: "wf_events s \<Longrightarrow> wf_events (emit e t typ k msg a l s)"
  by (simp add: emit_def wf_events_AddEvent)

lemma say_frame [frame_simps]:
  "st_cfg (snd (say e t txt s)) = st_cfg s" "phase (snd (say e t txt s)) = phase s"
  "watchlist (snd (say e t txt s)) = watchlist s" "watchset (snd (say e t txt s)) = watchset s"
  "tickers (snd (say e t txt s)) = tickers s" "events (snd (say e t txt s)) = events s"
  "GetTicker (snd (say e t txt s)) k' = GetTicker s k'"
  "Filters (snd (say e t txt s)) = Filters s" "Times (snd (say e t txt s)) = Times s"
  "settings (snd (say e t txt s)) = settings s" "wf_tickers (snd (say e t txt s)) = wf_tickers s"
  "wf_events (snd (say e t txt s)) = wf_events s"
  by (simp_all add: say_def frame_simps split: option.splits sum.splits prod.splits)

text \<open>No speech client, or one without a key: no audio is stored and the text goes out alone.\<close>

lemma say_silent:
  "e_tts e = None \<or> (\<exists>c. e_tts e = Some c \<and> \<not> Enabled c) \<Longrightarrow> say e t txt s = ([], s)"
  by (auto simp: say_def)

end
