(* ===== verification/Opening.thy ===== *)
theory Opening
  imports Engine
begin

text \<open>
  The opening window (\<open>internal/engine/engine.go\<close>): collecting the minute bars of 09:30 to 09:34
  into the opening range and volume of each ticker, and the selection at 09:35.
\<close>

section \<open>Bars\<close>

record equity_agg =
  agg_Symbol :: string
  agg_StartTimestamp :: int
  agg_Open :: float64
  agg_High :: float64
  agg_Low :: float64
  agg_Close :: float64
  agg_Volume :: float64

section \<open>Minute bars\<close>

definition onMinuteBar :: "string \<Rightarrow> equity_agg \<Rightarrow> ticker_state \<Rightarrow> ticker_state" where
  "onMinuteBar hhmm agg t =
     (let t = (if feq (Open0930 t) 0
               then t\<lparr>Open0930 := agg_Open agg, ORHigh := agg_High agg, ORLow := agg_Low agg,
                      Open0930Estimated := (hhmm \<noteq> ''09:30'')\<rparr>
               else (let t = (if ORHigh t < agg_High agg then t\<lparr>ORHigh := agg_High agg\<rparr> else t)
                     in if feq (ORLow t) 0 \<or> agg_Low agg < ORLow t
                        then t\<lparr>ORLow := agg_Low agg\<rparr> else t))
      in t\<lparr>Open5mVol := Open5mVol t + agg_Volume agg\<rparr>)"

definition onMinuteAgg :: "engine \<Rightarrow> gotime \<Rightarrow> gotime \<Rightarrow> equity_agg \<Rightarrow> store \<Rightarrow> store" where
  "onMinuteAgg e openNY selNY agg s =
     (let symb = agg_Symbol agg
      in if symb = [] then s
         else if \<not> HasSymbol s symb then s
         else let barStartNY = UnixMilli (agg_StartTimestamp agg)
              in if barStartNY < openNY \<or> \<not> barStartNY < selNY then s
                 else let hhmm = fmt_hm (e_loc e) barStartNY
                      in if hhmm < ''09:30'' \<or> ''09:34'' < hhmm then s
                         else UpsertTicker symb (onMinuteBar hhmm agg) s)"

section \<open>Selection at 09:35\<close>

definition range_ok :: "runtime_filters \<Rightarrow> float64 \<Rightarrow> float64 \<Rightarrow> bool" where
  "range_ok f rng vol \<longleftrightarrow>
     Open5mRangePctMin f \<le> rng \<and> rng \<le> Open5mRangePctMax f \<and> Open5mVolMin f \<le> vol \<and> vol \<le> Open5mVolMax f"

definition open_range :: "ticker_state \<Rightarrow> float64" where
  "open_range t = (ORHigh t - ORLow t) / Open0930 t"

definition select_one ::
  "runtime_filters \<Rightarrow> string \<Rightarrow> store \<times> string list \<Rightarrow> store \<times> string list" where
  "select_one f symb sc =
     (case sc of (s, candidates) \<Rightarrow>
       (case GetTicker s symb of
          None \<Rightarrow> (s, candidates)
        | Some t \<Rightarrow>
            if Open0930 t \<le> 0 \<or> ORHigh t \<le> 0 \<or> ORLow t \<le> 0 then (s, candidates)
            else let rng = open_range t; vol = Open5mVol t
                 in if range_ok f rng vol
                    then (UpsertTicker symb (\<lambda>tt. tt\<lparr>Open5mRangePct := rng, Status := ''selected''\<rparr>) s,
                          candidates @ [symb])
                    else (s, candidates)))"

definition selectCandidatesAt0935 :: "engine \<Rightarrow> gotime \<Rightarrow> store \<Rightarrow> store \<times> string list" where
  "selectCandidatesAt0935 e now s =
     (let f = Filters s;
          s = emit e now ''SYSTEM'' [] ''Computing open_5m_range_pct + open_5m_vol and filtering...'' [] ''info'' s;
          wl = Watchlist s;
          (s, candidates) = fold (select_one f) wl (s, [])
      in (s, sort candidates))"

section \<open>The window\<close>

text \<open>
  When a bar is collected: its symbol is on the watchlist, its start lies in the configured interval,
  and the clock of the market reads 09:30 to 09:34.
\<close>

definition collects :: "engine \<Rightarrow> gotime \<Rightarrow> gotime \<Rightarrow> store \<Rightarrow> equity_agg \<Rightarrow> bool" where
  "collects e openNY selNY s b \<longleftrightarrow>
     (let t = UnixMilli (agg_StartTimestamp b)
      in agg_Symbol b \<noteq> [] \<and> agg_Symbol b \<in> watchset s \<and> openNY \<le> t \<and> t < selNY
         \<and> 570 \<le> clock_secs (e_loc e) t div 60 \<and> clock_secs (e_loc e) t div 60 \<le> 574)"

lemma onMinuteAgg_eq:
  "onMinuteAgg e openNY selNY b s =
     (if collects e openNY selNY s b
      then UpsertTicker (agg_Symbol b)
             (onMinuteBar (fmt_hm (e_loc e) (UnixMilli (agg_StartTimestamp b))) b) s
      else s)"
  using fmt_hm_window [of "e_loc e" "UnixMilli (agg_StartTimestamp b)"]
  by (auto simp: onMinuteAgg_def collects_def HasSymbol_def Let_def)

lemma get_onMinuteAgg:
  "GetTicker (onMinuteAgg e openNY selNY b s) k =
     (if collects e openNY selNY s b \<and> k = agg_Symbol b
      then Some (onMinuteBar (fmt_hm (e_loc e) (UnixMilli (agg_StartTimestamp b))) b
                  (case GetTicker s k of None \<Rightarrow> new_ticker k | Some t \<Rightarrow> t))
      else GetTicker s k)"
  by (auto simp: onMinuteAgg_eq cells.get_upd)

lemma onMinuteAgg_frame [frame_simps]:
  "settings (onMinuteAgg e o9 se b s) = settings s" "events (onMinuteAgg e o9 se b s) = events s"
  "phase (onMinuteAgg e o9 se b s) = phase s" "Times (onMinuteAgg e o9 se b s) = Times s"
  "watchset (onMinuteAgg e o9 se b s) = watchset s"
  by (simp_all add: onMinuteAgg_eq frame_simps)

lemma collects_onMinuteAgg [simp]: "collects e o9 se (onMinuteAgg e' a c b' s) b = collects e o9 se s b"
  by (simp add: collects_def frame_simps)

section \<open>The selection\<close>

definition selected :: "runtime_filters \<Rightarrow> ticker_state option \<Rightarrow> bool" where
  "selected f m \<longleftrightarrow>
     (case m of None \<Rightarrow> False
      | Some t \<Rightarrow> \<not> Open0930 t \<le> 0 \<and> \<not> ORHigh t \<le> 0 \<and> \<not> ORLow t \<le> 0
                  \<and> range_ok f (open_range t) (Open5mVol t))"

definition select_cell :: "ticker_state \<Rightarrow> ticker_state" where
  "select_cell t = t\<lparr>Open5mRangePct := open_range t, Status := ''selected''\<rparr>"

lemma select_cell_idem [simp]: "select_cell (select_cell t) = select_cell t"
  by (simp add: select_cell_def open_range_def)

lemma selected_select_cell [simp]: "selected f (Some (select_cell t)) = selected f (Some t)"
  by (simp add: selected_def select_cell_def open_range_def)

lemma select_one_eq:
  "select_one f k (s, cs) =
     (if selected f (GetTicker s k) then (UpsertTicker k select_cell s, cs @ [k]) else (s, cs))"
proof (cases "GetTicker s k")
  case (Some t)
  have "UpsertTicker k (\<lambda>tt. tt\<lparr>Open5mRangePct := open_range t, Status := ''selected''\<rparr>) s
      = UpsertTicker k select_cell s"
    using Some by (simp add: UpsertTicker_def GetTicker_def select_cell_def)
  with Some show ?thesis by (simp add: select_one_def selected_def Let_def)
qed (simp add: select_one_def selected_def)

lemma select_fold:
  "snd (fold (select_one f) wl (s, cs)) = cs @ filter (\<lambda>k. selected f (GetTicker s k)) wl
   \<and> GetTicker (fst (fold (select_one f) wl (s, cs))) k =
       (if k \<in> set wl \<and> selected f (GetTicker s k) then map_option select_cell (GetTicker s k)
        else GetTicker s k)"
proof (induction wl arbitrary: s cs)
  case Nil
  then show ?case by simp
next
  case (Cons w wl)
  show ?case
  proof (cases "selected f (GetTicker s w)")
    case False
    with Cons.IH [of s cs] show ?thesis by (auto simp: select_one_eq)
  next
    case True
    then obtain t where t: "GetTicker s w = Some t" by (auto simp: selected_def split: option.splits)
    let ?s = "UpsertTicker w select_cell s"
    have g: "GetTicker ?s k' = (if k' = w then Some (select_cell t) else GetTicker s k')" for k'
      using t by (simp add: cells.get_upd)
    have "selected f (GetTicker ?s k') = selected f (GetTicker s k')" for k'
      using t by (simp add: g)
    with Cons.IH [of ?s "cs @ [w]"] True t show ?thesis by (auto simp: select_one_eq g)
  qed
qed

lemma select_settings: "settings (fst (fold (select_one f) wl (s, cs))) = settings s"
proof (induction wl arbitrary: s cs)
  case (Cons w wl)
  then show ?case by (simp add: select_one_eq frame_simps)
qed simp

section \<open>Properties\<close>

text \<open>C20. Collection window: a minute bar changes the store exactly when its symbol is watched and its start is in
  the configured interval and between 09:30 and 09:34 on the market's clock; otherwise the store is as it
  was. It then writes the tickers alone, no event, phase, time, setting or anything else, and of the tickers only that of its
  symbol: the first bar gives open, high and low, with the open marked as estimated unless it is the 09:30 bar, a later one widens the
  range, and each adds its volume.\<close>

theorem minute_bar_window:
  "if collects e openNY selNY s b
   then onMinuteAgg e openNY selNY b s = s\<lparr>tickers := tickers (onMinuteAgg e openNY selNY b s)\<rparr>
     \<and> (let t = (case GetTicker s (agg_Symbol b) of None \<Rightarrow> new_ticker (agg_Symbol b) | Some t \<Rightarrow> t);
            isFirst = feq (Open0930 t) 0
        in \<forall>k. GetTicker (onMinuteAgg e openNY selNY b s) k =
           (if k = agg_Symbol b
            then Some (t\<lparr>Open0930 := if isFirst then agg_Open b else Open0930 t,
               ORHigh := if isFirst \<or> ORHigh t < agg_High b then agg_High b else ORHigh t,
               ORLow := if isFirst \<or> feq (ORLow t) 0 \<or> agg_Low b < ORLow t then agg_Low b else ORLow t,
               Open0930Estimated := if isFirst
                 then fmt_hm (e_loc e) (UnixMilli (agg_StartTimestamp b)) \<noteq> ''09:30'' else Open0930Estimated t,
               Open5mVol := Open5mVol t + agg_Volume b\<rparr>)
            else GetTicker s k))
   else onMinuteAgg e openNY selNY b s = s"
proof (cases "collects e openNY selNY s b")
  case True
  let ?s = "onMinuteAgg e openNY selNY b s"
  have "?s = s\<lparr>tickers := tickers ?s\<rparr>" using True by (simp add: onMinuteAgg_eq UpsertTicker_def Let_def)
  with True show ?thesis by (auto simp: get_onMinuteAgg onMinuteBar_def Let_def)
qed (simp add: onMinuteAgg_eq)

text \<open>The window is fixed: when the configured opening is at 09:35 or later on the market's clock, no
  minute bar is ever collected, although the opening time is a setting.\<close>

theorem late_open_collects_nothing:
  assumes "\<forall>t. openNY \<le> t \<and> t < selNY \<longrightarrow> 575 \<le> clock_secs (e_loc e) t div 60"
  shows "fold (onMinuteAgg e openNY selNY) bars s = s"
proof (induction bars arbitrary: s)
  case Nil
  then show ?case by simp
next
  case (Cons b bars)
  have "\<not> collects e openNY selNY s b"
    using assms by (fastforce simp: collects_def Let_def)
  then show ?case using Cons by (simp add: onMinuteAgg_eq)
qed

lemma clock_fixed_day:
  assumes "0 \<le> h" and "h * sec_ns \<le> t" and "t < 86400 * sec_ns"
  shows "h div 60 \<le> clock_secs (fixed_zone 0) t div 60"
proof -
  have "h \<le> t div sec_ns" "t div sec_ns < 86400"
    using assms(2,3) by (simp_all add: sec_ns_def)
  then show ?thesis
    using assms(1) by (simp add: clock_secs_def local_secs_def fixed_zone_def Unix_def zdiv_mono1)
qed

theorem late_open_collects_nothing_witness:
  "fold (onMinuteAgg \<lparr>e_cfg = zero_config, e_tts = None, e_loc = fixed_zone 0, e_http = (\<lambda>_. Inl []),
       e_rand = (\<lambda>_ _. []), e_unicode = \<lparr>uni_ToUpper = id, uni_TrimFunc = id, uni_TrimRightFunc = id\<rparr>\<rparr>
     (36000 * sec_ns) (36300 * sec_ns)) [\<lparr>agg_Symbol = ''A'', agg_StartTimestamp = 36000000, agg_Open = 1, agg_High = 1, agg_Low = 1,
       agg_Close = 1, agg_Volume = 1\<rparr>] (New 0 zero_config [''A'']) = New 0 zero_config [''A'']"
proof (rule late_open_collects_nothing, intro allI impI)
  fix t assume t: "36000 * sec_ns \<le> t \<and> t < 36300 * sec_ns"
  have "36000 div 60 \<le> clock_secs (fixed_zone 0) t div 60"
    using t by (intro clock_fixed_day) (simp_all add: sec_ns_def)
  then show "575 \<le> clock_secs (e_loc \<lparr>e_cfg = zero_config, e_tts = None, e_loc = fixed_zone 0,
      e_http = (\<lambda>_. Inl []), e_rand = (\<lambda>_ _. []),
      e_unicode = \<lparr>uni_ToUpper = id, uni_TrimFunc = id, uni_TrimRightFunc = id\<rparr>\<rparr>) t div 60"
    by simp
qed


end
