(* ===== verification/Trading.thy ===== *)
theory Trading
  imports Engine
begin

text \<open>
  Trades (\<open>internal/engine/engine.go\<close>, and \<open>closeAllOpenPositionsAt\<close> of \<open>historic.go\<close>): the trade
  handler with its entry and exit logic, opening and closing a position, and the time exit.
\<close>

section \<open>Trade messages\<close>

record equity_trade =
  et_Symbol :: string
  et_Timestamp :: int
  et_Price :: float64
  et_Size :: int

section \<open>Positions\<close>

definition minutes_after :: "gotime \<Rightarrow> gotime \<Rightarrow> float64" where
  "minutes_after openNY tsNY = Seconds (Sub tsNY openNY) / rnd 60"

definition entered :: "engine \<Rightarrow> gotime \<Rightarrow> float64 \<Rightarrow> float64 \<Rightarrow> ticker_state \<Rightarrow> ticker_state" where
  "entered e tsNY minAfterOpen entry t =
     t\<lparr>HasPosition := True, EntryPrice := entry, EntryTime := tsNY,
       EntryMinutesAfterOpen := minAfterOpen,
       TakeProfitPrice := entry * (rnd 1 + TakeProfitPct (cfg_Risk (e_cfg e))),
       StopPrice := entry * (rnd 1 - StopLossPct (cfg_Risk (e_cfg e))),
       Status := ''LONG'',
       MaxPriceSinceEntry := entry, MaxPriceSinceEntryTime := tsNY,
       MinPriceSinceEntry := entry, MinPriceSinceEntryTime := tsNY\<rparr>"

definition openPosition :: "engine \<Rightarrow> gotime \<Rightarrow> string \<Rightarrow> float64 \<Rightarrow> store \<Rightarrow> store" where
  "openPosition e tsNY symb entry s =
     (let minAfterOpen = minutes_after (fst (Times s)) tsNY;
          s = UpsertTicker symb (entered e tsNY minAfterOpen entry) s;
          msg = ''BUY '' @ symb @ '' ('' @ SpellNATO (e_unicode e) symb @ '')'';
          (audioID, s) = say e tsNY (''Buy. '' @ SpellNATO (e_unicode e) symb) s
      in emit e tsNY ''BUY'' symb msg audioID ''signal'' s)"

definition exited :: "gotime \<Rightarrow> float64 \<Rightarrow> string \<Rightarrow> float64 \<Rightarrow> ticker_state \<Rightarrow> ticker_state" where
  "exited tsNY minAfterOpen reason exitPrice t =
     t\<lparr>Exited := True, ExitReason := reason, ExitTime := tsNY, ExitPrice := exitPrice,
       ExitMinutesAfterOpen := minAfterOpen, Status := reason\<rparr>"

definition closePosition ::
  "engine \<Rightarrow> gotime \<Rightarrow> string \<Rightarrow> string \<Rightarrow> string \<Rightarrow> float64 \<Rightarrow> store \<Rightarrow> store" where
  "closePosition e tsNY symb reason ttsText exitPrice s =
     (let minAfterOpen = minutes_after (fst (Times s)) tsNY;
          s = UpsertTicker symb (exited tsNY minAfterOpen reason exitPrice) s;
          (audioID, s) = say e tsNY ttsText s
      in emit e tsNY reason symb ttsText audioID ''signal'' s)"

section \<open>Trades\<close>

definition vwap_update :: "float64 \<Rightarrow> float64 \<Rightarrow> ticker_state \<Rightarrow> ticker_state" where
  "vwap_update price sz t =
     (let t = t\<lparr>CumPV := CumPV t + price * sz, CumV := CumV t + sz\<rparr>
      in if 0 < CumV t then t\<lparr>VWAP := CumPV t / CumV t\<rparr> else t)"

definition track_excursion :: "gotime \<Rightarrow> float64 \<Rightarrow> ticker_state \<Rightarrow> ticker_state" where
  "track_excursion trNY price t =
     (if HasPosition t \<and> \<not> IsZero (EntryTime t) \<and> \<not> trNY < EntryTime t
      then let t = (if feq (MaxPriceSinceEntry t) 0 \<or> MaxPriceSinceEntry t < price
                    then t\<lparr>MaxPriceSinceEntry := price, MaxPriceSinceEntryTime := trNY\<rparr> else t)
           in if feq (MinPriceSinceEntry t) 0 \<or> price < MinPriceSinceEntry t
              then t\<lparr>MinPriceSinceEntry := price, MinPriceSinceEntryTime := trNY\<rparr> else t
      else t)"

definition trade_update :: "gotime \<Rightarrow> float64 \<Rightarrow> float64 \<Rightarrow> float64 \<Rightarrow> ticker_state \<Rightarrow> ticker_state" where
  "trade_update trNY minAfterOpen price sz t =
     (let t = t\<lparr>LastTrade := trNY, MinutesAfterOpen := minAfterOpen\<rparr>;
          t = t\<lparr>PrevPrice := LastPrice t, PrevVWAP := VWAP t\<rparr>;
          t = vwap_update price sz t;
          t = t\<lparr>LastPrice := price\<rparr>
      in track_excursion trNY price t)"

definition cross_now :: "ticker_state \<Rightarrow> float64 \<Rightarrow> bool" where
  "cross_now ts price \<longleftrightarrow>
     0 < PrevPrice ts \<and> 0 < PrevVWAP ts \<and> PrevPrice ts < PrevVWAP ts \<and> VWAP ts \<le> price"

definition mark_cross :: "gotime \<Rightarrow> float64 \<Rightarrow> ticker_state \<Rightarrow> ticker_state" where
  "mark_cross trNY price t =
     (if \<not> SawCrossInWindow t
      then t\<lparr>SawCrossInWindow := True, FirstCrossTime := trNY, FirstCrossPrice := price\<rparr> else t)"

text \<open>The early returns of the entry logic, in the order of the code.\<close>

definition entry_rejected ::
  "runtime_filters \<Rightarrow> gotime \<Rightarrow> gotime \<Rightarrow> gotime \<Rightarrow> float64 \<Rightarrow> ticker_state \<Rightarrow> float64 \<Rightarrow> bool" where
  "entry_rejected f selNY cutoffNY trNY minAfterOpen ts price \<longleftrightarrow>
     trNY < selNY
     \<or> \<not> trNY < cutoffNY
     \<or> (minAfterOpen < of_int64 (EntryMinAfterOpen f)
        \<or> of_int64 (EntryMaxAfterOpen f) + rnd (999 / 1000) < minAfterOpen)
     \<or> (Open5mRangePct ts < Open5mRangePctMin f \<or> Open5mRangePctMax f < Open5mRangePct ts)
     \<or> (Open5mVol ts < Open5mVolMin f \<or> Open5mVolMax f < Open5mVol ts)
     \<or> (Open5mTodayPct ts < Open5mTodayPctMin f \<or> Open5mTodayPctMax f < Open5mTodayPct ts)
     \<or> (price < EntryPriceMin f \<or> EntryPriceMax f < price)
     \<or> \<not> (0 < VWAP ts \<and> VWAP ts \<le> price)"

definition manage_position ::
  "engine \<Rightarrow> gotime \<Rightarrow> string \<Rightarrow> float64 \<Rightarrow> ticker_state \<Rightarrow> store \<Rightarrow> store" where
  "manage_position e trNY symb price ts s =
     (if TakeProfitPrice ts \<le> price \<and> 0 < TakeProfitPrice ts
      then closePosition e trNY symb ''PROFIT'' (''PROFIT! '' @ symb) price s
      else if price \<le> StopPrice ts \<and> 0 < StopPrice ts
      then closePosition e trNY symb ''STOP'' (''STOP LOSS HIT! '' @ symb) price s
      else s)"

text \<open>The part of \<open>processTrade\<close> after the ticker has been read back as \<open>ts\<close>.\<close>

definition act_on_trade ::
  "engine \<Rightarrow> gotime \<Rightarrow> gotime \<Rightarrow> gotime \<Rightarrow> gotime \<Rightarrow> float64 \<Rightarrow> string \<Rightarrow> float64 \<Rightarrow> bool
     \<Rightarrow> ticker_state \<Rightarrow> store \<Rightarrow> store" where
  "act_on_trade e openNY selNY cutoffNY trNY minAfterOpen symb price allowActions ts s =
     (let f = Filters s;
          crossStartNY = openNY + 1 * minute_ns;
          crossNow = cross_now ts price;
          mark = (\<not> HasPosition ts \<and> \<not> Exited ts \<and> \<not> SawCrossInWindow ts \<and> crossNow
                  \<and> \<not> trNY < crossStartNY \<and> trNY < cutoffNY);
          sawCross = (SawCrossInWindow ts \<or> mark);
          s = (if mark then UpsertTicker symb (mark_cross trNY price) s else s)
      in if allowActions \<and> \<not> HasPosition ts \<and> \<not> Exited ts
         then if entry_rejected f selNY cutoffNY trNY minAfterOpen ts price then s
              else if sawCross then openPosition e trNY symb price s else s
         else if allowActions \<and> HasPosition ts \<and> \<not> Exited ts
         then manage_position e trNY symb price ts s
         else s)"

definition processTrade ::
  "engine \<Rightarrow> gotime \<Rightarrow> gotime \<Rightarrow> gotime \<Rightarrow> gotime \<Rightarrow> string \<Rightarrow> int \<Rightarrow> float64 \<Rightarrow> float64 \<Rightarrow> bool
     \<Rightarrow> store \<Rightarrow> store" where
  "processTrade e openNY selNY cutoffNY exitNY symb tsMillis price sz allowActions s =
     (if symb = [] then s
      else if GetTicker s symb = None then s
      else let trNY = UnixMilli tsMillis
           in if trNY < openNY \<or> exitNY + 5 * minute_ns < trNY then s
              else if price \<le> 0 \<or> sz \<le> 0 then s
              else let minAfterOpen = minutes_after openNY trNY;
                       s = UpsertTicker symb (trade_update trNY minAfterOpen price sz) s
                   in case GetTicker s symb of
                        None \<Rightarrow> s
                      | Some ts \<Rightarrow>
                          act_on_trade e openNY selNY cutoffNY trNY minAfterOpen symb price allowActions ts s)"

definition onTrade ::
  "engine \<Rightarrow> gotime \<Rightarrow> gotime \<Rightarrow> gotime \<Rightarrow> gotime \<Rightarrow> equity_trade \<Rightarrow> store \<Rightarrow> store" where
  "onTrade e openNY selNY cutoffNY exitNY tr s =
     processTrade e openNY selNY cutoffNY exitNY (et_Symbol tr) (et_Timestamp tr) (et_Price tr)
       (of_int64 (et_Size tr)) True s"

section \<open>The 11 o'clock close\<close>

definition close_price :: "ticker_state \<Rightarrow> float64" where
  "close_price t = (if LastPrice t \<le> 0 then EntryPrice t else LastPrice t)"

definition close_if_open :: "engine \<Rightarrow> gotime \<Rightarrow> string \<Rightarrow> string \<Rightarrow> store \<Rightarrow> store" where
  "close_if_open e tsNY lead symb s =
     (case GetTicker s symb of
        None \<Rightarrow> s
      | Some t \<Rightarrow>
          if HasPosition t \<and> \<not> Exited t
          then closePosition e tsNY symb ''TIME_EXIT'' (lead @ symb) (close_price t) s
          else s)"

definition onElevenAM :: "engine \<Rightarrow> gotime \<Rightarrow> store \<Rightarrow> store" where
  "onElevenAM e tsNY s =
     (let (audioID, s) = say e tsNY ''Eleven a.m. close'' s;
          s = emit e tsNY ''11AM'' [] ''11am close'' audioID ''info'' s;
          wl = Watchlist s
      in fold (close_if_open e tsNY ''11am close. '') wl s)"

definition closeAllOpenPositionsAt :: "engine \<Rightarrow> gotime \<Rightarrow> store \<Rightarrow> store" where
  "closeAllOpenPositionsAt e tsNY s =
     fold (close_if_open e tsNY (''Close at '' @ fmt_hm (e_loc e) tsNY @ ''. '')) (Watchlist s) s"

section \<open>What a trade does to one ticker\<close>

text \<open>
  The abstract specification of the trade handler: a function of the ticker it concerns. The
  store-level handler reads and writes that ticker through the store's interface, announces what
  it did in the event list, and touches nothing else; \<open>get_processTrade\<close> below is the refinement.
\<close>

definition manage_cell :: "gotime \<Rightarrow> float64 \<Rightarrow> float64 \<Rightarrow> ticker_state \<Rightarrow> ticker_state" where
  "manage_cell trNY minutes price t =
     (if TakeProfitPrice t \<le> price \<and> 0 < TakeProfitPrice t then exited trNY minutes ''PROFIT'' price t
      else if price \<le> StopPrice t \<and> 0 < StopPrice t then exited trNY minutes ''STOP'' price t
      else t)"

definition crossed_cell ::
  "gotime \<Rightarrow> gotime \<Rightarrow> gotime \<Rightarrow> float64 \<Rightarrow> ticker_state \<Rightarrow> ticker_state" where
  "crossed_cell openNY cutoffNY trNY price t =
     (if \<not> HasPosition t \<and> \<not> Exited t \<and> \<not> SawCrossInWindow t \<and> cross_now t price
         \<and> openNY + minute_ns \<le> trNY \<and> trNY < cutoffNY
      then mark_cross trNY price t else t)"

definition act_cell ::
  "engine \<Rightarrow> runtime_filters \<Rightarrow> gotime \<Rightarrow> gotime \<Rightarrow> gotime \<Rightarrow> float64 \<Rightarrow> float64 \<Rightarrow> float64
     \<Rightarrow> ticker_state \<Rightarrow> ticker_state" where
  "act_cell e f selNY cutoffNY trNY minAfterOpen minutes price t =
     (if \<not> HasPosition t \<and> \<not> Exited t
      then if \<not> entry_rejected f selNY cutoffNY trNY minAfterOpen t price \<and> SawCrossInWindow t
           then entered e trNY minutes price t else t
      else if HasPosition t \<and> \<not> Exited t then manage_cell trNY minutes price t
      else t)"

definition accepted :: "gotime \<Rightarrow> gotime \<Rightarrow> gotime \<Rightarrow> float64 \<Rightarrow> float64 \<Rightarrow> bool" where
  "accepted openNY exitNY trNY price sz \<longleftrightarrow>
     openNY \<le> trNY \<and> trNY \<le> exitNY + 5 * minute_ns \<and> \<not> price \<le> 0 \<and> \<not> sz \<le> 0"

definition trade_cell ::
  "engine \<Rightarrow> runtime_filters \<Rightarrow> gotime \<Rightarrow> gotime \<Rightarrow> gotime \<Rightarrow> gotime \<Rightarrow> gotime \<Rightarrow> int
     \<Rightarrow> float64 \<Rightarrow> float64 \<Rightarrow> bool \<Rightarrow> ticker_state \<Rightarrow> ticker_state" where
  "trade_cell e f storeOpen openNY selNY cutoffNY exitNY tsMillis price sz allowActions t =
     (let trNY = UnixMilli tsMillis
      in if \<not> accepted openNY exitNY trNY price sz then t
         else let t = crossed_cell openNY cutoffNY trNY price
                        (trade_update trNY (minutes_after openNY trNY) price sz t)
              in if allowActions
                 then act_cell e f selNY cutoffNY trNY (minutes_after openNY trNY)
                        (minutes_after storeOpen trNY) price t
                 else t)"

lemma mark_cross_fields [simp]:
  "HasPosition (mark_cross u p t) = HasPosition t" "Exited (mark_cross u p t) = Exited t"
  "VWAP (mark_cross u p t) = VWAP t" "Open5mRangePct (mark_cross u p t) = Open5mRangePct t"
  "Open5mVol (mark_cross u p t) = Open5mVol t" "Open5mTodayPct (mark_cross u p t) = Open5mTodayPct t"
  "TakeProfitPrice (mark_cross u p t) = TakeProfitPrice t" "StopPrice (mark_cross u p t) = StopPrice t"
  "SawCrossInWindow (mark_cross u p t)" "Symbol (mark_cross u p t) = Symbol t"
  by (simp_all add: mark_cross_def)

lemma crossed_cell_fields [simp]:
  "HasPosition (crossed_cell a b u p t) = HasPosition t" "Exited (crossed_cell a b u p t) = Exited t"
  "VWAP (crossed_cell a b u p t) = VWAP t" "TakeProfitPrice (crossed_cell a b u p t) = TakeProfitPrice t"
  "StopPrice (crossed_cell a b u p t) = StopPrice t" "Symbol (crossed_cell a b u p t) = Symbol t"
  "Open5mRangePct (crossed_cell a b u p t) = Open5mRangePct t"
  "Open5mVol (crossed_cell a b u p t) = Open5mVol t"
  "Open5mTodayPct (crossed_cell a b u p t) = Open5mTodayPct t"
  "entry_rejected f u1 u2 u3 m (crossed_cell a b u p t) q = entry_rejected f u1 u2 u3 m t q"
  by (simp_all add: crossed_cell_def entry_rejected_def)

lemma get_openPosition:
  "GetTicker (openPosition e u symb p s) k =
     (if k = symb
      then Some (entered e u (minutes_after (fst (Times s)) u) p
                  (case GetTicker s symb of None \<Rightarrow> new_ticker symb | Some t \<Rightarrow> t))
      else GetTicker s k)"
  by (simp add: openPosition_def Let_def case_prod_unfold frame_simps cells.get_upd)

lemma get_closePosition:
  "GetTicker (closePosition e u symb r txt p s) k =
     (if k = symb
      then Some (exited u (minutes_after (fst (Times s)) u) r p
                  (case GetTicker s symb of None \<Rightarrow> new_ticker symb | Some t \<Rightarrow> t))
      else GetTicker s k)"
  by (simp add: closePosition_def Let_def case_prod_unfold frame_simps cells.get_upd)

lemma get_manage_position:
  assumes "GetTicker s symb = Some t" and "TakeProfitPrice ts = TakeProfitPrice t" "StopPrice ts = StopPrice t"
  shows "GetTicker (manage_position e u symb p ts s) k =
     (if k = symb then Some (manage_cell u (minutes_after (fst (Times s)) u) p t) else GetTicker s k)"
  using assms by (auto simp: manage_position_def manage_cell_def get_closePosition)

lemma processTrade_no_symbol: "processTrade e a b c d [] ms p z al s = s"
  by (simp add: processTrade_def)

lemma get_act_other:
  "k \<noteq> symb \<Longrightarrow> GetTicker (act_on_trade e a b c u m symb p al ts s) k = GetTicker s k"
  by (simp add: act_on_trade_def Let_def get_openPosition manage_position_def get_closePosition
      cells.get_upd)

lemma get_processTrade_other:
  "k \<noteq> symb \<Longrightarrow> GetTicker (processTrade e a b c d symb ms p z al s) k = GetTicker s k"
  by (simp add: processTrade_def Let_def get_act_other cells.get_upd split: option.splits)

lemma get_act_on_trade:
  assumes g: "GetTicker s symb = Some ts"
  shows "GetTicker (act_on_trade e a b c u m symb p al ts s) symb =
     Some (let t = crossed_cell a c u p ts
           in if al then act_cell e (Filters s) b c u m (minutes_after (fst (Times s)) u) p t else t)"
proof -
  define mark where "mark \<longleftrightarrow> \<not> HasPosition ts \<and> \<not> Exited ts \<and> \<not> SawCrossInWindow ts \<and> cross_now ts p
     \<and> a + minute_ns \<le> u \<and> u < c"
  define s2 where "s2 = (if mark then UpsertTicker symb (mark_cross u p) s else s)"
  define t2 where "t2 = crossed_cell a c u p ts"
  have g2: "GetTicker s2 symb = Some t2"
    using g by (simp add: s2_def t2_def mark_def cells.get_upd crossed_cell_def)
  have saw: "SawCrossInWindow t2 \<longleftrightarrow> SawCrossInWindow ts \<or> mark"
    by (auto simp: t2_def mark_def crossed_cell_def)
  have tm: "Times s2 = Times s" by (simp add: s2_def frame_simps)
  have t2: "HasPosition t2 = HasPosition ts" "Exited t2 = Exited ts"
    "TakeProfitPrice ts = TakeProfitPrice t2" "StopPrice ts = StopPrice t2"
    "entry_rejected f b c u m ts p = entry_rejected f b c u m t2 p" for f
    by (simp_all add: t2_def)
  have act: "act_on_trade e a b c u m symb p al ts s =
     (if al \<and> \<not> HasPosition ts \<and> \<not> Exited ts
      then if entry_rejected (Filters s) b c u m ts p then s2
           else if SawCrossInWindow ts \<or> mark then openPosition e u symb p s2 else s2
      else if al \<and> HasPosition ts \<and> \<not> Exited ts then manage_position e u symb p ts s2
      else s2)"
    unfolding act_on_trade_def Let_def not_less mult_1 s2_def mark_def by (rule refl)
  have man: "GetTicker (manage_position e u symb p ts s2) symb
      = Some (manage_cell u (minutes_after (fst (Times s)) u) p t2)"
    using get_manage_position [OF g2 t2(3,4)] by (simp add: tm)
  have opn: "GetTicker (openPosition e u symb p s2) symb
      = Some (entered e u (minutes_after (fst (Times s)) u) p t2)"
    using g2 by (simp add: get_openPosition tm)
  have cell: "act_cell e (Filters s) b c u m (minutes_after (fst (Times s)) u) p t2 =
     (if \<not> HasPosition ts \<and> \<not> Exited ts
      then if \<not> entry_rejected (Filters s) b c u m ts p \<and> (SawCrossInWindow ts \<or> mark)
           then entered e u (minutes_after (fst (Times s)) u) p t2 else t2
      else if HasPosition ts \<and> \<not> Exited ts
      then manage_cell u (minutes_after (fst (Times s)) u) p t2 else t2)"
    unfolding act_cell_def t2(1,2,5) saw ..
  show ?thesis
    unfolding act t2_def [symmetric] Let_def cell
    by (cases al; cases "HasPosition ts"; cases "Exited ts";
        cases "entry_rejected (Filters s) b c u m ts p"; cases "SawCrossInWindow ts \<or> mark")
      (simp_all only: g2 man opn simp_thms if_True if_False)
qed

lemma get_processTrade:
  assumes "symb \<noteq> []"
  shows "GetTicker (processTrade e a b c d symb ms p z al s) symb =
     map_option (trade_cell e (Filters s) (fst (Times s)) a b c d ms p z al) (GetTicker s symb)"
proof (cases "GetTicker s symb")
  case None
  with assms show ?thesis by (simp add: processTrade_def)
next
  case (Some t)
  let ?u = "UnixMilli ms"
  let ?s1 = "UpsertTicker symb (trade_update ?u (minutes_after a ?u) p z) s"
  have g1: "GetTicker ?s1 symb = Some (trade_update ?u (minutes_after a ?u) p z t)"
    using Some by (simp add: cells.get_upd)
  show ?thesis
    using Some assms get_act_on_trade [OF g1]
    by (auto simp: processTrade_def trade_cell_def accepted_def Let_def g1 frame_simps)
qed

section \<open>The life of a position\<close>

text \<open>
  \<open>lc t t'\<close>: what later events leave of an earlier state of a ticker. A position once opened stays
  with its entry, target and stop; an exit once taken stays with its reason, time and price; the
  first cross once seen stays the first cross; what the opening and the history computed stays.
\<close>

definition lc :: "ticker_state \<Rightarrow> ticker_state \<Rightarrow> bool" where
  "lc t t' \<longleftrightarrow>
     (HasPosition t \<longrightarrow>
        HasPosition t' \<and> EntryPrice t' = EntryPrice t \<and> EntryTime t' = EntryTime t
        \<and> TakeProfitPrice t' = TakeProfitPrice t \<and> StopPrice t' = StopPrice t
        \<and> EntryMinutesAfterOpen t' = EntryMinutesAfterOpen t)
     \<and> (Exited t \<longrightarrow>
        Exited t' \<and> ExitReason t' = ExitReason t \<and> ExitTime t' = ExitTime t
        \<and> ExitPrice t' = ExitPrice t \<and> ExitMinutesAfterOpen t' = ExitMinutesAfterOpen t
        \<and> HasPosition t' = HasPosition t)
     \<and> (SawCrossInWindow t \<longrightarrow>
        SawCrossInWindow t' \<and> FirstCrossTime t' = FirstCrossTime t
        \<and> FirstCrossPrice t' = FirstCrossPrice t)
     \<and> Symbol t' = Symbol t \<and> Open0930 t' = Open0930 t \<and> Open5mVol t' = Open5mVol t
     \<and> Open5mRangePct t' = Open5mRangePct t \<and> Open5mTodayPct t' = Open5mTodayPct t"

lemma lc_refl [simp]: "lc t t"
  by (simp add: lc_def)

lemma lc_trans: "lc a b \<Longrightarrow> lc b c \<Longrightarrow> lc a c"
  by (simp add: lc_def)

lemma vwap_update_fields [simp]:
  "HasPosition (vwap_update p z t) = HasPosition t" "Exited (vwap_update p z t) = Exited t"
  "SawCrossInWindow (vwap_update p z t) = SawCrossInWindow t"
  "EntryPrice (vwap_update p z t) = EntryPrice t" "EntryTime (vwap_update p z t) = EntryTime t"
  "TakeProfitPrice (vwap_update p z t) = TakeProfitPrice t" "StopPrice (vwap_update p z t) = StopPrice t"
  "PrevPrice (vwap_update p z t) = PrevPrice t" "PrevVWAP (vwap_update p z t) = PrevVWAP t"
  "CumPV (vwap_update p z t) = CumPV t + p * z" "CumV (vwap_update p z t) = CumV t + z"
  "VWAP (vwap_update p z t) =
     (if 0 < CumV t + z then (CumPV t + p * z) / (CumV t + z) else VWAP t)"
  "Open5mRangePct (vwap_update p z t) = Open5mRangePct t" "Open5mVol (vwap_update p z t) = Open5mVol t"
  "Open5mTodayPct (vwap_update p z t) = Open5mTodayPct t" "Symbol (vwap_update p z t) = Symbol t"
  "ExitReason (vwap_update p z t) = ExitReason t" "ExitPrice (vwap_update p z t) = ExitPrice t"
  "ExitTime (vwap_update p z t) = ExitTime t" "Open0930 (vwap_update p z t) = Open0930 t"
  "ExitMinutesAfterOpen (vwap_update p z t) = ExitMinutesAfterOpen t"
  "EntryMinutesAfterOpen (vwap_update p z t) = EntryMinutesAfterOpen t"
  "FirstCrossTime (vwap_update p z t) = FirstCrossTime t"
  "FirstCrossPrice (vwap_update p z t) = FirstCrossPrice t"
  "MaxPriceSinceEntry (vwap_update p z t) = MaxPriceSinceEntry t"
  "MinPriceSinceEntry (vwap_update p z t) = MinPriceSinceEntry t"
  by (simp_all add: vwap_update_def Let_def)

lemma track_excursion_fields [simp]:
  "HasPosition (track_excursion u p t) = HasPosition t" "Exited (track_excursion u p t) = Exited t"
  "SawCrossInWindow (track_excursion u p t) = SawCrossInWindow t"
  "EntryPrice (track_excursion u p t) = EntryPrice t" "EntryTime (track_excursion u p t) = EntryTime t"
  "TakeProfitPrice (track_excursion u p t) = TakeProfitPrice t"
  "StopPrice (track_excursion u p t) = StopPrice t" "LastPrice (track_excursion u p t) = LastPrice t"
  "PrevPrice (track_excursion u p t) = PrevPrice t" "PrevVWAP (track_excursion u p t) = PrevVWAP t"
  "CumPV (track_excursion u p t) = CumPV t" "CumV (track_excursion u p t) = CumV t"
  "VWAP (track_excursion u p t) = VWAP t"
  "Open5mRangePct (track_excursion u p t) = Open5mRangePct t"
  "Open5mVol (track_excursion u p t) = Open5mVol t"
  "Open5mTodayPct (track_excursion u p t) = Open5mTodayPct t" "Symbol (track_excursion u p t) = Symbol t"
  "ExitReason (track_excursion u p t) = ExitReason t" "ExitPrice (track_excursion u p t) = ExitPrice t"
  "ExitTime (track_excursion u p t) = ExitTime t" "Open0930 (track_excursion u p t) = Open0930 t"
  "ExitMinutesAfterOpen (track_excursion u p t) = ExitMinutesAfterOpen t"
  "EntryMinutesAfterOpen (track_excursion u p t) = EntryMinutesAfterOpen t"
  "FirstCrossTime (track_excursion u p t) = FirstCrossTime t"
  "FirstCrossPrice (track_excursion u p t) = FirstCrossPrice t"
  by (simp_all add: track_excursion_def Let_def)

lemma trade_update_fields [simp]:
  "HasPosition (trade_update u m p z t) = HasPosition t" "Exited (trade_update u m p z t) = Exited t"
  "SawCrossInWindow (trade_update u m p z t) = SawCrossInWindow t"
  "EntryPrice (trade_update u m p z t) = EntryPrice t" "EntryTime (trade_update u m p z t) = EntryTime t"
  "TakeProfitPrice (trade_update u m p z t) = TakeProfitPrice t"
  "StopPrice (trade_update u m p z t) = StopPrice t" "LastPrice (trade_update u m p z t) = p"
  "PrevPrice (trade_update u m p z t) = LastPrice t" "PrevVWAP (trade_update u m p z t) = VWAP t"
  "CumPV (trade_update u m p z t) = CumPV t + p * z" "CumV (trade_update u m p z t) = CumV t + z"
  "VWAP (trade_update u m p z t) =
     (if 0 < CumV t + z then (CumPV t + p * z) / (CumV t + z) else VWAP t)"
  "Open5mRangePct (trade_update u m p z t) = Open5mRangePct t"
  "Open5mVol (trade_update u m p z t) = Open5mVol t"
  "Open5mTodayPct (trade_update u m p z t) = Open5mTodayPct t" "Symbol (trade_update u m p z t) = Symbol t"
  "ExitReason (trade_update u m p z t) = ExitReason t" "ExitPrice (trade_update u m p z t) = ExitPrice t"
  "ExitTime (trade_update u m p z t) = ExitTime t" "Open0930 (trade_update u m p z t) = Open0930 t"
  "ExitMinutesAfterOpen (trade_update u m p z t) = ExitMinutesAfterOpen t"
  "EntryMinutesAfterOpen (trade_update u m p z t) = EntryMinutesAfterOpen t"
  "FirstCrossTime (trade_update u m p z t) = FirstCrossTime t"
  "FirstCrossPrice (trade_update u m p z t) = FirstCrossPrice t"
  by (simp_all add: trade_update_def Let_def)

lemma lc_trade_update: "lc t (trade_update u m p z t)"
  by (simp add: lc_def)

lemma lc_crossed: "lc t (crossed_cell a b u p t)"
  by (simp add: lc_def crossed_cell_def mark_cross_def)

lemma lc_manage: "\<not> Exited t \<Longrightarrow> lc t (manage_cell u m p t)"
  by (simp add: lc_def manage_cell_def exited_def)

lemma lc_act: "lc t (act_cell e f a b u m m' p t)"
  by (auto simp: act_cell_def entered_def lc_manage) (simp_all add: lc_def)

lemma lc_trade_cell: "lc t (trade_cell e f so a b c d ms p z al t)"
  unfolding trade_cell_def Let_def
  by (auto intro: lc_trans [OF lc_trade_update lc_crossed]
      lc_trans [OF lc_trans [OF lc_trade_update lc_crossed] lc_act])

lemma lc_exited: "\<not> Exited t \<Longrightarrow> lc t (exited u m r p t)"
  by (simp add: lc_def exited_def)

definition lc_store :: "store \<Rightarrow> store \<Rightarrow> bool" where
  "lc_store s s' \<longleftrightarrow>
     (\<forall>k t. GetTicker s k = Some t \<longrightarrow> (\<exists>t'. GetTicker s' k = Some t' \<and> lc t t'))"

lemma lc_store_refl [simp]: "lc_store s s"
  by (simp add: lc_store_def)

lemma lc_store_trans: "lc_store a b \<Longrightarrow> lc_store b c \<Longrightarrow> lc_store a c"
  unfolding lc_store_def using lc_trans by blast

lemma lc_store_processTrade: "lc_store s (processTrade e a b c d symb ms p z al s)"
  unfolding lc_store_def
proof (intro allI impI)
  fix k t assume t: "GetTicker s k = Some t"
  show "\<exists>t'. GetTicker (processTrade e a b c d symb ms p z al s) k = Some t' \<and> lc t t'"
  proof (cases "k = symb \<and> symb \<noteq> []")
    case True
    with t show ?thesis by (simp add: get_processTrade lc_trade_cell)
  next
    case False
    then have "GetTicker (processTrade e a b c d symb ms p z al s) k = GetTicker s k"
      by (cases "symb = []") (simp_all add: processTrade_no_symbol get_processTrade_other)
    with t show ?thesis by simp
  qed
qed

section \<open>The time exit\<close>

definition timed_out :: "gotime \<Rightarrow> float64 \<Rightarrow> ticker_state \<Rightarrow> ticker_state" where
  "timed_out u m t =
     (if HasPosition t \<and> \<not> Exited t then exited u m ''TIME_EXIT'' (close_price t) t else t)"

lemma get_close_if_open:
  "GetTicker (close_if_open e u lead symb s) k =
     (if k = symb then map_option (timed_out u (minutes_after (fst (Times s)) u)) (GetTicker s k)
      else GetTicker s k)"
  by (auto simp: close_if_open_def timed_out_def get_closePosition split: option.splits)

lemma closePosition_frame [frame_simps]:
  "Times (closePosition e u symb r txt p s) = Times s"
  "Filters (closePosition e u symb r txt p s) = Filters s"
  "settings (closePosition e u symb r txt p s) = settings s"
  "phase (closePosition e u symb r txt p s) = phase s"
  by (simp_all add: closePosition_def Let_def case_prod_unfold frame_simps)

lemma openPosition_frame [frame_simps]:
  "Times (openPosition e u symb p s) = Times s"
  "Filters (openPosition e u symb p s) = Filters s"
  "settings (openPosition e u symb p s) = settings s"
  "phase (openPosition e u symb p s) = phase s"
  by (simp_all add: openPosition_def Let_def case_prod_unfold frame_simps)

lemma processTrade_frame [frame_simps]:
  "Times (processTrade e a b c d symb ms p z al s) = Times s"
  "Filters (processTrade e a b c d symb ms p z al s) = Filters s"
  "settings (processTrade e a b c d symb ms p z al s) = settings s"
  "phase (processTrade e a b c d symb ms p z al s) = phase s"
  by (simp_all add: processTrade_def act_on_trade_def manage_position_def Let_def frame_simps
      split: option.splits)

lemma close_if_open_frame [frame_simps]:
  "Times (close_if_open e u lead symb s) = Times s"
  "settings (close_if_open e u lead symb s) = settings s"
  "phase (close_if_open e u lead symb s) = phase s"
  by (simp_all add: close_if_open_def frame_simps split: option.splits)

lemma timed_out_idem [simp]: "timed_out u m (timed_out u m t) = timed_out u m t"
  by (simp add: timed_out_def exited_def)

lemma get_close_all:
  "GetTicker (fold (close_if_open e u lead) wl s) k =
     (if k \<in> set wl then map_option (timed_out u (minutes_after (fst (Times s)) u)) (GetTicker s k)
      else GetTicker s k)"
proof (induction wl arbitrary: s)
  case Nil
  then show ?case by simp
next
  case (Cons w wl)
  then show ?case
    by (auto simp: get_close_if_open frame_simps option.map_comp comp_def)
qed

lemma lc_timed_out: "lc t (timed_out u m t)"
  by (simp add: timed_out_def lc_exited)

lemma get_onElevenAM:
  "GetTicker (onElevenAM e u s) k =
     (if k \<in> set (watchlist s)
      then map_option (timed_out u (minutes_after (fst (Times s)) u)) (GetTicker s k)
      else GetTicker s k)"
  by (simp add: onElevenAM_def Let_def case_prod_unfold get_close_all frame_simps Watchlist_def)

lemma close_all_frame [frame_simps]:
  "Times (fold (close_if_open e u lead) wl s) = Times s"
  "settings (fold (close_if_open e u lead) wl s) = settings s"
  "phase (fold (close_if_open e u lead) wl s) = phase s"
  by (induction wl arbitrary: s) (simp_all add: frame_simps)

lemma onElevenAM_frame [frame_simps]:
  "Times (onElevenAM e u s) = Times s" "settings (onElevenAM e u s) = settings s"
  "phase (onElevenAM e u s) = phase s"
  by (simp_all add: onElevenAM_def Let_def case_prod_unfold frame_simps)

lemma get_closeAllOpenPositionsAt:
  "GetTicker (closeAllOpenPositionsAt e u s) k =
     (if k \<in> set (watchlist s)
      then map_option (timed_out u (minutes_after (fst (Times s)) u)) (GetTicker s k)
      else GetTicker s k)"
  by (simp add: closeAllOpenPositionsAt_def get_close_all Watchlist_def)

lemma lc_store_onElevenAM: "lc_store s (onElevenAM e u s)"
  unfolding lc_store_def get_onElevenAM using lc_timed_out by auto

section \<open>Sessions\<close>

text \<open>
  The tracking phase as a sequence of events: trades (with and without permission to act) and the
  time exit, each handled to completion before the next.
\<close>

datatype session_event =
  Trade string int float64 float64 bool
| TimeExit gotime

fun session_step ::
  "engine \<Rightarrow> gotime \<times> gotime \<times> gotime \<times> gotime \<Rightarrow> session_event \<Rightarrow> store \<Rightarrow> store" where
  "session_step e (a, b, c, d) (Trade symb ms p z al) s = processTrade e a b c d symb ms p z al s"
| "session_step e w (TimeExit u) s = onElevenAM e u s"

lemma session_step_lc: "lc_store s (session_step e w ev s)"
  by (cases ev; cases w) (simp_all add: lc_store_processTrade lc_store_onElevenAM)

interpretation session: monotone_steps "session_step e w" lc_store for e w
  by unfold_locales (auto intro: lc_store_trans session_step_lc)

section \<open>Entry and exit, one ticker\<close>

lemma act_cell_enters:
  assumes "\<not> HasPosition t" and "HasPosition (act_cell e f b c u m m' p t)"
  shows "\<not> entry_rejected f b c u m t p \<and> SawCrossInWindow t \<and> act_cell e f b c u m m' p t = entered e u m' p t"
  using assms by (auto simp: act_cell_def split: if_splits)

lemma act_cell_exits:
  assumes "\<not> Exited t" and "Exited (act_cell e f b c u m m' p t)"
  shows "HasPosition t \<and> act_cell e f b c u m m' p t = manage_cell u m' p t"
  using assms by (auto simp: act_cell_def entered_def split: if_splits)

lemma Exited_manage_iff:
  "\<not> Exited t \<Longrightarrow> Exited (manage_cell u m p t) \<longleftrightarrow>
     TakeProfitPrice t \<le> p \<and> 0 < TakeProfitPrice t \<or> p \<le> StopPrice t \<and> 0 < StopPrice t"
  by (simp add: manage_cell_def exited_def)

lemma manage_cell_exit:
  assumes "\<not> Exited t" and "Exited (manage_cell u m p t)"
  shows "ExitPrice (manage_cell u m p t) = p \<and> ExitTime (manage_cell u m p t) = u
    \<and> (ExitReason (manage_cell u m p t) = ''PROFIT'' \<and> TakeProfitPrice t \<le> p
       \<or> ExitReason (manage_cell u m p t) = ''STOP'' \<and> p \<le> StopPrice t)"
  using assms by (auto simp: manage_cell_def exited_def split: if_splits)

lemma trade_cell_lifecycle_frame:
  "\<not> al \<Longrightarrow> HasPosition (trade_cell e f so a b c d ms p z al t) = HasPosition t
     \<and> Exited (trade_cell e f so a b c d ms p z al t) = Exited t"
  by (simp add: trade_cell_def Let_def)

section \<open>The invariant of a position\<close>

text \<open>
  A position has a positive entry price between its stop and its target and between the extremes
  seen since; a profit exit is not below the entry, a stop exit not above it. Rounding does not
  break this: the products are rounded monotonically.
\<close>

definition pos_inv :: "ticker_state \<Rightarrow> bool" where
  "pos_inv t \<longleftrightarrow>
     (HasPosition t \<longrightarrow>
        0 < EntryPrice t \<and> StopPrice t \<le> EntryPrice t \<and> EntryPrice t \<le> TakeProfitPrice t
        \<and> 0 < MinPriceSinceEntry t \<and> MinPriceSinceEntry t \<le> EntryPrice t
        \<and> EntryPrice t \<le> MaxPriceSinceEntry t)
     \<and> (Exited t \<longrightarrow>
        HasPosition t \<and> ExitReason t \<in> {''PROFIT'', ''STOP'', ''TIME_EXIT''}
        \<and> (ExitReason t = ''PROFIT'' \<longrightarrow> EntryPrice t \<le> ExitPrice t)
        \<and> (ExitReason t = ''STOP'' \<longrightarrow> ExitPrice t \<le> EntryPrice t))"

text \<open>Prices as JSON numbers give them, and risk percentages that are not negative (nor NaN).\<close>

definition data_price :: "float64 \<Rightarrow> bool" where
  "data_price p \<longleftrightarrow> is_fin p \<and> wf64 p"

definition risk_ok :: "engine \<Rightarrow> bool" where
  "risk_ok e \<longleftrightarrow> 0 \<le> TakeProfitPct (cfg_Risk (e_cfg e)) \<and> 0 \<le> StopLossPct (cfg_Risk (e_cfg e))"

lemma entered_bracket:
  assumes "risk_ok e" and "data_price p" and "0 < p"
  shows "StopPrice (entered e u m p t) \<le> p" and "p \<le> TakeProfitPrice (entered e u m p t)"
proof -
  have "1 \<le> 1 + TakeProfitPct (cfg_Risk (e_cfg e))"
    using assms(1) by (intro fplus_ge_left) (auto simp: risk_ok_def one_float64_def)
  then show "p \<le> TakeProfitPrice (entered e u m p t)"
    using assms by (simp add: entered_def data_price_def ftimes_ge_left one_float64_def)
  have "1 - StopLossPct (cfg_Risk (e_cfg e)) \<le> 1"
    using assms(1) by (intro fminus_le_left) (auto simp: risk_ok_def)
  then show "StopPrice (entered e u m p t) \<le> p"
    using assms by (simp add: entered_def data_price_def ftimes_le_left one_float64_def)
qed

lemma pos_inv_entered:
  assumes "risk_ok e" and "data_price p" and "0 < p" and "\<not> Exited t"
  shows "pos_inv (entered e u m p t)"
  using entered_bracket [OF assms(1-3)] assms(3,4) flt_not_nan [OF assms(3)]
  by (auto simp: pos_inv_def entered_def fle_refl_iff)

text \<open>The extremes after a trade: unchanged, or the price itself where it exceeds them.\<close>

lemma track_excursion_extremes:
  assumes "0 < MinPriceSinceEntry t" and "0 < MaxPriceSinceEntry t"
  shows "MaxPriceSinceEntry (track_excursion u p t) =
      (if HasPosition t \<and> \<not> IsZero (EntryTime t) \<and> EntryTime t \<le> u \<and> MaxPriceSinceEntry t < p
       then p else MaxPriceSinceEntry t)"
    and "MinPriceSinceEntry (track_excursion u p t) =
      (if HasPosition t \<and> \<not> IsZero (EntryTime t) \<and> EntryTime t \<le> u \<and> p < MinPriceSinceEntry t
       then p else MinPriceSinceEntry t)"
proof -
  have "\<not> feq (MaxPriceSinceEntry t) 0" "\<not> feq (MinPriceSinceEntry t) 0"
    using assms flt_not_fle unfolding feq_def by blast+
  then show "MaxPriceSinceEntry (track_excursion u p t) =
      (if HasPosition t \<and> \<not> IsZero (EntryTime t) \<and> EntryTime t \<le> u \<and> MaxPriceSinceEntry t < p
       then p else MaxPriceSinceEntry t)"
    and "MinPriceSinceEntry (track_excursion u p t) =
      (if HasPosition t \<and> \<not> IsZero (EntryTime t) \<and> EntryTime t \<le> u \<and> p < MinPriceSinceEntry t
       then p else MinPriceSinceEntry t)"
    by (simp_all add: track_excursion_def Let_def)
qed

lemma pos_inv_max_pos: "pos_inv t \<Longrightarrow> HasPosition t \<Longrightarrow> 0 < MaxPriceSinceEntry t"
  by (auto simp: pos_inv_def intro: flt_fle_trans)

lemma pos_inv_track:
  assumes inv: "pos_inv t" and p: "0 < p"
  shows "pos_inv (track_excursion u p t)"
proof (cases "HasPosition t")
  case False
  then show ?thesis using inv by (simp add: track_excursion_def)
next
  case True
  with inv have b: "0 < MinPriceSinceEntry t" "MinPriceSinceEntry t \<le> EntryPrice t"
    "EntryPrice t \<le> MaxPriceSinceEntry t"
    by (auto simp: pos_inv_def)
  note x = track_excursion_extremes [OF b(1) pos_inv_max_pos [OF inv True], of u p]
  have "0 < MinPriceSinceEntry (track_excursion u p t)" using b p by (simp add: x)
  moreover have "MinPriceSinceEntry (track_excursion u p t) \<le> EntryPrice t"
    using b(2) flt_imp_fle [OF flt_fle_trans [OF _ b(2)]] by (simp add: x)
  moreover have "EntryPrice t \<le> MaxPriceSinceEntry (track_excursion u p t)"
    using b(3) flt_imp_fle [OF fle_flt_trans [OF b(3)]] by (simp add: x)
  ultimately show ?thesis using inv by (simp add: pos_inv_def)
qed

lemma pos_inv_trade_update:
  assumes "pos_inv t" and "0 < p"
  shows "pos_inv (trade_update u m p z t)"
proof -
  have "pos_inv (vwap_update p z (t\<lparr>LastTrade := u, MinutesAfterOpen := m, PrevPrice := LastPrice t,
      PrevVWAP := VWAP t\<rparr>)\<lparr>LastPrice := p\<rparr>)"
    using assms(1) by (simp add: pos_inv_def)
  from pos_inv_track [OF this assms(2), of u] show ?thesis by (simp add: trade_update_def Let_def)
qed

lemma pos_inv_crossed: "pos_inv t \<Longrightarrow> pos_inv (crossed_cell a c u p t)"
  by (simp add: pos_inv_def crossed_cell_def mark_cross_def)

lemma pos_inv_manage:
  assumes "pos_inv t" and "HasPosition t" and "\<not> Exited t"
  shows "pos_inv (manage_cell u m p t)"
proof -
  have b: "EntryPrice t \<le> TakeProfitPrice t" "StopPrice t \<le> EntryPrice t"
    using assms by (auto simp: pos_inv_def)
  show ?thesis
    using assms fle_trans [OF b(1)] fle_trans [OF _ b(2)]
    by (simp add: pos_inv_def manage_cell_def exited_def)
qed

lemma pos_inv_act:
  assumes "risk_ok e" and "data_price p" and "0 < p" and "pos_inv t"
  shows "pos_inv (act_cell e f b c u m m' p t)"
  using assms by (simp add: act_cell_def pos_inv_entered pos_inv_manage)

lemma data_price_pos: "data_price p \<Longrightarrow> \<not> p \<le> 0 \<Longrightarrow> 0 < p"
  using fnot_le [of p 0] by (simp add: data_price_def is_fin_not_nan)

lemma pos_inv_trade_cell:
  assumes "risk_ok e" and "data_price p" and "pos_inv t"
  shows "pos_inv (trade_cell e f so a b c d ms p z al t)"
proof (cases "accepted a d (UnixMilli ms) p z")
  case True
  then have "0 < p" using assms(2) by (simp add: accepted_def data_price_pos)
  then show ?thesis
    using assms by (simp add: trade_cell_def Let_def pos_inv_trade_update pos_inv_crossed pos_inv_act)
next
  case False
  then show ?thesis using assms(3) by (simp add: trade_cell_def)
qed

lemma pos_inv_timed_out: "pos_inv t \<Longrightarrow> pos_inv (timed_out u m t)"
  by (simp add: pos_inv_def timed_out_def exited_def)

lemma pos_inv_new [simp]: "pos_inv (new_ticker k)"
  by (simp add: pos_inv_def new_ticker_def)

definition inv_store :: "store \<Rightarrow> bool" where
  "inv_store s \<longleftrightarrow> (\<forall>k t. GetTicker s k = Some t \<longrightarrow> pos_inv t)"

fun data_event :: "session_event \<Rightarrow> bool" where
  "data_event (Trade symb ms p z al) = data_price p"
| "data_event (TimeExit u) = True"

lemma inv_store_processTrade:
  assumes "risk_ok e" and "data_price p" and "inv_store s"
  shows "inv_store (processTrade e a b c d symb ms p z al s)"
  unfolding inv_store_def
proof (intro allI impI)
  fix k t' assume t': "GetTicker (processTrade e a b c d symb ms p z al s) k = Some t'"
  show "pos_inv t'"
  proof (cases "k = symb \<and> symb \<noteq> []")
    case True
    with t' obtain t where "GetTicker s k = Some t"
      "t' = trade_cell e (Filters s) (fst (Times s)) a b c d ms p z al t"
      by (auto simp: get_processTrade)
    with assms show ?thesis by (auto simp: inv_store_def intro: pos_inv_trade_cell)
  next
    case False
    then have "GetTicker s k = Some t'"
      using t' by (cases "symb = []") (simp_all add: processTrade_no_symbol get_processTrade_other)
    with assms(3) show ?thesis by (simp add: inv_store_def)
  qed
qed

lemma inv_store_onElevenAM: "inv_store s \<Longrightarrow> inv_store (onElevenAM e u s)"
  by (auto simp: inv_store_def get_onElevenAM intro: pos_inv_timed_out split: if_splits)

lemma inv_store_step:
  "risk_ok e \<Longrightarrow> data_event ev \<Longrightarrow> inv_store s \<Longrightarrow> inv_store (session_step e w ev s)"
  by (cases ev; cases w) (simp_all add: inv_store_processTrade inv_store_onElevenAM)

text \<open>The guard on the engine becomes part of the event, so that the locale's law has no other premise.\<close>

interpretation positions: invariant_steps "session_step e w" "\<lambda>ev. risk_ok e \<and> data_event ev" inv_store for e w
  by unfold_locales (simp add: inv_store_step)

section \<open>VWAP over a run\<close>

text \<open>
  The trades of a run that count for one symbol, and the volume-weighted price as a batch
  computation: the price-volume and volume sums, each rounded from left to right, and their
  quotient.
\<close>

fun counted ::
  "gotime \<times> gotime \<times> gotime \<times> gotime \<Rightarrow> string \<Rightarrow> session_event list \<Rightarrow> (float64 \<times> float64) list" where
  "counted w k [] = []"
| "counted (a, b, c, d) k (Trade symb ms p z al # es) =
     (if symb = k \<and> accepted a d (UnixMilli ms) p z then [(p, z)] else []) @ counted (a, b, c, d) k es"
| "counted w k (TimeExit u # es) = counted w k es"

definition sum_pv :: "float64 \<Rightarrow> (float64 \<times> float64) list \<Rightarrow> float64" where
  "sum_pv = foldl (\<lambda>acc (p, z). acc + p * z)"

definition sum_v :: "float64 \<Rightarrow> (float64 \<times> float64) list \<Rightarrow> float64" where
  "sum_v = foldl (\<lambda>acc (p, z). acc + z)"

definition vwap_inv :: "ticker_state \<Rightarrow> bool" where
  "vwap_inv t \<longleftrightarrow> (0 < CumV t \<longrightarrow> VWAP t = CumPV t / CumV t)"

lemma trade_cell_vwap_fields:
  "CumPV (trade_cell e f so a b c d ms p z al t) =
     (if accepted a d (UnixMilli ms) p z then CumPV t + p * z else CumPV t)"
  "CumV (trade_cell e f so a b c d ms p z al t) =
     (if accepted a d (UnixMilli ms) p z then CumV t + z else CumV t)"
  "VWAP (trade_cell e f so a b c d ms p z al t) =
     (if accepted a d (UnixMilli ms) p z \<and> 0 < CumV t + z then (CumPV t + p * z) / (CumV t + z) else VWAP t)"
  by (simp_all add: trade_cell_def Let_def act_cell_def entered_def manage_cell_def exited_def
      crossed_cell_def mark_cross_def)

lemma timed_out_vwap_fields [simp]:
  "CumPV (timed_out u m t) = CumPV t" "CumV (timed_out u m t) = CumV t" "VWAP (timed_out u m t) = VWAP t"
  by (simp_all add: timed_out_def exited_def)

lemma counted_Cons: "counted w k (ev # es) = counted w k [ev] @ counted w k es"
  by (cases ev; cases w) simp_all

lemma sum_pv_append: "sum_pv x (ps @ qs) = sum_pv (sum_pv x ps) qs"
  and sum_v_append: "sum_v x (ps @ qs) = sum_v (sum_v x ps) qs"
  by (simp_all add: sum_pv_def sum_v_def)

lemma vwap_step:
  assumes g: "GetTicker s k = Some t" and inv: "vwap_inv t" and k: "k \<noteq> []"
  shows "\<exists>t1. GetTicker (session_step e w ev s) k = Some t1 \<and> vwap_inv t1
    \<and> CumPV t1 = sum_pv (CumPV t) (counted w k [ev]) \<and> CumV t1 = sum_v (CumV t) (counted w k [ev])"
proof -
  obtain a b c d where w: "w = (a, b, c, d)" by (cases w)
  show ?thesis
  proof (cases ev)
    case (TimeExit u)
    with g inv w show ?thesis by (auto simp: get_onElevenAM vwap_inv_def sum_pv_def sum_v_def)
  next
    case (Trade symb ms p z al)
    show ?thesis
    proof (cases "symb = k")
      case True
      with g inv k Trade w show ?thesis
        by (auto simp: get_processTrade vwap_inv_def trade_cell_vwap_fields sum_pv_def sum_v_def)
    next
      case False
      with g inv Trade w show ?thesis
        by (auto simp: get_processTrade_other sum_pv_def sum_v_def)
    qed
  qed
qed

lemma vwap_run:
  assumes "GetTicker s k = Some t" and "vwap_inv t" and "k \<noteq> []"
  shows "\<exists>t'. GetTicker (fold (session_step e w) es s) k = Some t' \<and> vwap_inv t'
    \<and> CumPV t' = sum_pv (CumPV t) (counted w k es) \<and> CumV t' = sum_v (CumV t) (counted w k es)"
  using assms
proof (induction es arbitrary: s t)
  case Nil
  then show ?case by (simp add: sum_pv_def sum_v_def)
next
  case (Cons ev es)
  obtain t1 where t1: "GetTicker (session_step e w ev s) k = Some t1" "vwap_inv t1"
    "CumPV t1 = sum_pv (CumPV t) (counted w k [ev])" "CumV t1 = sum_v (CumV t) (counted w k [ev])"
    using vwap_step [OF Cons.prems] by blast
  from Cons.IH [OF t1(1,2) Cons.prems(3)] t1(3,4) show ?case
    by (simp add: counted_Cons [of w k ev es] sum_pv_append sum_v_append)
qed

end
