(* ===== verification/Rest.thy ===== *)
theory Rest
  imports Opening Trading
begin

text \<open>
  The REST shim (\<open>internal/engine/restshim.go\<close>, the time conversions of \<open>internal/massive/massive.go\<close> and
  \<open>tradeTimeMillis\<close> of \<open>historic.go\<close>). The client library is not part of the repository: its two listing
  calls are the fields of \<open>rest\<close>, each giving the items its iterator yields and the error \<open>Err\<close>
  reports after them. \<open>ToMillis\<close> and \<open>ToNanos\<close> convert a time to the library's types without
  changing the instant, so the calls take instants.

  A shim call returns \<open>Inl\<close> of the error, or \<open>Inr None\<close> for \<open>ok = false\<close>, or the values.
  The properties relate the opening metrics to the ones the WebSocket path collects, and say what
  the volume, the low and the last close are.
\<close>

section \<open>The client\<close>

record agg =
  a_Open :: float64
  a_High :: float64
  a_Low :: float64
  a_Close :: float64
  a_Volume :: float64

record rest_trade =
  SipTimestamp :: gotime
  ParticipantTimestamp :: gotime
  TrfTimestamp :: gotime
  tr_Price :: float64
  tr_Size :: float64

record rest =
  ListAggs :: "string \<Rightarrow> gotime \<Rightarrow> gotime \<Rightarrow> agg list \<times> string option"
  ListTrades :: "string \<Rightarrow> gotime \<Rightarrow> gotime \<Rightarrow> rest_trade list \<times> string option"

type_synonym 'a fetch = "string + 'a option"

definition tradeTimeMillis :: "rest_trade \<Rightarrow> int" where
  "tradeTimeMillis tr =
     (if \<not> IsZero (SipTimestamp tr) then to_millis (SipTimestamp tr)
      else if \<not> IsZero (ParticipantTimestamp tr) then to_millis (ParticipantTimestamp tr)
      else if \<not> IsZero (TrfTimestamp tr) then to_millis (TrfTimestamp tr)
      else 0)"

section \<open>Volume and metrics of the opening bars\<close>

fun volume_step :: "agg \<Rightarrow> float64 \<times> nat \<Rightarrow> float64 \<times> nat" where
  "volume_step a (acc, n) =
     (let v = a_Volume a in if 0 < v then (acc + v, n + 1) else (acc, n))"

definition Open5mVolume :: "rest \<Rightarrow> string \<Rightarrow> gotime \<Rightarrow> gotime \<Rightarrow> float64 fetch" where
  "Open5mVolume r ticker startNY endNY =
     (case ListAggs r ticker startNY endNY of (items, err) \<Rightarrow>
       (case fold volume_step items (0, 0) of (acc, n) \<Rightarrow>
         (case err of
            Some e \<Rightarrow> Inl e
          | None \<Rightarrow> if n = 0 then Inr None else Inr (Some acc))))"

record metrics =
  m_open0930 :: float64
  m_orHigh :: float64
  m_orLow :: float64
  m_vol :: float64

fun metrics_step :: "agg \<Rightarrow> metrics \<times> nat \<Rightarrow> metrics \<times> nat" where
  "metrics_step a (m, n) =
     (if a_Open a \<le> 0 then (m, n)
      else
        let m = (if n = 0 then m\<lparr>m_open0930 := a_Open a, m_orHigh := a_High a, m_orLow := a_Low a\<rparr>
                 else (let m = (if m_orHigh m < a_High a then m\<lparr>m_orHigh := a_High a\<rparr> else m)
                       in if feq (m_orLow m) 0 \<or> a_Low a < m_orLow m then m\<lparr>m_orLow := a_Low a\<rparr> else m))
        in (m\<lparr>m_vol := m_vol m + a_Volume a\<rparr>, n + 1))"

definition Open5mMetrics :: "rest \<Rightarrow> string \<Rightarrow> gotime \<Rightarrow> gotime \<Rightarrow> metrics fetch" where
  "Open5mMetrics r ticker startNY endNY =
     (case ListAggs r ticker startNY endNY of (items, err) \<Rightarrow>
       (case fold metrics_step items (\<lparr>m_open0930 = 0, m_orHigh = 0, m_orLow = 0, m_vol = 0\<rparr>, 0) of (m, n) \<Rightarrow>
         (case err of
            Some e \<Rightarrow> Inl e
          | None \<Rightarrow> if n = 0 then Inr None else Inr (Some m))))"

section \<open>The low and the last close of a window\<close>

record low_close =
  lc_idx :: nat
  lc_minLow :: float64
  lc_minLowTime :: gotime
  lc_lastClose :: float64

definition low_step :: "gotime \<Rightarrow> agg \<Rightarrow> low_close \<Rightarrow> low_close" where
  "low_step startNY a st =
     (let barStart = startNY + int (lc_idx st) * minute_ns;
          st = st\<lparr>lc_idx := lc_idx st + 1\<rparr>;
          st = (if 0 < a_Low a
                then (if feq (lc_minLow st) 0 \<or> a_Low a < lc_minLow st
                      then st\<lparr>lc_minLow := a_Low a, lc_minLowTime := barStart\<rparr> else st)
                else st)
      in if 0 < a_Close a then st\<lparr>lc_lastClose := a_Close a\<rparr> else st)"

text \<open>\<open>n\<close> and \<open>idx\<close> count the same bars in the code; \<open>lc_idx\<close> is both.\<close>

definition MinLowAndLastClose ::
  "rest \<Rightarrow> string \<Rightarrow> gotime \<Rightarrow> gotime \<Rightarrow> (float64 \<times> gotime \<times> float64) fetch" where
  "MinLowAndLastClose r ticker startNY endNY =
     (case ListAggs r ticker startNY endNY of (items, err) \<Rightarrow>
       let st = fold (low_step startNY) items
                  \<lparr>lc_idx = 0, lc_minLow = 0, lc_minLowTime = zero_time, lc_lastClose = 0\<rparr>
       in (case err of
             Some e \<Rightarrow> Inl e
           | None \<Rightarrow>
               if lc_idx st = 0 \<or> lc_minLow st \<le> 0 \<or> lc_lastClose st \<le> 0 then Inr None
               else Inr (Some (lc_minLow st, lc_minLowTime st, lc_lastClose st))))"

section \<open>The two ways of collecting the opening metrics\<close>

text \<open>The REST bar with the values of a WebSocket bar.\<close>

definition rest_bar :: "equity_agg \<Rightarrow> agg" where
  "rest_bar b = \<lparr>a_Open = agg_Open b, a_High = agg_High b, a_Low = agg_Low b, a_Close = agg_Close b,
     a_Volume = agg_Volume b\<rparr>"

definition ticker_metrics :: "ticker_state \<Rightarrow> metrics" where
  "ticker_metrics t = \<lparr>m_open0930 = Open0930 t, m_orHigh = ORHigh t, m_orLow = ORLow t, m_vol = Open5mVol t\<rparr>"

lemma metrics_first:
  "\<not> agg_Open b \<le> 0 \<Longrightarrow>
     metrics_step (rest_bar b) (\<lparr>m_open0930 = 0, m_orHigh = 0, m_orLow = 0, m_vol = 0\<rparr>, 0)
     = (ticker_metrics (onMinuteBar hhmm b (new_ticker k)), 1)"
  by (simp add: rest_bar_def ticker_metrics_def onMinuteBar_def new_ticker_def feq_iff Let_def)

lemma metrics_next:
  "\<not> agg_Open b \<le> 0 \<Longrightarrow> \<not> Open0930 t \<le> 0 \<Longrightarrow> 0 < n \<Longrightarrow>
     metrics_step (rest_bar b) (ticker_metrics t, n) = (ticker_metrics (onMinuteBar hhmm b t), n + 1)"
  by (auto simp: rest_bar_def ticker_metrics_def onMinuteBar_def feq_def Let_def)

lemma open_onMinuteBar:
  "\<not> agg_Open b \<le> 0 \<Longrightarrow> \<not> Open0930 t \<le> 0 \<or> t = new_ticker k \<Longrightarrow> \<not> Open0930 (onMinuteBar hhmm b t) \<le> 0"
  by (auto simp: onMinuteBar_def feq_def new_ticker_def Let_def)

lemma metrics_collect:
  assumes "GetTicker s k = Some t" and "\<not> Open0930 t \<le> 0" and "0 < n"
    and "\<forall>b \<in> set bars. collects e o9 se s b \<and> agg_Symbol b = k \<and> \<not> agg_Open b \<le> 0"
  shows "\<exists>t' n'. GetTicker (fold (onMinuteAgg e o9 se) bars s) k = Some t' \<and> 0 < n'
    \<and> fold metrics_step (map rest_bar bars) (ticker_metrics t, n) = (ticker_metrics t', n')"
  using assms
proof (induction bars arbitrary: s t n)
  case Nil
  then show ?case by simp
next
  case (Cons b bars)
  let ?h = "fmt_hm (e_loc e) (UnixMilli (agg_StartTimestamp b))"
  let ?t = "onMinuteBar ?h b t"
  have b: "collects e o9 se s b" "agg_Symbol b = k" "\<not> agg_Open b \<le> 0" using Cons.prems by auto
  have g: "GetTicker (onMinuteAgg e o9 se b s) k = Some ?t"
    using b Cons.prems(1) by (simp add: get_onMinuteAgg)
  have "\<not> Open0930 ?t \<le> 0" using open_onMinuteBar b Cons.prems(2) by blast
  from Cons.IH [OF g this, of "n + 1"] Cons.prems(4)
  show ?case
    using metrics_next [OF b(3) Cons.prems(2,3), of ?h] by (simp del: metrics_step.simps)
qed

text \<open>C33. The two ways of collecting agree: on bars of one ticker that fall in the window and have a positive
  open, the metrics the WebSocket path leaves in the store are the ones the REST path computes from
  the same bars.\<close>

theorem rest_path_equals_ws_path:
  assumes "GetTicker s k = None"
    and "\<forall>b \<in> set bars. collects e openNY selNY s b \<and> agg_Symbol b = k \<and> \<not> agg_Open b \<le> 0"
    and "ListAggs r k openNY selNY = (map rest_bar bars, None)"
  shows "Open5mMetrics r k openNY selNY =
    Inr (map_option ticker_metrics (GetTicker (fold (onMinuteAgg e openNY selNY) bars s) k))"
proof (cases bars)
  case Nil
  with assms show ?thesis by (simp add: Open5mMetrics_def)
next
  case (Cons b bs)
  let ?t = "onMinuteBar (fmt_hm (e_loc e) (UnixMilli (agg_StartTimestamp b))) b (new_ticker k)"
  have b: "collects e openNY selNY s b" "agg_Symbol b = k" "\<not> agg_Open b \<le> 0" using assms(2) Cons by auto
  have g: "GetTicker (onMinuteAgg e openNY selNY b s) k = Some ?t"
    using b assms(1) by (simp add: get_onMinuteAgg)
  have "\<not> Open0930 ?t \<le> 0" using open_onMinuteBar b by blast
  then obtain t' n' where
    "GetTicker (fold (onMinuteAgg e openNY selNY) bs (onMinuteAgg e openNY selNY b s)) k = Some t'" "0 < n'"
    "fold metrics_step (map rest_bar bs) (ticker_metrics ?t, 1) = (ticker_metrics t', n')"
    using metrics_collect [OF g, of 1 bs e openNY selNY] assms(2) Cons by auto
  moreover have "metrics_step (rest_bar b) (\<lparr>m_open0930 = 0, m_orHigh = 0, m_orLow = 0, m_vol = 0\<rparr>, 0)
      = (ticker_metrics ?t, 1)"
    by (rule metrics_first [OF b(3)])
  ultimately show ?thesis
    using assms(3) Cons b by (simp add: Open5mMetrics_def del: metrics_step.simps)
qed

definition sample_bar :: equity_agg where
  "sample_bar = \<lparr>agg_Symbol = ''A'', agg_StartTimestamp = 34200000, agg_Open = Fin 10, agg_High = Fin 11,
     agg_Low = Fin 9, agg_Close = Fin 10, agg_Volume = Fin 500\<rparr>"

definition plain_engine :: engine where
  "plain_engine = \<lparr>e_cfg = zero_config, e_tts = None, e_loc = fixed_zone 0, e_http = (\<lambda>_. Inl []),
     e_rand = (\<lambda>_ _. []), e_unicode = \<lparr>uni_ToUpper = id, uni_TrimFunc = id, uni_TrimRightFunc = id\<rparr>\<rparr>"

theorem rest_path_equals_ws_path_witness:
  "Open5mMetrics \<lparr>ListAggs = (\<lambda>_ _ _. ([rest_bar sample_bar], None)), ListTrades = (\<lambda>_ _ _. ([], None))\<rparr>
       ''A'' (34200 * sec_ns) (34500 * sec_ns)
     = Inr (map_option ticker_metrics
         (GetTicker (fold (onMinuteAgg plain_engine (34200 * sec_ns) (34500 * sec_ns)) [sample_bar]
           (New 0 zero_config [''A''])) ''A''))"
proof -
  have "collects plain_engine (34200 * sec_ns) (34500 * sec_ns) (New 0 zero_config [''A'']) sample_bar"
    by (simp add: collects_def sample_bar_def plain_engine_def New_def UnixMilli_def sec_ns_def
        clock_secs_def local_secs_def fixed_zone_def Unix_def)
  then show ?thesis
    by (intro rest_path_equals_ws_path)
      (simp_all add: sample_bar_def GetTicker_def New_def zero_float64_def)
qed

lemma volume_counts:
  assumes "\<forall>a \<in> set items. 0 < a_Open a \<and> 0 < a_Volume a"
  shows "fst (fold volume_step items (v, n)) = m_vol (fst (fold metrics_step items (m\<lparr>m_vol := v\<rparr>, n)))
    \<and> snd (fold volume_step items (v, n)) = snd (fold metrics_step items (m\<lparr>m_vol := v\<rparr>, n))"
  using assms
proof (induction items arbitrary: v n m)
  case Nil
  then show ?case by simp
next
  case (Cons a items)
  then have a: "\<not> a_Open a \<le> 0" "0 < a_Volume a" by (auto dest: flt_not_fle)
  have step: "metrics_step a (m\<lparr>m_vol := v\<rparr>, n) = (fst (metrics_step a (m\<lparr>m_vol := v\<rparr>, n)), n + 1)"
    "m_vol (fst (metrics_step a (m\<lparr>m_vol := v\<rparr>, n))) = v + a_Volume a"
    using a(1) by (simp_all add: Let_def)
  obtain m' where m': "metrics_step a (m\<lparr>m_vol := v\<rparr>, n) = (m', n + 1)" "m'\<lparr>m_vol := v + a_Volume a\<rparr> = m'"
    using step by (metis metrics.surjective metrics.update_convs(4) metrics.select_convs(4))
  have "volume_step a (v, n) = (v + a_Volume a, n + 1)" using a(2) by simp
  with m' Cons.IH [of "v + a_Volume a" "n + 1" m'] Cons.prems show ?case
    by (simp del: metrics_step.simps volume_step.simps)
qed

text \<open>The volume of an opening is measured in the same way today and on earlier days: on bars with a
  positive open and a positive volume, \<open>Open5mVolume\<close> is the volume of \<open>Open5mMetrics\<close>.\<close>

theorem volume_agrees_with_metrics:
  assumes "\<forall>a \<in> set (fst (ListAggs r k startNY endNY)). 0 < a_Open a \<and> 0 < a_Volume a"
  shows "Open5mVolume r k startNY endNY = map_sum id (map_option m_vol) (Open5mMetrics r k startNY endNY)"
proof -
  obtain items err where it: "ListAggs r k startNY endNY = (items, err)" by fastforce
  let ?z = "\<lparr>m_open0930 = 0, m_orHigh = 0, m_orLow = 0, m_vol = 0\<rparr>"
  have "fst (fold volume_step items (0, 0)) = m_vol (fst (fold metrics_step items (?z, 0)))
    \<and> snd (fold volume_step items (0, 0)) = snd (fold metrics_step items (?z, 0))"
    using volume_counts [of items 0 0 ?z] assms it by (simp del: metrics_step.simps volume_step.simps)
  then show ?thesis
    by (simp add: Open5mVolume_def Open5mMetrics_def it case_prod_unfold split: option.splits)
qed

theorem volume_agrees_with_metrics_witness:
  "Open5mVolume \<lparr>ListAggs = (\<lambda>_ _ _. ([rest_bar sample_bar], None)), ListTrades = (\<lambda>_ _ _. ([], None))\<rparr> ''A'' 0 1
     = Inr (Some (Fin 500))"
proof -
  let ?r = "\<lparr>ListAggs = (\<lambda>_ _ _. ([rest_bar sample_bar], None)), ListTrades = (\<lambda>_ _ _. ([], None))\<rparr>"
  have "\<forall>a \<in> set (fst (ListAggs ?r ''A'' 0 1)). 0 < a_Open a \<and> 0 < a_Volume a"
    by (simp add: rest_bar_def sample_bar_def zero_float64_def)
  then show ?thesis
    by (simp add: volume_agrees_with_metrics Open5mMetrics_def rest_bar_def sample_bar_def zero_float64_def)
qed

section \<open>The low\<close>

definition low_spec :: "gotime \<Rightarrow> agg list \<Rightarrow> low_close \<Rightarrow> bool" where
  "low_spec startNY items st \<longleftrightarrow>
     lc_idx st = length items
     \<and> (if \<exists>a \<in> set items. 0 < a_Low a
        then \<exists>i < length items. lc_minLow st = a_Low (items ! i) \<and> 0 < lc_minLow st
               \<and> lc_minLowTime st = startNY + int i * minute_ns
               \<and> (\<forall>a \<in> set items. 0 < a_Low a \<longrightarrow> lc_minLow st \<le> a_Low a)
        else lc_minLow st = 0)
     \<and> lc_lastClose st = last (0 # filter (\<lambda>c. 0 < c) (map a_Close items))"

lemma low_spec_step:
  assumes "low_spec startNY items st"
  shows "low_spec startNY (items @ [a]) (low_step startNY a st)"
proof -
  have idx: "lc_idx (low_step startNY a st) = length (items @ [a])"
    and close: "lc_lastClose (low_step startNY a st) = last (0 # filter (\<lambda>c. 0 < c) (map a_Close (items @ [a])))"
    using assms by (auto simp: low_step_def low_spec_def Let_def)
  have low: "lc_minLow (low_step startNY a st)
      = (if 0 < a_Low a \<and> (feq (lc_minLow st) 0 \<or> a_Low a < lc_minLow st) then a_Low a else lc_minLow st)"
    "lc_minLowTime (low_step startNY a st)
      = (if 0 < a_Low a \<and> (feq (lc_minLow st) 0 \<or> a_Low a < lc_minLow st)
         then startNY + int (length items) * minute_ns else lc_minLowTime st)"
    using assms by (auto simp: low_step_def low_spec_def Let_def)
  show ?thesis
  proof (cases "\<exists>a \<in> set items. 0 < a_Low a")
    case False
    with assms have "lc_minLow st = 0" by (simp add: low_spec_def)
    with False idx close low show ?thesis
      unfolding low_spec_def by (auto simp: feq_iff nth_append fle_refl_iff flt_not_nan intro!: exI [of _ "length items"])
  next
    case True
    with assms obtain i where i: "i < length items" "lc_minLow st = a_Low (items ! i)" "0 < lc_minLow st"
      "lc_minLowTime st = startNY + int i * minute_ns"
      "\<forall>a \<in> set items. 0 < a_Low a \<longrightarrow> lc_minLow st \<le> a_Low a"
      unfolding low_spec_def by auto
    have nz: "\<not> feq (lc_minLow st) 0" using i(3) by (auto simp: feq_def dest: flt_not_fle)
    show ?thesis
    proof (cases "0 < a_Low a \<and> a_Low a < lc_minLow st")
      case new: True
      then have "\<forall>x \<in> set (items @ [a]). 0 < a_Low x \<longrightarrow> a_Low a \<le> a_Low x"
        using i(5) by (auto intro: flt_imp_fle flt_fle_trans simp: fle_refl_iff flt_not_nan)
      with new idx close low nz show ?thesis
        unfolding low_spec_def by (auto intro!: exI [of _ "length items"])
    next
      case old: False
      then have "\<forall>x \<in> set (items @ [a]). 0 < a_Low x \<longrightarrow> lc_minLow st \<le> a_Low x"
        using i(3,5) flt_not_nan fnot_less by auto
      with old idx close low nz i True show ?thesis
        unfolding low_spec_def by (auto simp: nth_append intro!: exI [of _ i])
    qed
  qed
qed

lemma low_spec_run:
  "low_spec startNY items (fold (low_step startNY) items
     \<lparr>lc_idx = 0, lc_minLow = 0, lc_minLowTime = zero_time, lc_lastClose = 0\<rparr>)"
proof (induction items rule: rev_induct)
  case Nil
  then show ?case by (simp add: low_spec_def)
next
  case (snoc a items)
  then show ?case by (simp add: low_spec_step)
qed

text \<open>The low of a window: when the call succeeds, the low is the smallest positive low of the bars, its
  time is the start of the window plus the index of a bar that has it, and the close is the last
  positive close.\<close>

theorem MinLowAndLastClose_spec:
  assumes "ListAggs r k startNY endNY = (items, None)"
    and "MinLowAndLastClose r k startNY endNY = Inr (Some (l, t, c))"
  shows "(\<exists>i < length items. l = a_Low (items ! i) \<and> t = startNY + int i * minute_ns) \<and> 0 < l
    \<and> (\<forall>a \<in> set items. 0 < a_Low a \<longrightarrow> l \<le> a_Low a)
    \<and> c = last (0 # filter (\<lambda>c. 0 < c) (map a_Close items)) \<and> \<not> c \<le> 0"
  using assms low_spec_run [of startNY items]
  by (auto simp: MinLowAndLastClose_def low_spec_def Let_def fle_refl_iff split: if_splits)

theorem MinLowAndLastClose_spec_witness:
  "\<exists>l t c. MinLowAndLastClose \<lparr>ListAggs = (\<lambda>_ _ _. ([rest_bar sample_bar], None)),
       ListTrades = (\<lambda>_ _ _. ([], None))\<rparr> ''A'' 0 1 = Inr (Some (l, t, c)) \<and> 0 < l \<and> \<not> c \<le> 0"
proof -
  let ?r = "\<lparr>ListAggs = (\<lambda>_ _ _. ([rest_bar sample_bar], None)), ListTrades = (\<lambda>_ _ _. ([], None))\<rparr>"
  have "MinLowAndLastClose ?r ''A'' 0 1 = Inr (Some (Fin 9, 0, Fin 10))"
    by (simp add: MinLowAndLastClose_def low_step_def rest_bar_def sample_bar_def zero_float64_def
        feq_def Let_def)
  moreover have "ListAggs ?r ''A'' 0 1 = ([rest_bar sample_bar], None)" by simp
  ultimately show ?thesis using MinLowAndLastClose_spec by blast
qed

end
