(* ===== verification/Tracking.thy ===== *)
theory Tracking
  imports Rest
begin

text \<open>
  From the selected candidates to the tracked tickers (\<open>avgPrevSessionsOpen5mVol\<close>, \<open>seedVWAPFromTrades\<close>
  and \<open>buildTrackedStates\<close> of \<open>internal/engine/engine.go\<close>).

  The context is a function \<open>cancel\<close> that gives, for the \<open>i\<close>-th check of a loop, the error of the
  context if it is done by then. A worker pool takes jobs from a channel and sends its results to
  another; the order of arrival is the argument \<open>arrive\<close>, a list of the jobs whose results arrive
  (all of them, in some order, unless the context is done). \<open>ord\<close> is the order in which Go walks a
  map and \<open>now\<close> the time stamped on the warnings.

  The properties: the historical average is the mean over the latest sessions with data, and the
  tracked state of a candidate depends on neither order.
\<close>

type_synonym cancel = "nat \<Rightarrow> string option"

section \<open>The average opening volume of earlier sessions\<close>

definition session_open :: "zone \<Rightarrow> gotime \<Rightarrow> int \<Rightarrow> gotime" where
  "session_open z day back =
     (case civil z (AddDays z day (- back)) of (y, m, d) \<Rightarrow> go_date z y m d 9 30 0)"

function avg_loop ::
  "rest \<Rightarrow> zone \<Rightarrow> cancel \<Rightarrow> string \<Rightarrow> gotime \<Rightarrow> int \<Rightarrow> int \<Rightarrow> int \<Rightarrow> float64 list
     \<Rightarrow> string + float64 list" where
  "avg_loop r z cancel symb day sessionsNeeded maxLookbackDays back vols =
     (if back \<le> maxLookbackDays \<and> int (length vols) < sessionsNeeded
      then (case cancel (nat (back - 1)) of
              Some err \<Rightarrow> Inl err
            | None \<Rightarrow>
                let start = session_open z day back;
                    stop = start + 5 * minute_ns
                in (case Open5mVolume r symb start stop of
                      Inl err \<Rightarrow> avg_loop r z cancel symb day sessionsNeeded maxLookbackDays (back + 1) vols
                    | Inr None \<Rightarrow> avg_loop r z cancel symb day sessionsNeeded maxLookbackDays (back + 1) vols
                    | Inr (Some v) \<Rightarrow>
                        avg_loop r z cancel symb day sessionsNeeded maxLookbackDays (back + 1)
                          (if v \<le> 0 then vols else vols @ [v])))
      else Inr vols)"
  by pat_completeness auto
termination
  by (relation "measure (\<lambda>(_, _, _, _, _, _, m, b, _). nat (m + 1 - b))") auto

declare avg_loop.simps [simp del]

definition avgPrevSessionsOpen5mVol ::
  "engine \<Rightarrow> cancel \<Rightarrow> rest \<Rightarrow> string \<Rightarrow> gotime \<Rightarrow> int \<Rightarrow> int \<Rightarrow> string + float64" where
  "avgPrevSessionsOpen5mVol e cancel r symb openNY sessionsNeeded maxLookbackDays =
     (case avg_loop r (e_loc e) cancel symb openNY sessionsNeeded maxLookbackDays 1 [] of
        Inl err \<Rightarrow> Inl err
      | Inr vols \<Rightarrow>
          if vols = []
          then Inl (''no prior sessions found in lookback='' @ show_int maxLookbackDays @ '' days'')
          else Inr (foldl (+) 0 vols / of_int64 (int (length vols))))"

section \<open>Seeding the VWAP\<close>

definition seed_trade :: "gotime \<Rightarrow> rest_trade \<Rightarrow> ticker_state \<Rightarrow> ticker_state" where
  "seed_trade crossStartNY tr ts =
     (if tr_Price tr \<le> 0 \<or> tr_Size tr \<le> 0 then ts
      else let tsMillis = tradeTimeMillis tr
           in if tsMillis = 0 then ts
              else let trNY = UnixMilli tsMillis;
                       prevPrice = LastPrice ts;
                       prevVWAP = VWAP ts;
                       ts = vwap_update (tr_Price tr) (tr_Size tr) ts;
                       ts = ts\<lparr>LastPrice := tr_Price tr, LastTrade := trNY\<rparr>
                   in if \<not> SawCrossInWindow ts \<and> \<not> trNY < crossStartNY
                         \<and> 0 < prevPrice \<and> 0 < prevVWAP \<and> prevPrice < prevVWAP \<and> VWAP ts \<le> tr_Price tr
                      then ts\<lparr>SawCrossInWindow := True, FirstCrossTime := trNY,
                              FirstCrossPrice := tr_Price tr\<rparr>
                      else ts)"

fun seed_loop :: "cancel \<Rightarrow> gotime \<Rightarrow> nat \<Rightarrow> rest_trade list \<Rightarrow> ticker_state \<Rightarrow> ticker_state \<times> string option" where
  "seed_loop cancel crossStartNY i [] ts = (ts, None)"
| "seed_loop cancel crossStartNY i (tr # trs) ts =
     (case cancel i of
        Some err \<Rightarrow> (ts, Some err)
      | None \<Rightarrow> seed_loop cancel crossStartNY (i + 1) trs (seed_trade crossStartNY tr ts))"

text \<open>The ticker is changed in place, so it is returned with an error too.\<close>

definition seedVWAPFromTrades ::
  "cancel \<Rightarrow> rest \<Rightarrow> string \<Rightarrow> gotime \<Rightarrow> gotime \<Rightarrow> ticker_state \<Rightarrow> ticker_state \<times> string option" where
  "seedVWAPFromTrades cancel r symb startNY endNY ts =
     (case ListTrades r symb startNY endNY of (items, err) \<Rightarrow>
       (case seed_loop cancel (startNY + 1 * minute_ns) 0 items ts of
          (ts, Some e) \<Rightarrow> (ts, Some e)
        | (ts, None) \<Rightarrow>
            (case err of
               Some e \<Rightarrow> (ts, Some e)
             | None \<Rightarrow>
                 (if 0 < CumV ts then ts\<lparr>PrevVWAP := VWAP ts, PrevPrice := LastPrice ts\<rparr> else ts, None))))"

section \<open>Building the tracked states\<close>

definition history_job ::
  "engine \<Rightarrow> cancel \<Rightarrow> rest \<Rightarrow> gotime \<Rightarrow> store \<Rightarrow> string \<Rightarrow> string + (float64 \<times> float64)" where
  "history_job e cancel r openNY s symb =
     (case GetTicker s symb of
        None \<Rightarrow> Inl ''missing ticker state''
      | Some t \<Rightarrow>
          (case avgPrevSessionsOpen5mVol e cancel r symb openNY
                  (Open5mLookbackSessions (cfg_History (e_cfg e))) (MaxCalendarLookback (cfg_History (e_cfg e))) of
             Inl err \<Rightarrow> Inl err
           | Inr avg \<Rightarrow> Inr (avg, if 0 < avg then (Open5mVol t / avg) * rnd 100 else 0)))"

definition shallow_states :: "string list \<Rightarrow> store \<Rightarrow> (string \<times> ticker_state) list" where
  "shallow_states candidates s =
     fold (\<lambda>symb tracked.
             case GetTicker s symb of
               None \<Rightarrow> tracked
             | Some t \<Rightarrow> AList.update symb (t\<lparr>Status := ''tracking''\<rparr>) tracked) candidates []"

fun apply_history ::
  "engine \<Rightarrow> gotime \<Rightarrow> string \<times> (string + (float64 \<times> float64))
     \<Rightarrow> (string \<times> ticker_state) list \<times> store \<Rightarrow> (string \<times> ticker_state) list \<times> store" where
  "apply_history e now (symb, Inl err) (tracked, s) =
     (tracked, emit e now ''SYSTEM'' symb (''History calc failed: '' @ err) [] ''warn'' s)"
| "apply_history e now (symb, Inr (avg, pct)) (tracked, s) =
     (case map_of tracked symb of
        None \<Rightarrow> (tracked, s)
      | Some ts \<Rightarrow> (AList.update symb (ts\<lparr>Prev10AvgOpen5mVol := avg, Open5mTodayPct := pct\<rparr>) tracked, s))"

fun seed_one ::
  "engine \<Rightarrow> gotime \<Rightarrow> (string \<Rightarrow> cancel) \<Rightarrow> rest \<Rightarrow> gotime \<Rightarrow> gotime \<Rightarrow> string
     \<Rightarrow> (string \<times> ticker_state) list \<times> store \<Rightarrow> (string \<times> ticker_state) list \<times> store" where
  "seed_one e now cancel r openNY selNY symb (tracked, s) =
     (case map_of tracked symb of
        None \<Rightarrow> (tracked, s)
      | Some ts \<Rightarrow>
          (case seedVWAPFromTrades (cancel symb) r symb openNY selNY ts of (ts, err) \<Rightarrow>
            (AList.update symb ts tracked,
             (case err of
                None \<Rightarrow> s
              | Some x \<Rightarrow> emit e now ''SYSTEM'' symb (''VWAP seed failed: '' @ x) [] ''warn'' s))))"

definition put_back :: "map_order \<Rightarrow> (string \<times> ticker_state) list \<Rightarrow> store \<Rightarrow> store" where
  "put_back ord tracked s =
     fold (\<lambda>symb s. case map_of tracked symb of None \<Rightarrow> s | Some ts \<Rightarrow> UpsertTicker symb (\<lambda>t. ts) s)
       (ord (map fst tracked)) s"

definition buildTrackedStates ::
  "engine \<Rightarrow> gotime \<Rightarrow> (string \<Rightarrow> cancel) \<Rightarrow> (string \<Rightarrow> cancel) \<Rightarrow> (string list \<Rightarrow> string list) \<Rightarrow> map_order
     \<Rightarrow> rest \<Rightarrow> gotime \<Rightarrow> gotime \<Rightarrow> string list \<Rightarrow> store \<Rightarrow> (string \<times> ticker_state) list \<times> store" where
  "buildTrackedStates e now cancelH cancelS arrive ord r openNY selNY candidates s =
     (let results = map (\<lambda>symb. (symb, history_job e (cancelH symb) r openNY s symb)) (arrive candidates);
          tracked = shallow_states candidates s;
          (tracked, s) = fold (apply_history e now) results (tracked, s);
          (tracked, s) = fold (seed_one e now cancelS r openNY selNY) candidates (tracked, s)
      in (tracked, put_back ord tracked s))"

section \<open>The average as a specification\<close>

text \<open>The opening volumes of the days \<open>bs\<close> back that have one.\<close>

definition session_volumes :: "rest \<Rightarrow> zone \<Rightarrow> string \<Rightarrow> gotime \<Rightarrow> int list \<Rightarrow> float64 list" where
  "session_volumes r z symb day bs =
     concat (map (\<lambda>b. case Open5mVolume r symb (session_open z day b) (session_open z day b + 5 * minute_ns) of
         Inr (Some v) \<Rightarrow> if v \<le> 0 then [] else [v]
       | _ \<Rightarrow> []) bs)"

lemma session_volumes_Cons:
  "session_volumes r z symb day (b # bs) =
     (case Open5mVolume r symb (session_open z day b) (session_open z day b + 5 * minute_ns) of
        Inr (Some v) \<Rightarrow> if v \<le> 0 then [] else [v]
      | _ \<Rightarrow> []) @ session_volumes r z symb day bs"
  by (simp add: session_volumes_def)

lemma avg_loop_spec:
  assumes "\<And>i. cancel i = None"
  shows "avg_loop r z cancel symb day needed maxd bk vols =
    Inr (vols @ take (nat needed - length vols) (session_volumes r z symb day [bk..maxd]))"
  using assms
proof (induction r z cancel symb day needed maxd bk vols rule: avg_loop.induct)
  case (1 r z cancel symb day needed maxd bk vols)
  show ?case
  proof (cases "bk \<le> maxd \<and> int (length vols) < needed")
    case False
    then show ?thesis by (subst avg_loop.simps) (auto simp: session_volumes_def)
  next
    case True
    let ?f = "Open5mVolume r symb (session_open z day bk) (session_open z day bk + 5 * minute_ns)"
    have upto: "[bk..maxd] = bk # [bk + 1..maxd]" using True by (simp add: upto_rec1)
    have c: "cancel (nat (bk - 1)) = None" by (rule 1(4))
    have step: "avg_loop r z cancel symb day needed maxd bk vols =
        avg_loop r z cancel symb day needed maxd (bk + 1)
          (case ?f of Inr (Some v) \<Rightarrow> if v \<le> 0 then vols else vols @ [v] | _ \<Rightarrow> vols)"
      using True c by (subst avg_loop.simps) (simp add: Let_def split: sum.splits option.splits)
    show ?thesis
    proof (cases "\<exists>v. ?f = Inr (Some v) \<and> \<not> v \<le> 0")
      case new: True
      then obtain v where v: "?f = Inr (Some v)" "\<not> v \<le> 0" by blast
      have "avg_loop r z cancel symb day needed maxd (bk + 1) (vols @ [v]) =
          Inr ((vols @ [v]) @ take (nat needed - length (vols @ [v])) (session_volumes r z symb day [bk + 1..maxd]))"
        using 1(3) [OF True c refl refl v(1) refl, OF 1(4)] v(2) by simp
      moreover have "nat needed - length vols = Suc (nat needed - Suc (length vols))" using True by linarith
      ultimately show ?thesis using v by (simp add: step upto session_volumes_Cons)
    next
      case none: False
      then have same: "(case ?f of Inr (Some v) \<Rightarrow> if v \<le> 0 then vols else vols @ [v] | _ \<Rightarrow> vols) = vols"
        "(case ?f of Inr (Some v) \<Rightarrow> if v \<le> 0 then [] else [v] | _ \<Rightarrow> []) = []"
        by (auto split: sum.splits option.splits)
      have "avg_loop r z cancel symb day needed maxd (bk + 1) vols =
          Inr (vols @ take (nat needed - length vols) (session_volumes r z symb day [bk + 1..maxd]))"
      proof (cases ?f)
        case (Inl err)
        from 1(1) [OF True c refl refl Inl, OF 1(4)] show ?thesis .
      next
        case (Inr m)
        show ?thesis
        proof (cases m)
          case None
          from 1(2) [OF True c refl refl Inr None, OF 1(4)] show ?thesis .
        next
          case (Some v)
          from 1(3) [OF True c refl refl Inr Some, OF 1(4)] none Inr Some show ?thesis by simp
        qed
      qed
      then show ?thesis by (simp add: step same upto session_volumes_Cons)
    qed
  qed
qed

section \<open>Interpretations: the passes over the tracked states\<close>

fun history_cell :: "string + (float64 \<times> float64) \<Rightarrow> ticker_state \<Rightarrow> ticker_state" where
  "history_cell (Inl err) t = t"
| "history_cell (Inr (avg, pct)) t = t\<lparr>Prev10AvgOpen5mVol := avg, Open5mTodayPct := pct\<rparr>"

lemma history_cell_err [simp]: "history_cell (Inl err) = (\<lambda>t. t)"
  by (rule ext) simp

lemma apply_history_frame:
  "GetTicker (snd (apply_history e now x ts)) k = GetTicker (snd ts) k"
  "settings (snd (apply_history e now x ts)) = settings (snd ts)"
  by (cases "(e, now, x, ts)" rule: apply_history.cases; simp add: frame_simps split: option.splits)+

interpretation history: cell_steps "\<lambda>ts k. map_of (fst ts) k" "apply_history e now" fst "\<lambda>x. history_cell (snd x)"
  for e now
proof unfold_locales
  show "map_of (fst (apply_history e now x s)) k =
      (if k = fst x then map_option (history_cell (snd x)) (map_of (fst s) k) else map_of (fst s) k)" for x s k
    by (cases "(e, now, x, s)" rule: apply_history.cases)
      (auto simp: update_conv' option.map_ident split: option.splits)
qed

lemma seed_one_frame:
  "GetTicker (snd (seed_one e now cancel r a b x ts)) k = GetTicker (snd ts) k"
  "settings (snd (seed_one e now cancel r a b x ts)) = settings (snd ts)"
  by (cases ts; simp add: frame_simps split: option.splits prod.splits)+

interpretation seeding: cell_steps "\<lambda>ts k. map_of (fst ts) k" "seed_one e now cancel r a b" "\<lambda>x. x"
    "\<lambda>x t. fst (seedVWAPFromTrades (cancel x) r x a b t)"
  for e now cancel r a b
proof unfold_locales
  show "map_of (fst (seed_one e now cancel r a b x s)) k =
      (if k = x then map_option (\<lambda>t. fst (seedVWAPFromTrades (cancel x) r x a b t)) (map_of (fst s) k)
       else map_of (fst s) k)" for x s k
    by (cases s) (auto simp: update_conv' split: option.splits prod.splits)
qed

lemma history_pass_frame:
  "GetTicker (snd (fold (apply_history e now) xs ts)) k = GetTicker (snd ts) k"
  "settings (snd (fold (apply_history e now) xs ts)) = settings (snd ts)"
  by (induction xs arbitrary: ts) (simp_all add: apply_history_frame)

lemma seed_pass_frame:
  "GetTicker (snd (fold (seed_one e now cancel r a b) ys ts)) k = GetTicker (snd ts) k"
  "settings (snd (fold (seed_one e now cancel r a b) ys ts)) = settings (snd ts)"
  by (induction ys arbitrary: ts) (simp_all add: seed_one_frame)

lemma shallow_states_lookup:
  "map_of (shallow_states candidates s) k =
     (if k \<in> set candidates then map_option (\<lambda>t. t\<lparr>Status := ''tracking''\<rparr>) (GetTicker s k) else None)"
proof -
  have "map_of (fold (\<lambda>symb tracked. case GetTicker s symb of None \<Rightarrow> tracked
            | Some t \<Rightarrow> AList.update symb (t\<lparr>Status := ''tracking''\<rparr>) tracked) cs al) k =
     (if k \<in> set cs \<and> GetTicker s k \<noteq> None
      then map_option (\<lambda>t. t\<lparr>Status := ''tracking''\<rparr>) (GetTicker s k) else map_of al k)" for cs al
    by (induction cs arbitrary: al) (auto simp: update_conv' split: option.splits)
  from this [of candidates "[]"] show ?thesis by (auto simp: shallow_states_def)
qed

lemma put_back_fold:
  "GetTicker (fold (\<lambda>symb s. case map_of tracked symb of None \<Rightarrow> s | Some ts \<Rightarrow> UpsertTicker symb (\<lambda>t. ts) s) ks s) k =
     (if k \<in> set ks \<and> map_of tracked k \<noteq> None then map_of tracked k else GetTicker s k)"
  by (induction ks arbitrary: s) (auto simp: cells.get_upd split: option.splits)

lemma get_put_back:
  assumes "mset (ord (map fst tracked)) = mset (map fst tracked)"
  shows "GetTicker (put_back ord tracked s) k =
    (case map_of tracked k of None \<Rightarrow> GetTicker s k | Some t \<Rightarrow> Some t)"
proof -
  have "set (ord (map fst tracked)) = fst ` set tracked"
    using mset_eq_setD [OF assms] by simp
  moreover have "k \<in> fst ` set tracked" if "map_of tracked k = Some t" for t
    using map_of_SomeD [OF that] by (rule rev_image_eqI) simp
  ultimately show ?thesis
    by (auto simp: put_back_def put_back_fold split: option.splits)
qed

lemma settings_put_back: "settings (put_back ord tracked s) = settings s"
proof -
  have "settings (fold (\<lambda>symb s. case map_of tracked symb of None \<Rightarrow> s
      | Some ts \<Rightarrow> UpsertTicker symb (\<lambda>t. ts) s) ks s) = settings s" for ks
    by (induction ks arbitrary: s) (simp_all add: frame_simps split: option.splits)
  then show ?thesis by (simp add: put_back_def)
qed

text \<open>The tracked state of one candidate, as a function of its ticker alone.\<close>

definition tracked_cell ::
  "engine \<Rightarrow> (string \<Rightarrow> cancel) \<Rightarrow> (string \<Rightarrow> cancel) \<Rightarrow> rest \<Rightarrow> gotime \<Rightarrow> gotime \<Rightarrow> string
     \<Rightarrow> ticker_state \<Rightarrow> ticker_state" where
  "tracked_cell e cancelH cancelS r openNY selNY k t =
     (let t1 = t\<lparr>Status := ''tracking''\<rparr>;
          t2 = (case avgPrevSessionsOpen5mVol e (cancelH k) r k openNY
                       (Open5mLookbackSessions (cfg_History (e_cfg e))) (MaxCalendarLookback (cfg_History (e_cfg e))) of
                  Inl err \<Rightarrow> t1
                | Inr avg \<Rightarrow>
                    t1\<lparr>Prev10AvgOpen5mVol := avg,
                       Open5mTodayPct := (if 0 < avg then (Open5mVol t / avg) * rnd 100 else 0)\<rparr>)
      in fst (seedVWAPFromTrades (cancelS k) r k openNY selNY t2))"

lemma tracked_lookup:
  assumes "distinct candidates" and "mset (arrive candidates) = mset candidates"
    and "mset (ord (map fst tracked)) = mset (map fst tracked)"
    and b: "buildTrackedStates e now cancelH cancelS arrive ord r openNY selNY candidates s = (tracked, s')"
  shows "map_of tracked k =
      (if k \<in> set candidates then map_option (tracked_cell e cancelH cancelS r openNY selNY k) (GetTicker s k) else None)"
    and "GetTicker s' k = (case map_of tracked k of None \<Rightarrow> GetTicker s k | Some t \<Rightarrow> Some t)"
    and "settings s' = settings s"
proof -
  define results where "results = map (\<lambda>symb. (symb, history_job e (cancelH symb) r openNY s symb)) (arrive candidates)"
  define ts1 where "ts1 = fold (apply_history e now) results (shallow_states candidates s, s)"
  define ts2 where "ts2 = fold (seed_one e now cancelS r openNY selNY) candidates ts1"
  have tr: "tracked = fst ts2" "s' = put_back ord (fst ts2) (snd ts2)"
    using b by (auto simp: buildTrackedStates_def Let_def case_prod_unfold ts1_def ts2_def results_def)
  have keys: "map fst results = arrive candidates" by (simp add: results_def comp_def)
  have dist: "distinct (arrive candidates)" and set: "set (arrive candidates) = set candidates"
    using assms(1,2) by (metis mset_eq_imp_distinct_iff, metis mset_eq_setD)
  have ts1: "map_of (fst ts1) k =
      (if k \<in> set candidates
       then map_option (\<lambda>t. history_cell (history_job e (cancelH k) r openNY s k) (t\<lparr>Status := ''tracking''\<rparr>)) (GetTicker s k)
       else None)" for k
  proof (cases "k \<in> set candidates")
    case False
    then have "k \<notin> fst ` set results" using set keys by (metis list.set_map)
    with False show ?thesis unfolding ts1_def by (simp add: history.get_steps_other shallow_states_lookup)
  next
    case True
    then have "(k, history_job e (cancelH k) r openNY s k) \<in> set results"
      using set by (simp add: results_def)
    from history.get_steps_single [OF _ this, of e now "(shallow_states candidates s, s)"] True
    show ?thesis using dist unfolding ts1_def keys
      by (simp add: shallow_states_lookup option.map_comp comp_def)
  qed
  have hist: "history_cell (history_job e (cancelH k) r openNY s k) (t\<lparr>Status := ''tracking''\<rparr>) =
      (case avgPrevSessionsOpen5mVol e (cancelH k) r k openNY
              (Open5mLookbackSessions (cfg_History (e_cfg e))) (MaxCalendarLookback (cfg_History (e_cfg e))) of
         Inl err \<Rightarrow> t\<lparr>Status := ''tracking''\<rparr>
       | Inr avg \<Rightarrow> t\<lparr>Status := ''tracking'', Prev10AvgOpen5mVol := avg,
            Open5mTodayPct := (if 0 < avg then (Open5mVol t / avg) * rnd 100 else 0)\<rparr>)"
    if "GetTicker s k = Some t" for t
    using that by (simp add: history_job_def split: sum.splits)
  show look: "map_of tracked k =
      (if k \<in> set candidates then map_option (tracked_cell e cancelH cancelS r openNY selNY k) (GetTicker s k) else None)"
  proof (cases "k \<in> set candidates")
    case False
    then show ?thesis unfolding tr(1) ts2_def by (simp add: seeding.get_steps_other ts1)
  next
    case True
    from seeding.get_steps_single [OF _ this, of e now cancelS r openNY selNY ts1] assms(1) True
    show ?thesis unfolding tr(1) ts2_def
      by (cases "GetTicker s k") (simp_all add: ts1 hist tracked_cell_def Let_def)
  qed
  have "GetTicker (snd ts2) k = GetTicker s k" "settings (snd ts2) = settings s"
    by (simp_all add: ts2_def ts1_def history_pass_frame seed_pass_frame)
  then show "GetTicker s' k = (case map_of tracked k of None \<Rightarrow> GetTicker s k | Some t \<Rightarrow> Some t)"
    "settings s' = settings s"
    using assms(3) unfolding tr by (simp_all add: get_put_back settings_put_back split: option.splits)
qed

section \<open>Properties\<close>

text \<open>The historical average: unless the context is done, it is the mean of the opening volumes of the
  most recent earlier days that have one, at most as many as asked for and no further back than the
  lookback; days whose request fails count as days without data, and no such day is an error.\<close>

theorem average_of_latest_sessions:
  "avgPrevSessionsOpen5mVol e (\<lambda>_. None) r symb openNY needed maxd =
     (let vols = take (nat needed) (session_volumes r (e_loc e) symb openNY [1..maxd])
      in if vols = [] then Inl (''no prior sessions found in lookback='' @ show_int maxd @ '' days'')
         else Inr (foldl (+) 0 vols / of_int64 (int (length vols))))"
  by (simp add: avgPrevSessionsOpen5mVol_def avg_loop_spec Let_def)

text \<open>C27. Building the tracked states is deterministic: whatever the order in which the workers' results
  arrive and in which the map is walked, the tracked map has exactly the candidates that have a
  ticker, each with the state computed from its own ticker, and the store agrees with it.\<close>

theorem tracked_states_spec:
  assumes "distinct candidates" and "mset (arrive candidates) = mset candidates"
    and "mset (ord (map fst tracked)) = mset (map fst tracked)"
    and "buildTrackedStates e now cancelH cancelS arrive ord r openNY selNY candidates s = (tracked, s')"
  shows "map_of tracked k =
      (if k \<in> set candidates
       then map_option (tracked_cell e cancelH cancelS r openNY selNY k) (GetTicker s k) else None)
    \<and> GetTicker s' k = (case map_of tracked k of None \<Rightarrow> GetTicker s k | Some t \<Rightarrow> Some t)
    \<and> settings s' = settings s"
  using tracked_lookup [OF assms] by blast

definition empty_rest :: rest where
  "empty_rest = \<lparr>ListAggs = (\<lambda>_ _ _. ([], None)), ListTrades = (\<lambda>_ _ _. ([], None))\<rparr>"

theorem tracked_states_spec_witness:
  "\<exists>tracked s'. buildTrackedStates plain_engine 0 (\<lambda>_ _. None) (\<lambda>_ _. None) rev rev empty_rest 0 1 [''A'', ''B'']
       ((New 0 zero_config [])\<lparr>tickers := [(''A'', new_ticker ''A''), (''B'', new_ticker ''B'')]\<rparr>) = (tracked, s')
     \<and> map_of tracked ''C'' = None \<and> map_of tracked ''B'' \<noteq> None"
proof -
  let ?s = "(New 0 zero_config [])\<lparr>tickers := [(''A'', new_ticker ''A''), (''B'', new_ticker ''B'')]\<rparr>"
  obtain tracked s' where b: "buildTrackedStates plain_engine 0 (\<lambda>_ _. None) (\<lambda>_ _. None) rev rev empty_rest 0 1
      [''A'', ''B''] ?s = (tracked, s')" by fastforce
  have "mset (rev (map fst tracked)) = mset (map fst tracked)" "mset (rev [''A'', ''B'']) = mset [''A'', ''B'']"
    by simp_all
  note spec = tracked_states_spec [OF _ this(2) this(1) b]
  from spec [of "''C''"] spec [of "''B''"] b show ?thesis by (auto simp: GetTicker_def)
qed

text \<open>The seeding of one ticker as a batch computation.\<close>

definition seeds :: "rest_trade \<Rightarrow> bool" where
  "seeds tr \<longleftrightarrow> \<not> tr_Price tr \<le> 0 \<and> \<not> tr_Size tr \<le> 0 \<and> tradeTimeMillis tr \<noteq> 0"

lemma seed_trade_fields:
  "CumPV (seed_trade c tr t) = (if seeds tr then CumPV t + tr_Price tr * tr_Size tr else CumPV t)"
  "CumV (seed_trade c tr t) = (if seeds tr then CumV t + tr_Size tr else CumV t)"
  "VWAP (seed_trade c tr t) =
     (if seeds tr \<and> 0 < CumV t + tr_Size tr
      then (CumPV t + tr_Price tr * tr_Size tr) / (CumV t + tr_Size tr) else VWAP t)"
  "LastPrice (seed_trade c tr t) = (if seeds tr then tr_Price tr else LastPrice t)"
  "LastTrade (seed_trade c tr t) = (if seeds tr then UnixMilli (tradeTimeMillis tr) else LastTrade t)"
  "HasPosition (seed_trade c tr t) = HasPosition t" "Exited (seed_trade c tr t) = Exited t"
  by (auto simp: seed_trade_def seeds_def Let_def)

lemma seed_loop_none:
  "seed_loop (\<lambda>_. None) c i trs t = (fold (seed_trade c) trs t, None)"
  by (induction trs arbitrary: i t) simp_all

text \<open>What seeding computes of a ticker.\<close>

definition seed_view ::
  "ticker_state \<Rightarrow> (float64 \<times> float64 \<times> float64) \<times> (float64 \<times> gotime) \<times> bool \<times> gotime \<times> float64" where
  "seed_view t = ((CumPV t, CumV t, VWAP t), (LastPrice t, LastTrade t),
     SawCrossInWindow t, FirstCrossTime t, FirstCrossPrice t)"

definition before_selection ::
  "gotime \<Rightarrow> gotime \<Rightarrow> gotime \<Rightarrow> gotime \<Rightarrow> rest_trade \<Rightarrow> bool" where
  "before_selection openNY selNY cutoffNY exitNY tr \<longleftrightarrow>
     tradeTimeMillis tr \<noteq> 0 \<and> openNY \<le> UnixMilli (tradeTimeMillis tr)
     \<and> UnixMilli (tradeTimeMillis tr) < selNY \<and> selNY \<le> cutoffNY \<and> cutoffNY \<le> exitNY"

lemma seed_trade_cross:
  "seeds tr \<Longrightarrow>
     (SawCrossInWindow (seed_trade c tr t), FirstCrossTime (seed_trade c tr t), FirstCrossPrice (seed_trade c tr t))
     = (if \<not> SawCrossInWindow t \<and> c \<le> UnixMilli (tradeTimeMillis tr)
           \<and> 0 < LastPrice t \<and> 0 < VWAP t \<and> LastPrice t < VWAP t
           \<and> (if 0 < CumV t + tr_Size tr then (CumPV t + tr_Price tr * tr_Size tr) / (CumV t + tr_Size tr)
               else VWAP t) \<le> tr_Price tr
        then (True, UnixMilli (tradeTimeMillis tr), tr_Price tr)
        else (SawCrossInWindow t, FirstCrossTime t, FirstCrossPrice t))"
  by (auto simp: seed_trade_def seeds_def Let_def not_less)

lemma seed_trade_skip: "\<not> seeds tr \<Longrightarrow> seed_trade c tr t = t"
  by (auto simp: seed_trade_def seeds_def)

lemma LastTrade_trade_update: "LastTrade (trade_update u m p z t) = u"
  by (auto simp: trade_update_def track_excursion_def vwap_update_def Let_def)

lemma replay_cross:
  "accepted a d (UnixMilli ms) p z \<Longrightarrow> \<not> HasPosition t \<Longrightarrow> \<not> Exited t \<Longrightarrow> UnixMilli ms < c \<Longrightarrow>
     (SawCrossInWindow (trade_cell e f so a b c d ms p z False t),
      FirstCrossTime (trade_cell e f so a b c d ms p z False t),
      FirstCrossPrice (trade_cell e f so a b c d ms p z False t))
     = (if \<not> SawCrossInWindow t \<and> a + minute_ns \<le> UnixMilli ms
           \<and> 0 < LastPrice t \<and> 0 < VWAP t \<and> LastPrice t < VWAP t
           \<and> (if 0 < CumV t + z then (CumPV t + p * z) / (CumV t + z) else VWAP t) \<le> p
        then (True, UnixMilli ms, p)
        else (SawCrossInWindow t, FirstCrossTime t, FirstCrossPrice t))"
  by (auto simp: trade_cell_def crossed_cell_def cross_now_def mark_cross_def Let_def)

lemma replay_fields:
  "LastPrice (trade_cell e f so a b c d ms p z False t) = (if accepted a d (UnixMilli ms) p z then p else LastPrice t)"
  "LastTrade (trade_cell e f so a b c d ms p z False t)
     = (if accepted a d (UnixMilli ms) p z then UnixMilli ms else LastTrade t)"
  by (simp_all add: trade_cell_def crossed_cell_def mark_cross_def Let_def LastTrade_trade_update)

lemma seed_view_trade:
  assumes "before_selection a b c d tr" and no: "\<not> HasPosition t" "\<not> Exited t"
  shows "seed_view (trade_cell e f so a b c d (tradeTimeMillis tr) (tr_Price tr) (tr_Size tr) False t)
    = seed_view (seed_trade (a + 1 * minute_ns) tr t)"
proof -
  let ?u = "UnixMilli (tradeTimeMillis tr)"
  have acc: "accepted a d ?u (tr_Price tr) (tr_Size tr) = seeds tr"
    using assms(1) by (auto simp: accepted_def seeds_def before_selection_def minute_ns_def sec_ns_def)
  have lt: "?u < c" using assms(1) by (simp add: before_selection_def)
  show ?thesis
  proof (cases "seeds tr")
    case False
    then show ?thesis by (simp add: trade_cell_def acc seed_trade_skip Let_def)
  next
    case True
    show ?thesis
      unfolding seed_view_def replay_fields trade_cell_vwap_fields acc seed_trade_fields
        replay_cross [OF acc [THEN iffD2, OF True] no lt] seed_trade_cross [OF True] mult_1
      by (simp only: True if_True simp_thms)
  qed
qed

lemma seed_trade_cong:
  assumes "seed_view t = seed_view t'"
  shows "seed_view (seed_trade c tr t) = seed_view (seed_trade c tr t')"
proof (cases "seeds tr")
  case False
  with assms show ?thesis by (simp add: seed_trade_skip)
next
  case True
  have f: "CumPV t = CumPV t'" "CumV t = CumV t'" "VWAP t = VWAP t'" "LastPrice t = LastPrice t'"
    "SawCrossInWindow t = SawCrossInWindow t'" "FirstCrossTime t = FirstCrossTime t'"
    "FirstCrossPrice t = FirstCrossPrice t'"
    using assms by (simp_all add: seed_view_def)
  show ?thesis
    unfolding seed_view_def seed_trade_fields seed_trade_cross [OF True] f using True by simp
qed

text \<open>C13. Seeding is a replay: feeding the trades before the selection to the trade handler with actions
  switched off leaves the same sums, VWAP, last price and first cross in the store as seeding the
  ticker from them directly.\<close>

theorem seeding_equals_replay:
  assumes "GetTicker s k = Some t" and "k \<noteq> []" and "\<not> HasPosition t" and "\<not> Exited t"
    and "\<forall>tr \<in> set trs. before_selection openNY selNY cutoffNY exitNY tr"
  shows "\<exists>t'. GetTicker (fold (\<lambda>tr. processTrade e openNY selNY cutoffNY exitNY k (tradeTimeMillis tr)
        (tr_Price tr) (tr_Size tr) False) trs s) k = Some t'
    \<and> seed_view t' = seed_view (fst (seed_loop (\<lambda>_. None) (openNY + 1 * minute_ns) 0 trs t))"
proof -
  have "\<exists>t'. GetTicker (fold (\<lambda>tr. processTrade e openNY selNY cutoffNY exitNY k (tradeTimeMillis tr)
        (tr_Price tr) (tr_Size tr) False) trs s) k = Some t'
    \<and> seed_view t' = seed_view (fold (seed_trade (openNY + 1 * minute_ns)) trs t1)"
    if "GetTicker s k = Some t" "\<not> HasPosition t" "\<not> Exited t" "seed_view t = seed_view t1" for s t t1
    using that assms(5)
  proof (induction trs arbitrary: s t t1)
    case Nil
    then show ?case by simp
  next
    case (Cons tr trs)
    let ?t = "trade_cell e (Filters s) (fst (Times s)) openNY selNY cutoffNY exitNY (tradeTimeMillis tr)
        (tr_Price tr) (tr_Size tr) False t"
    have g: "GetTicker (processTrade e openNY selNY cutoffNY exitNY k (tradeTimeMillis tr)
        (tr_Price tr) (tr_Size tr) False s) k = Some ?t"
      using Cons.prems(1) assms(2) by (simp add: get_processTrade)
    have pos: "\<not> HasPosition ?t" "\<not> Exited ?t"
      using Cons.prems(2,3) by (simp_all add: trade_cell_lifecycle_frame)
    have "before_selection openNY selNY cutoffNY exitNY tr" using Cons.prems(5) by simp
    then have "seed_view ?t = seed_view (seed_trade (openNY + 1 * minute_ns) tr t)"
      using Cons.prems(2,3) by (rule seed_view_trade)
    also have "\<dots> = seed_view (seed_trade (openNY + 1 * minute_ns) tr t1)"
      using Cons.prems(4) by (rule seed_trade_cong)
    finally show ?case using Cons.IH [OF g pos] Cons.prems(5) by simp
  qed
  from this [OF assms(1,3,4) refl] show ?thesis by (simp add: seed_loop_none)
qed

definition sample_tape :: "rest_trade list" where
  "sample_tape =
     [\<lparr>SipTimestamp = 34205 * sec_ns, ParticipantTimestamp = zero_time, TrfTimestamp = zero_time,
       tr_Price = Fin 10, tr_Size = Fin 100\<rparr>,
      \<lparr>SipTimestamp = zero_time, ParticipantTimestamp = 34270 * sec_ns, TrfTimestamp = zero_time,
       tr_Price = Fin 12, tr_Size = Fin 100\<rparr>]"

theorem seeding_equals_replay_witness:
  "\<exists>t'. GetTicker (fold (\<lambda>tr. processTrade plain_engine (34200 * sec_ns) (34500 * sec_ns) (34980 * sec_ns)
        (39600 * sec_ns) ''A'' (tradeTimeMillis tr) (tr_Price tr) (tr_Size tr) False) sample_tape
        ((New 0 zero_config [])\<lparr>tickers := [(''A'', new_ticker ''A'')]\<rparr>)) ''A'' = Some t'
    \<and> seed_view t' = seed_view (fst (seed_loop (\<lambda>_. None) (34200 * sec_ns + 1 * minute_ns) 0 sample_tape
        (new_ticker ''A'')))"
proof -
  have "\<forall>tr \<in> set sample_tape. before_selection (34200 * sec_ns) (34500 * sec_ns) (34980 * sec_ns) (39600 * sec_ns) tr"
    by (simp add: sample_tape_def before_selection_def tradeTimeMillis_def IsZero_def zero_time_def
        to_millis_def UnixMilli_def sec_ns_def)
  then show ?thesis
    by (intro seeding_equals_replay) (simp_all add: GetTicker_def new_ticker_def)
qed

end
