(* ===== verification/Historic.thy ===== *)
theory Historic
  imports Tracking
begin

text \<open>
  The historic mode's data collection (\<open>internal/engine/historic.go\<close>): opening metrics of the watchlist,
  correction of the candidates, the probe for session data, the resolution of the session date and
  the sold-off scan. Worker pools, map order and cancellation are modelled as in \<open>Tracking\<close>.

  Messages are UTF-8; \<open>utf8_arrow\<close>, \<open>utf8_ellipsis\<close> and \<open>utf8_dash\<close> are the bytes of the non-ASCII
  characters the code writes.

  The lemmas show that a pool's result does not depend on the order of arrival, which session date is
  chosen, and that the sold-off list is complete and sorted.
\<close>

definition utf8_arrow :: string where "utf8_arrow = map char_of [226, 134, 146 :: nat]"
definition utf8_ellipsis :: string where "utf8_ellipsis = map char_of [226, 128, 166 :: nat]"
definition utf8_dash :: string where "utf8_dash = map char_of [226, 128, 148 :: nat]"
definition utf8_endash :: string where "utf8_endash = map char_of [226, 128, 147 :: nat]"

section \<open>Opening metrics of the watchlist\<close>

record open5m_metric =
  om_Open0930 :: float64
  om_ORHigh :: float64
  om_ORLow :: float64
  om_Open5mVol :: float64
  om_RangePct :: float64

definition zero_metric :: open5m_metric where
  "zero_metric = \<lparr>om_Open0930 = 0, om_ORHigh = 0, om_ORLow = 0, om_Open5mVol = 0, om_RangePct = 0\<rparr>"

definition snapshotOpen5mMetricsForWatchlist :: "store \<Rightarrow> (string \<times> open5m_metric) list" where
  "snapshotOpen5mMetricsForWatchlist s =
     fold (\<lambda>symb out.
             case GetTicker s symb of
               None \<Rightarrow> out
             | Some t \<Rightarrow>
                 if Open0930 t \<le> 0 \<or> ORHigh t \<le> 0 \<or> ORLow t \<le> 0 \<or> Open5mVol t \<le> 0 then out
                 else AList.update symb
                        \<lparr>om_Open0930 = Open0930 t, om_ORHigh = ORHigh t, om_ORLow = ORLow t,
                         om_Open5mVol = Open5mVol t, om_RangePct = open_range t\<rparr> out)
       (Watchlist s) []"

section \<open>Collecting and correcting through REST\<close>

fun collect_result :: "string \<times> metrics fetch \<Rightarrow> store \<Rightarrow> store" where
  "collect_result (symb, Inl err) s = s"
| "collect_result (symb, Inr None) s = s"
| "collect_result (symb, Inr (Some m)) s =
     (if m_open0930 m \<le> 0 \<or> m_orHigh m \<le> 0 \<or> m_orLow m \<le> 0 then s
      else UpsertTicker symb
             (\<lambda>t. t\<lparr>Open0930 := m_open0930 m, ORHigh := m_orHigh m, ORLow := m_orLow m, Open5mVol := m_vol m\<rparr>) s)"

definition collectOpen5mViaREST ::
  "(string list \<Rightarrow> string list) \<Rightarrow> rest \<Rightarrow> gotime \<Rightarrow> gotime \<Rightarrow> store \<Rightarrow> store" where
  "collectOpen5mViaREST arrive r openNY selNY s =
     fold collect_result (map (\<lambda>symb. (symb, Open5mMetrics r symb openNY selNY)) (arrive (Watchlist s))) s"

definition metric_range :: "metrics \<Rightarrow> float64" where
  "metric_range m = (m_orHigh m - m_orLow m) / m_open0930 m"

fun correct_result ::
  "runtime_filters \<Rightarrow> string \<times> metrics fetch \<Rightarrow> store \<times> string list \<Rightarrow> store \<times> string list" where
  "correct_result f (symb, Inl err) (s, out) = (s, out)"
| "correct_result f (symb, Inr None) (s, out) = (s, out)"
| "correct_result f (symb, Inr (Some m)) (s, out) =
     (if m_open0930 m \<le> 0 \<or> m_orHigh m \<le> 0 \<or> m_orLow m \<le> 0 then (s, out)
      else let rng = metric_range m;
               s = UpsertTicker symb
                     (\<lambda>t. t\<lparr>Open0930 := m_open0930 m, Open0930Estimated := False, ORHigh := m_orHigh m,
                            ORLow := m_orLow m, Open5mVol := m_vol m, Open5mRangePct := rng\<rparr>) s
           in (s, if range_ok f rng (m_vol m) then out @ [symb] else out))"

definition correctCandidatesOpen5mViaREST ::
  "(string list \<Rightarrow> string list) \<Rightarrow> rest \<Rightarrow> gotime \<Rightarrow> gotime \<Rightarrow> string list \<Rightarrow> store \<Rightarrow> store \<times> string list" where
  "correctCandidatesOpen5mViaREST arrive r openNY selNY candidates s =
     (if candidates = [] then (s, candidates)
      else (case fold (correct_result (Filters s))
                   (map (\<lambda>symb. (symb, Open5mMetrics r symb openNY selNY)) (arrive candidates)) (s, []) of
              (s, out) \<Rightarrow> (s, sort out)))"

section \<open>Probing for a session\<close>

fun probe_loop ::
  "cancel \<Rightarrow> rest \<Rightarrow> gotime \<Rightarrow> gotime \<Rightarrow> nat \<Rightarrow> string list \<Rightarrow> string option \<Rightarrow> bool \<Rightarrow> string + bool" where
  "probe_loop cancel r openNY selNY i [] lastErr sawNonErr =
     (case lastErr of
        Some err \<Rightarrow> if \<not> sawNonErr then Inl err else Inr False
      | None \<Rightarrow> Inr False)"
| "probe_loop cancel r openNY selNY i (symb # symbs) lastErr sawNonErr =
     (case cancel i of
        Some err \<Rightarrow> Inl err
      | None \<Rightarrow>
          (case Open5mMetrics r symb openNY selNY of
             Inl err \<Rightarrow> probe_loop cancel r openNY selNY (i + 1) symbs (Some err) sawNonErr
           | Inr None \<Rightarrow> probe_loop cancel r openNY selNY (i + 1) symbs lastErr True
           | Inr (Some m) \<Rightarrow>
               if 0 < m_open0930 m \<and> 0 < m_orHigh m \<and> 0 < m_orLow m \<and> 0 < m_vol m then Inr True
               else probe_loop cancel r openNY selNY (i + 1) symbs lastErr True))"

definition hasOpen5mData ::
  "cancel \<Rightarrow> rest \<Rightarrow> gotime \<Rightarrow> gotime \<Rightarrow> store \<Rightarrow> string + bool" where
  "hasOpen5mData cancel r openNY selNY s =
     (let wl = Watchlist s
      in if wl = [] then Inl ''watchlist is empty''
         else probe_loop cancel r openNY selNY 0 (take 8 wl) None False)"

section \<open>Resolving the session date\<close>

text \<open>\<open>for d.Weekday() == wd { d = d.AddDate(0, 0, -n) }\<close>.\<close>

partial_function (option) skip_days :: "zone \<Rightarrow> int \<Rightarrow> int \<Rightarrow> gotime \<Rightarrow> gotime option" where
  "skip_days z wd n d =
     (if Weekday (local_day z d) = wd then skip_days z wd n (AddDays z d (- n)) else Some d)"

definition step_back :: "zone \<Rightarrow> gotime \<Rightarrow> gotime option" where
  "step_back z d =
     Option.bind (skip_days z Saturday 1 (AddDays z d (- 1))) (\<lambda>d. skip_days z Sunday 2 d)"

definition resolve_note :: "zone \<Rightarrow> gotime \<Rightarrow> gotime \<Rightarrow> string" where
  "resolve_note z target d =
     (if \<not> sameDayInLoc z d target
      then ''Requested '' @ fmt_ymd z target @ ''; market closed / no data '' @ utf8_dash @ '' showing ''
           @ fmt_ymd z d @ ''.''
      else [])"

text \<open>The outer option is the one of the loops: \<open>None\<close> would be a loop that does not end.\<close>

fun resolve_loop ::
  "engine \<Rightarrow> cancel \<Rightarrow> (nat \<Rightarrow> cancel) \<Rightarrow> rest \<Rightarrow> store \<Rightarrow> gotime \<Rightarrow> int \<Rightarrow> nat \<Rightarrow> nat \<Rightarrow> gotime
     \<Rightarrow> (string + (gotime \<times> string)) option" where
  "resolve_loop e cancel cancelD r s target maxAttempts i 0 d =
     Some (Inl (''no market session data found within '' @ show_int maxAttempts @ '' days of ''
                @ fmt_ymd (e_loc e) target))"
| "resolve_loop e cancel cancelD r s target maxAttempts i (Suc left) d =
     (case cancel i of
        Some err \<Rightarrow> Some (Inl err)
      | None \<Rightarrow>
          let openNY = atTime (e_loc e) d (OpenTime (cfg_Market (e_cfg e)));
              selNY = atTime (e_loc e) d (SelectionTime (cfg_Market (e_cfg e)))
          in (case hasOpen5mData (cancelD i) r openNY selNY s of
                Inl err \<Rightarrow> Some (Inl err)
              | Inr True \<Rightarrow> Some (Inr (d, resolve_note (e_loc e) target d))
              | Inr False \<Rightarrow>
                  Option.bind (step_back (e_loc e) d)
                    (\<lambda>d. resolve_loop e cancel cancelD r s target maxAttempts (i + 1) left d)))"

definition resolveHistoricSessionDate ::
  "engine \<Rightarrow> cancel \<Rightarrow> (nat \<Rightarrow> cancel) \<Rightarrow> rest \<Rightarrow> gotime \<Rightarrow> gotime \<Rightarrow> store
     \<Rightarrow> (string + (gotime \<times> string)) option" where
  "resolveHistoricSessionDate e cancel cancelD r targetDayNY asOfNY s =
     (let z = e_loc e;
          target = dateOnlyInLoc z targetDayNY;
          today = dateOnlyInLoc z asOfNY
      in if today < target
         then Some (Inl (''date is in the future (max '' @ fmt_ymd z today @ '')''))
         else let d = (if Weekday (local_day z target) = Saturday then AddDays z target (- 1)
                       else if Weekday (local_day z target) = Sunday then AddDays z target (- 2)
                       else target);
                  maxAttempts = MaxCalendarLookback (cfg_History (e_cfg e)) + 15;
                  maxAttempts = (if maxAttempts < 10 then 10 else maxAttempts)
              in resolve_loop e cancel cancelD r s target maxAttempts 0 (nat maxAttempts) d)"

section \<open>The sold-off scan\<close>

record pre =
  pre_sym :: string
  pre_m :: open5m_metric
  pre_low :: float64
  pre_lowTime :: gotime
  pre_last :: float64
  pre_drop :: float64

definition metric_of :: "(string \<times> open5m_metric) list \<Rightarrow> string \<Rightarrow> open5m_metric" where
  "metric_of openMetrics symb = (case map_of openMetrics symb of None \<Rightarrow> zero_metric | Some m \<Rightarrow> m)"

definition eligible :: "runtime_filters \<Rightarrow> open5m_metric \<Rightarrow> bool" where
  "eligible f m \<longleftrightarrow>
     \<not> (om_Open0930 m \<le> 0 \<or> om_Open5mVol m \<le> 0) \<and> \<not> om_RangePct m < SoldOffOpen5mRangePctMin f"

definition drop_pct :: "open5m_metric \<Rightarrow> float64 \<Rightarrow> float64" where
  "drop_pct m low = (om_Open0930 m - low) / om_Open0930 m"

fun stage1_result ::
  "runtime_filters \<Rightarrow> (string \<times> open5m_metric) list \<Rightarrow> string \<times> (float64 \<times> gotime \<times> float64) fetch
     \<Rightarrow> (string \<times> pre) list \<Rightarrow> (string \<times> pre) list" where
  "stage1_result f openMetrics (symb, Inl err) preBySym = preBySym"
| "stage1_result f openMetrics (symb, Inr None) preBySym = preBySym"
| "stage1_result f openMetrics (symb, Inr (Some (low, lowTime, lst))) preBySym =
     (let m = metric_of openMetrics symb
      in if om_Open0930 m \<le> 0 \<or> low \<le> 0 then preBySym
         else let dr = drop_pct m low
              in if dr < SoldOffFromOpenPctMin f then preBySym
                 else AList.update symb
                        \<lparr>pre_sym = symb, pre_m = m, pre_low = low, pre_lowTime = lowTime, pre_last = lst,
                         pre_drop = dr\<rparr> preBySym)"

text \<open>
  The second stage's job: \<open>Inl None\<close> is \<open>s2\<close> with an error, \<open>Inr\<close> its percentage, which is zero
  when the average is not positive and there is no error.
\<close>

definition stage2_job ::
  "engine \<Rightarrow> cancel \<Rightarrow> rest \<Rightarrow> gotime \<Rightarrow> (string \<times> pre) list \<Rightarrow> string \<Rightarrow> string + float64" where
  "stage2_job e cancel r openNY preBySym symb =
     (case avgPrevSessionsOpen5mVol e cancel r symb openNY
             (Open5mLookbackSessions (cfg_History (e_cfg e))) (MaxCalendarLookback (cfg_History (e_cfg e))) of
        Inl err \<Rightarrow> Inl err
      | Inr avg \<Rightarrow>
          if avg \<le> 0 then Inr 0
          else Inr ((om_Open5mVol (pre_m (the (map_of preBySym symb))) / avg) * rnd 100))"

definition sold_off_record :: "zone \<Rightarrow> pre \<Rightarrow> float64 \<Rightarrow> historic_sold_off" where
  "sold_off_record z p pct =
     \<lparr>so_Symbol = pre_sym p, so_Open0930 = om_Open0930 (pre_m p), so_LowPrice = pre_low p,
      so_LowTimeNY = fmt_hms z (pre_lowTime p), so_PriceAtScanTime = pre_last p, so_DropPct = pre_drop p,
      so_Open5mVol = om_Open5mVol (pre_m p), so_Open5mRangePct = om_RangePct (pre_m p),
      so_Open5mTodayPct = pct\<rparr>"

fun stage2_result ::
  "zone \<Rightarrow> runtime_filters \<Rightarrow> (string \<times> pre) list \<Rightarrow> string \<times> (string + float64)
     \<Rightarrow> historic_sold_off list" where
  "stage2_result z f preBySym (symb, Inl err) = []"
| "stage2_result z f preBySym (symb, Inr pct) =
     (if pct < SoldOffOpen5mTodayPctMin f then []
      else [sold_off_record z (the (map_of preBySym symb)) pct])"

definition sold_off_less :: "historic_sold_off \<Rightarrow> historic_sold_off \<Rightarrow> bool" where
  "sold_off_less a b =
     (if feq (so_DropPct a) (so_DropPct b) then so_Symbol a < so_Symbol b else so_DropPct b < so_DropPct a)"

definition scanSoldOff ::
  "engine \<Rightarrow> gotime \<Rightarrow> (string \<Rightarrow> cancel) \<Rightarrow> (string list \<Rightarrow> string list) \<Rightarrow> (string list \<Rightarrow> string list)
     \<Rightarrow> map_order \<Rightarrow> map_order \<Rightarrow> rest \<Rightarrow> gotime \<Rightarrow> gotime \<Rightarrow> (string \<times> open5m_metric) list \<Rightarrow> store
     \<Rightarrow> historic_sold_off list \<times> store" where
  "scanSoldOff e now cancel arrive1 arrive2 ord1 ord2 r openNY scanEndNY openMetrics s =
     (let f = Filters s
      in if scanEndNY < openNY + 1 * minute_ns then ([], s)
         else
           let syms = sort (filter (\<lambda>symb. eligible f (metric_of openMetrics symb)) (ord1 (map fst openMetrics)))
           in if syms = [] then ([], s)
              else
                let s = emit e now ''SYSTEM'' []
                          (''Sold-off scan: checking '' @ show_int (int (length syms)) @ '' tickers (09:30 ''
                           @ utf8_arrow @ '' '' @ fmt_hms (e_loc e) scanEndNY @ '')'' @ utf8_ellipsis)
                          [] ''info'' s;
                    results = map (\<lambda>symb. (symb, MinLowAndLastClose r symb openNY scanEndNY)) (arrive1 syms);
                    preBySym = fold (stage1_result f openMetrics) results []
                in if preBySym = []
                   then ([], emit e now ''SYSTEM'' []
                           ''Sold-off scan: 0 tickers matched the drop + Open5m Range% filters.'' [] ''info'' s)
                   else
                     let preSyms = sort (ord2 (map fst preBySym));
                         results2 = map (\<lambda>symb. (symb, stage2_job e (cancel symb) r openNY preBySym symb))
                                      (arrive2 preSyms);
                         out = concat (map (stage2_result (e_loc e) f preBySym) results2);
                         out = sort_slice sold_off_less out
                     in (out, emit e now ''SYSTEM'' []
                            (''Sold-off scan: '' @ show_int (int (length out)) @ '' tickers matched.'')
                            [] ''info'' s))"

section \<open>Lemmas on the pools\<close>

lemma snapshot_lookup:
  "map_of (snapshotOpen5mMetricsForWatchlist s) k =
     (if k \<in> set (watchlist s)
      then Option.bind (GetTicker s k) (\<lambda>t.
             if Open0930 t \<le> 0 \<or> ORHigh t \<le> 0 \<or> ORLow t \<le> 0 \<or> Open5mVol t \<le> 0 then None
             else Some \<lparr>om_Open0930 = Open0930 t, om_ORHigh = ORHigh t, om_ORLow = ORLow t,
                        om_Open5mVol = Open5mVol t, om_RangePct = open_range t\<rparr>)
      else None)"
proof -
  define pick where "pick t = (if Open0930 t \<le> 0 \<or> ORHigh t \<le> 0 \<or> ORLow t \<le> 0 \<or> Open5mVol t \<le> 0 then None
     else Some \<lparr>om_Open0930 = Open0930 t, om_ORHigh = ORHigh t, om_ORLow = ORLow t,
                om_Open5mVol = Open5mVol t, om_RangePct = open_range t\<rparr>)" for t
  have step: "(case GetTicker s symb of None \<Rightarrow> out
             | Some t \<Rightarrow>
                 if Open0930 t \<le> 0 \<or> ORHigh t \<le> 0 \<or> ORLow t \<le> 0 \<or> Open5mVol t \<le> 0 then out
                 else AList.update symb
                        \<lparr>om_Open0930 = Open0930 t, om_ORHigh = ORHigh t, om_ORLow = ORLow t,
                         om_Open5mVol = Open5mVol t, om_RangePct = open_range t\<rparr> out) =
      (case Option.bind (GetTicker s symb) pick of None \<Rightarrow> out | Some m \<Rightarrow> AList.update symb m out)" for symb out
    by (simp add: pick_def split: option.splits)
  have "map_of (fold (\<lambda>symb out. case Option.bind (GetTicker s symb) pick of None \<Rightarrow> out
          | Some m \<Rightarrow> AList.update symb m out) wl al) k =
      (if k \<in> set wl \<and> Option.bind (GetTicker s k) pick \<noteq> None then Option.bind (GetTicker s k) pick
       else map_of al k)" for wl al
    by (induction wl arbitrary: al) (auto simp: update_conv' split: option.splits)
  from this [of "watchlist s" "[]"] show ?thesis
    unfolding snapshotOpen5mMetricsForWatchlist_def step Watchlist_def by (auto simp: pick_def [abs_def])
qed

text \<open>What a REST result does to the ticker of its symbol.\<close>

definition good_metrics :: "metrics fetch \<Rightarrow> metrics option" where
  "good_metrics x =
     (case x of
        Inr (Some m) \<Rightarrow>
          if m_open0930 m \<le> 0 \<or> m_orHigh m \<le> 0 \<or> m_orLow m \<le> 0 then None else Some m
      | _ \<Rightarrow> None)"

definition collect_cell :: "metrics \<Rightarrow> ticker_state \<Rightarrow> ticker_state" where
  "collect_cell m t = t\<lparr>Open0930 := m_open0930 m, ORHigh := m_orHigh m, ORLow := m_orLow m, Open5mVol := m_vol m\<rparr>"

lemma collect_result_eq:
  "collect_result (symb, x) s =
     (case good_metrics x of None \<Rightarrow> s | Some m \<Rightarrow> UpsertTicker symb (collect_cell m) s)"
  by (cases "((symb, x), s)" rule: collect_result.cases) (auto simp: good_metrics_def collect_cell_def [abs_def])

lemma collect_pool:
  "GetTicker (fold collect_result (map (\<lambda>k. (k, job k)) ks) s) k =
     (if k \<in> set ks \<and> good_metrics (job k) \<noteq> None
      then map_option (\<lambda>m. collect_cell m (case GetTicker s k of None \<Rightarrow> new_ticker k | Some t \<Rightarrow> t))
             (good_metrics (job k))
      else GetTicker s k)"
proof (induction ks arbitrary: s)
  case Nil
  then show ?case by simp
next
  case (Cons x ks)
  have idem: "collect_cell m (collect_cell m t) = collect_cell m t" for m t
    by (simp add: collect_cell_def)
  show ?case
    by (cases "good_metrics (job x)") (auto simp: Cons collect_result_eq cells.get_upd idem)
qed

lemma collect_settings: "settings (fold collect_result xs s) = settings s"
proof (induction xs arbitrary: s)
  case (Cons x xs)
  then show ?case by (cases x) (simp add: collect_result_eq frame_simps split: option.splits)
qed simp

definition correct_cell :: "metrics \<Rightarrow> ticker_state \<Rightarrow> ticker_state" where
  "correct_cell m t = t\<lparr>Open0930 := m_open0930 m, Open0930Estimated := False, ORHigh := m_orHigh m,
     ORLow := m_orLow m, Open5mVol := m_vol m, Open5mRangePct := metric_range m\<rparr>"

lemma correct_result_eq:
  "correct_result f (symb, x) (s, out) =
     (case good_metrics x of
        None \<Rightarrow> (s, out)
      | Some m \<Rightarrow> (UpsertTicker symb (correct_cell m) s,
                  if range_ok f (metric_range m) (m_vol m) then out @ [symb] else out))"
  by (cases "(f, (symb, x), (s, out))" rule: correct_result.cases)
    (auto simp: good_metrics_def correct_cell_def [abs_def] Let_def)

definition corrected :: "runtime_filters \<Rightarrow> metrics fetch \<Rightarrow> bool" where
  "corrected f x \<longleftrightarrow>
     (case good_metrics x of None \<Rightarrow> False | Some m \<Rightarrow> range_ok f (metric_range m) (m_vol m))"

lemma correct_pool:
  "snd (fold (correct_result f) (map (\<lambda>k. (k, job k)) ks) (s, out)) = out @ filter (\<lambda>k. corrected f (job k)) ks
   \<and> GetTicker (fst (fold (correct_result f) (map (\<lambda>k. (k, job k)) ks) (s, out))) k =
       (if k \<in> set ks \<and> good_metrics (job k) \<noteq> None
        then map_option (\<lambda>m. correct_cell m (case GetTicker s k of None \<Rightarrow> new_ticker k | Some t \<Rightarrow> t))
               (good_metrics (job k))
        else GetTicker s k)
   \<and> settings (fst (fold (correct_result f) (map (\<lambda>k. (k, job k)) ks) (s, out))) = settings s"
proof (induction ks arbitrary: s out)
  case Nil
  then show ?case by simp
next
  case (Cons x ks)
  have idem: "correct_cell m (correct_cell m t) = correct_cell m t" for m t
    by (simp add: correct_cell_def)
  show ?case
  proof (cases "good_metrics (job x)")
    case None
    with Cons show ?thesis by (auto simp: correct_result_eq corrected_def)
  next
    case (Some m)
    let ?s = "UpsertTicker x (correct_cell m) s"
    have "settings ?s = settings s" by (simp add: frame_simps)
    with Some Cons [of ?s "out @ [x]"] Cons [of ?s out] show ?thesis
      by (auto simp: correct_result_eq corrected_def cells.get_upd idem)
  qed
qed

section \<open>Lemmas on dates\<close>

definition midnight :: "zone \<Rightarrow> int \<Rightarrow> gotime" where
  "midnight z n = unlocal z (n * 86400) * sec_ns"

definition weekday :: "int \<Rightarrow> bool" where
  "weekday n \<longleftrightarrow> Weekday n \<noteq> Saturday \<and> Weekday n \<noteq> Sunday"

lemma dateOnlyInLoc_midnight: "dateOnlyInLoc z t = midnight z (local_day z t)"
proof -
  obtain y m d where c: "civil z t = (y, m, d)" by (cases "civil z t")
  have "days_of_civil y m (d + 0) = local_day z t + 0"
    using c unfolding civil_def by (rule days_of_civil_of_days)
  then show ?thesis by (simp add: dateOnlyInLoc_def c go_date_def midnight_def)
qed

lemma midnight_local:
  assumes "full_days z"
  shows "local_day z (midnight z n) = n" and "clock_secs z (midnight z n) = 0"
    and "midnight z n mod sec_ns = 0"
proof -
  have rb: "reads_back z (n * 86400)" using assms by (simp add: full_days_def)
  have "local_secs z (midnight z n) = n * 86400"
    using local_secs_unlocal [OF rb, of 0] by (simp add: midnight_def sec_ns_def)
  then show "local_day z (midnight z n) = n" and "clock_secs z (midnight z n) = 0"
    by (simp_all add: local_day_def clock_secs_def)
  show "midnight z n mod sec_ns = 0" by (simp add: midnight_def)
qed

lemma AddDays_midnight:
  assumes "full_days z"
  shows "AddDays z (midnight z n) k = midnight z (n + k)"
proof -
  obtain y m d where c: "civil z (midnight z n) = (y, m, d)" by (cases "civil z (midnight z n)")
  have "days_of_civil y m (d + k) = n + k"
    using c unfolding civil_def midnight_local(1) [OF assms] by (rule days_of_civil_of_days)
  then show ?thesis
    using midnight_local(2,3) [OF assms, of n]
    by (simp add: AddDays_def c go_date_def Let_def) (simp add: midnight_def)
qed

lemma skip_one:
  assumes "full_days z" and "0 < k" "k < 7"
  shows "skip_days z wd k (midnight z n) = Some (midnight z (if Weekday n = wd then n - k else n))"
proof -
  have "Weekday (n - k) \<noteq> Weekday n"
    using assms(2,3) unfolding Weekday_def by presburger
  then show ?thesis
    using assms(1) by (simp add: skip_days.simps [of z wd k "midnight z _"] midnight_local AddDays_midnight)
qed

definition prev_weekday :: "int \<Rightarrow> int" where
  "prev_weekday n =
     (let a = (if Weekday (n - 1) = Saturday then n - 2 else n - 1)
      in if Weekday a = Sunday then a - 2 else a)"

lemma prev_weekday_cases:
  "prev_weekday n = (if (n + 4) mod 7 = 1 then n - 3 else if (n + 4) mod 7 = 0 then n - 2 else n - 1)"
proof -
  have "(n - 1 + 4) mod 7 = 6 \<longleftrightarrow> (n + 4) mod 7 = 0" "(n - 1 + 4) mod 7 = 0 \<longleftrightarrow> (n + 4) mod 7 = 1"
    by presburger+
  moreover have "(n - 2 + 4) mod 7 \<noteq> 0" if "(n + 4) mod 7 = 0" using that by presburger
  ultimately show ?thesis
    by (simp add: prev_weekday_def Weekday_def Saturday_def Sunday_def Let_def)
qed

lemma weekday_iff: "weekday n \<longleftrightarrow> (n + 4) mod 7 \<noteq> 6 \<and> (n + 4) mod 7 \<noteq> 0"
  by (simp add: weekday_def Weekday_def Saturday_def Sunday_def)

lemma mod7_pred: "(k - 1 :: int) mod 7 = (if k mod 7 = 0 then 6 else k mod 7 - 1)"
proof -
  have "k - 1 = (k mod 7 - 1) + 7 * (k div 7)" using div_mult_mod_eq [of k 7] by linarith
  then have eq: "(k - 1) mod 7 = (k mod 7 - 1) mod 7" by (metis mod_mult_self2)
  have "0 \<le> k mod 7" "k mod 7 < 7" by simp_all
  then show ?thesis unfolding eq by auto
qed

lemma prev_weekday:
  "prev_weekday n < n" "weekday (prev_weekday n)" "prev_weekday n < m \<Longrightarrow> m < n \<Longrightarrow> \<not> weekday m"
proof -
  consider "(n + 4) mod 7 = 1" | "(n + 4) mod 7 = 0" | "(n + 4) mod 7 \<noteq> 1" "(n + 4) mod 7 \<noteq> 0" by blast
  then have "prev_weekday n < n \<and> weekday (prev_weekday n)
    \<and> (prev_weekday n < m \<longrightarrow> m < n \<longrightarrow> \<not> weekday m)"
  proof cases
    case 1
    then have "prev_weekday n = n - 3" by (simp add: prev_weekday_cases)
    moreover have "weekday (n - 3)" using 1 unfolding weekday_iff by presburger
    moreover have "\<not> weekday (n - 1)" "\<not> weekday (n - 2)" using 1 unfolding weekday_iff by presburger+
    moreover have "n - 3 < m \<Longrightarrow> m < n \<Longrightarrow> m = n - 1 \<or> m = n - 2" by linarith
    ultimately show ?thesis by auto
  next
    case 2
    then have "prev_weekday n = n - 2" by (simp add: prev_weekday_cases)
    moreover have "weekday (n - 2)" using 2 unfolding weekday_iff by presburger
    moreover have "\<not> weekday m" if "n - 2 < m" "m < n"
    proof -
      have "m = n - 1" using that by linarith
      then show ?thesis using 2 unfolding weekday_iff by presburger
    qed
    ultimately show ?thesis by simp
  next
    case 3
    then have "prev_weekday n = n - 1" by (simp add: prev_weekday_cases)
    moreover have "weekday (n - 1)"
      using 3 mod7_pred [of "n + 4"] pos_mod_bound [of 7 "n + 4"] by (auto simp: weekday_iff)
    ultimately show ?thesis by auto
  qed
  then show "prev_weekday n < n" "weekday (prev_weekday n)"
    "prev_weekday n < m \<Longrightarrow> m < n \<Longrightarrow> \<not> weekday m" by blast+
qed

lemma step_back_midnight:
  assumes "full_days z"
  shows "step_back z (midnight z n) = Some (midnight z (prev_weekday n))"
  using assms by (simp add: step_back_def AddDays_midnight skip_one prev_weekday_def Let_def algebra_simps)

section \<open>Lemmas on the resolution\<close>

text \<open>The probe of one day.\<close>

definition probe_day :: "engine \<Rightarrow> rest \<Rightarrow> store \<Rightarrow> int \<Rightarrow> string + bool" where
  "probe_day e r s n =
     hasOpen5mData (\<lambda>_. None) r (atTime (e_loc e) (midnight (e_loc e) n) (OpenTime (cfg_Market (e_cfg e))))
       (atTime (e_loc e) (midnight (e_loc e) n) (SelectionTime (cfg_Market (e_cfg e)))) s"

definition resolved_to :: "engine \<Rightarrow> rest \<Rightarrow> store \<Rightarrow> int \<Rightarrow> gotime \<Rightarrow> int \<Rightarrow> bool" where
  "resolved_to e r s start d n \<longleftrightarrow>
     d = midnight (e_loc e) n \<and> weekday n \<and> n \<le> start \<and> probe_day e r s n = Inr True
     \<and> (\<forall>m. n < m \<and> m \<le> start \<and> weekday m \<longrightarrow> probe_day e r s m = Inr False)"

lemma resolve_loop_spec:
  assumes z: "full_days (e_loc e)" and "weekday n"
  shows "\<exists>res. resolve_loop e (\<lambda>_. None) (\<lambda>_ _. None) r s target maxA i left (midnight (e_loc e) n) = Some res
    \<and> (\<forall>d note. res = Inr (d, note) \<longrightarrow>
         note = resolve_note (e_loc e) target d \<and> (\<exists>k. resolved_to e r s n d k))"
  using assms(2)
proof (induction left arbitrary: i n)
  case 0
  then show ?case by simp
next
  case (Suc left)
  let ?p = "probe_day e r s n"
  consider (err) err where "?p = Inl err" | (yes) "?p = Inr True" | (no) "?p = Inr False"
    by (cases ?p) auto
  then show ?case
  proof cases
    case err
    then show ?thesis by (simp add: probe_day_def Let_def)
  next
    case yes
    then have "resolved_to e r s n (midnight (e_loc e) n) n"
      using Suc.prems by (auto simp: resolved_to_def)
    with yes show ?thesis by (auto simp: probe_day_def Let_def)
  next
    case no
    let ?q = "prev_weekday n"
    note q = prev_weekday [of n]
    have eq: "resolve_loop e (\<lambda>_. None) (\<lambda>_ _. None) r s target maxA i (Suc left) (midnight (e_loc e) n)
        = resolve_loop e (\<lambda>_. None) (\<lambda>_ _. None) r s target maxA (i + 1) left (midnight (e_loc e) ?q)"
      using no step_back_midnight [OF z, of n] by (simp add: probe_day_def Let_def)
    have up: "resolved_to e r s n d k" if "resolved_to e r s ?q d k" for d k
      unfolding resolved_to_def
    proof (intro conjI allI impI)
      show "d = midnight (e_loc e) k" "weekday k" "probe_day e r s k = Inr True" "k \<le> n"
        using that q(1) by (auto simp: resolved_to_def)
      fix m assume m: "k < m \<and> m \<le> n \<and> weekday m"
      then have "m \<le> ?q \<or> m = n" using q(3) [of m] by linarith
      then show "probe_day e r s m = Inr False"
        using m that no by (auto simp: resolved_to_def)
    qed
    from Suc.IH [OF q(2), of "i + 1"] up show ?thesis unfolding eq by blast
  qed
qed

text \<open>The day the search starts from: the target, or the Friday before a weekend.\<close>

lemma resolve_start:
  assumes "full_days z"
  shows "(if Weekday n = Saturday then AddDays z (midnight z n) (- 1)
          else if Weekday n = Sunday then AddDays z (midnight z n) (- 2) else midnight z n)
        = midnight z (if weekday n then n else prev_weekday n)"
  using assms
  by (auto simp: AddDays_midnight weekday_iff prev_weekday_cases Weekday_def Saturday_def Sunday_def)

lemma resolve_spec:
  assumes z: "full_days (e_loc e)"
  shows "\<exists>res. resolveHistoricSessionDate e (\<lambda>_. None) (\<lambda>_ _. None) r targetDayNY asOfNY s = Some res
    \<and> (dateOnlyInLoc (e_loc e) asOfNY < dateOnlyInLoc (e_loc e) targetDayNY \<longrightarrow> (\<exists>err. res = Inl err))
    \<and> (\<forall>d note. res = Inr (d, note) \<longrightarrow>
         note = resolve_note (e_loc e) (dateOnlyInLoc (e_loc e) targetDayNY) d
         \<and> (\<exists>n. resolved_to e r s (local_day (e_loc e) targetDayNY) d n))"
proof (cases "dateOnlyInLoc (e_loc e) asOfNY < dateOnlyInLoc (e_loc e) targetDayNY")
  case True
  then show ?thesis by (simp add: resolveHistoricSessionDate_def Let_def)
next
  case False
  define n where "n = local_day (e_loc e) targetDayNY"
  define st where "st = (if weekday n then n else prev_weekday n)"
  define maxA where "maxA = (let m = MaxCalendarLookback (cfg_History (e_cfg e)) + 15 in if m < 10 then 10 else m)"
  note q = prev_weekday [of n]
  have eq: "resolveHistoricSessionDate e (\<lambda>_. None) (\<lambda>_ _. None) r targetDayNY asOfNY s =
      resolve_loop e (\<lambda>_. None) (\<lambda>_ _. None) r s (midnight (e_loc e) n) maxA 0 (nat maxA) (midnight (e_loc e) st)"
    using False unfolding resolveHistoricSessionDate_def maxA_def st_def Let_def dateOnlyInLoc_midnight
      n_def [symmetric] midnight_local(1) [OF z] resolve_start [OF z]
    by (simp only: if_False)
  have wk: "weekday st" using q(2) by (simp add: st_def)
  have up: "resolved_to e r s n d k" if "resolved_to e r s st d k" for d k
    unfolding resolved_to_def
  proof (intro conjI allI impI)
    show "d = midnight (e_loc e) k" "weekday k" "probe_day e r s k = Inr True" "k \<le> n"
      using that q(1) by (auto simp: resolved_to_def st_def split: if_splits)
    fix m assume m: "k < m \<and> m \<le> n \<and> weekday m"
    have "m \<le> st"
    proof (cases "weekday n")
      case True
      with m show ?thesis by (simp add: st_def)
    next
      case False
      with m have "m < n" by (cases "m = n") auto
      with m q(3) [of m] False show ?thesis by (cases "prev_weekday n < m") (simp_all add: st_def)
    qed
    then show "probe_day e r s m = Inr False" using m that by (auto simp: resolved_to_def)
  qed
  obtain res where res: "resolve_loop e (\<lambda>_. None) (\<lambda>_ _. None) r s (midnight (e_loc e) n) maxA 0 (nat maxA)
      (midnight (e_loc e) st) = Some res"
    and ok: "\<forall>d note. res = Inr (d, note) \<longrightarrow>
      note = resolve_note (e_loc e) (midnight (e_loc e) n) d \<and> (\<exists>k. resolved_to e r s st d k)"
    using resolve_loop_spec [OF z wk] by blast
  show ?thesis
    unfolding eq
  proof (intro exI conjI)
    show "resolve_loop e (\<lambda>_. None) (\<lambda>_ _. None) r s (midnight (e_loc e) n) maxA 0 (nat maxA)
      (midnight (e_loc e) st) = Some res" by (rule res)
    show "dateOnlyInLoc (e_loc e) asOfNY < dateOnlyInLoc (e_loc e) targetDayNY \<longrightarrow> (\<exists>err. res = Inl err)"
      using False by simp
    show "\<forall>d note. res = Inr (d, note) \<longrightarrow>
        note = resolve_note (e_loc e) (dateOnlyInLoc (e_loc e) targetDayNY) d
        \<and> (\<exists>n. resolved_to e r s (local_day (e_loc e) targetDayNY) d n)"
      unfolding dateOnlyInLoc_midnight n_def [symmetric] using ok up by blast
  qed
qed

lemma probe_true_iff:
  "probe_loop (\<lambda>_. None) r a b i wl le se = Inr True \<longleftrightarrow>
     (\<exists>k \<in> set wl. \<exists>m. Open5mMetrics r k a b = Inr (Some m)
        \<and> 0 < m_open0930 m \<and> 0 < m_orHigh m \<and> 0 < m_orLow m \<and> 0 < m_vol m)"
proof (induction wl arbitrary: i le se)
  case Nil
  then show ?case by (simp split: option.splits)
next
  case (Cons k wl)
  show ?case
    by (cases "Open5mMetrics r k a b") (auto simp: Cons.IH split: option.splits)
qed

section \<open>Properties\<close>


definition probe_rest :: rest where
  "probe_rest = \<lparr>ListAggs = (\<lambda>_ _ _. ([rest_bar sample_bar], None)), ListTrades = (\<lambda>_ _ _. ([], None))\<rparr>"


text \<open>The probe: without cancellation it is an error on an empty watchlist, and it finds a session exactly
  when one of the first eight symbols has metrics that are all positive, even when other requests fail.\<close>

theorem probe_finds_data:
  "hasOpen5mData (\<lambda>_. None) r openNY selNY s = Inr True \<longleftrightarrow>
     (\<exists>k \<in> set (take 8 (watchlist s)). \<exists>m. Open5mMetrics r k openNY selNY = Inr (Some m)
        \<and> 0 < m_open0930 m \<and> 0 < m_orHigh m \<and> 0 < m_orLow m \<and> 0 < m_vol m)"
  by (auto simp: hasOpen5mData_def Watchlist_def probe_true_iff Let_def)

text \<open>C32. Collecting and correcting through REST do not depend on the order in which the workers answer:
  exactly the symbols with positive metrics get them, and the corrected candidates are those whose
  metrics pass the filters, sorted.\<close>

theorem rest_pools_spec:
  assumes "\<And>xs. mset (arrive xs) = mset xs" and "candidates \<noteq> []"
  shows "GetTicker (collectOpen5mViaREST arrive r openNY selNY s) k =
      (case if k \<in> set (watchlist s) then good_metrics (Open5mMetrics r k openNY selNY) else None of
         None \<Rightarrow> GetTicker s k
       | Some m \<Rightarrow> Some (collect_cell m (case GetTicker s k of None \<Rightarrow> new_ticker k | Some t \<Rightarrow> t)))
    \<and> GetTicker (fst (correctCandidatesOpen5mViaREST arrive r openNY selNY candidates s)) k =
      (case if k \<in> set candidates then good_metrics (Open5mMetrics r k openNY selNY) else None of
         None \<Rightarrow> GetTicker s k
       | Some m \<Rightarrow> Some (correct_cell m (case GetTicker s k of None \<Rightarrow> new_ticker k | Some t \<Rightarrow> t)))
    \<and> snd (correctCandidatesOpen5mViaREST arrive r openNY selNY candidates s) =
        sort (filter (\<lambda>k. corrected (Filters s) (Open5mMetrics r k openNY selNY)) candidates)"
proof -
  have set: "set (arrive xs) = set xs" for xs using mset_eq_setD [OF assms(1)] .
  have "mset (filter P (arrive xs)) = mset (filter P xs)" for P and xs :: "string list"
    using assms(1) by simp
  then have "sort (filter P (arrive candidates)) = sort (filter P candidates)" for P
    by (metis properties_for_sort mset_sort sorted_sort)
  then show ?thesis
    using assms(2) correct_pool [of "Filters s" "\<lambda>k. Open5mMetrics r k openNY selNY" "arrive candidates" s "[]" k]
    by (auto simp: collectOpen5mViaREST_def correctCandidatesOpen5mViaREST_def collect_pool set Watchlist_def
        case_prod_unfold split: option.splits)
qed

theorem rest_pools_spec_witness:
  "snd (correctCandidatesOpen5mViaREST rev probe_rest 0 1 [''B'', ''A''] (New 0 zero_config [])) =
     sort (filter (\<lambda>k. corrected (Filters (New 0 zero_config [])) (Open5mMetrics probe_rest k 0 1)) [''B'', ''A''])"
  using rest_pools_spec [of rev "[''B'', ''A'']" probe_rest 0 1 "New 0 zero_config []" "[]"] by simp

section \<open>The sold-off list\<close>

interpretation sold_off: slice_order sold_off_less "\<lambda>a. \<not> is_nan (so_DropPct a)"
proof unfold_locales
  show "\<not> is_nan (so_DropPct a) \<Longrightarrow> \<not> is_nan (so_DropPct b) \<Longrightarrow> sold_off_less a b \<Longrightarrow> \<not> sold_off_less b a" for a b
    by (auto simp: sold_off_less_def feq_iff dest: flt_not_fle flt_imp_fle split: if_splits)
  show "\<not> sold_off_less a c"
    if ok: "\<not> is_nan (so_DropPct a)" "\<not> is_nan (so_DropPct b)" "\<not> is_nan (so_DropPct c)"
      and ab: "\<not> sold_off_less a b" and bc: "\<not> sold_off_less b c" for a b c
  proof -
    have 1: "so_DropPct a \<le> so_DropPct b \<and> (so_DropPct a = so_DropPct b \<longrightarrow> so_Symbol b \<le> so_Symbol a)"
      using ab ok(1,2) by (auto simp: sold_off_less_def feq_iff fnot_less fle_refl_iff split: if_splits)
    have 2: "so_DropPct b \<le> so_DropPct c \<and> (so_DropPct b = so_DropPct c \<longrightarrow> so_Symbol c \<le> so_Symbol b)"
      using bc ok(2,3) by (auto simp: sold_off_less_def feq_iff fnot_less fle_refl_iff split: if_splits)
    show ?thesis
    proof (cases "so_DropPct a = so_DropPct c")
      case True
      with 1 2 have "so_DropPct a = so_DropPct b" by (metis fle_antisym)
      with True 1 2 ok show ?thesis by (auto simp: sold_off_less_def feq_iff)
    next
      case False
      have "so_DropPct a \<le> so_DropPct c" using 1 2 fle_trans by blast
      with False ok show ?thesis by (auto simp: sold_off_less_def feq_iff dest: flt_not_fle)
    qed
  qed
qed

text \<open>The entry of one symbol of the metrics, as a function of that symbol alone.\<close>

definition sold_off_pre ::
  "runtime_filters \<Rightarrow> rest \<Rightarrow> gotime \<Rightarrow> gotime \<Rightarrow> (string \<times> open5m_metric) list \<Rightarrow> string \<Rightarrow> pre option" where
  "sold_off_pre f r openNY scanEndNY openMetrics k =
     (let m = metric_of openMetrics k
      in case MinLowAndLastClose r k openNY scanEndNY of
           Inr (Some (low, lowTime, lst)) \<Rightarrow>
             if eligible f m \<and> \<not> low \<le> 0 \<and> \<not> drop_pct m low < SoldOffFromOpenPctMin f
             then Some \<lparr>pre_sym = k, pre_m = m, pre_low = low, pre_lowTime = lowTime, pre_last = lst,
                        pre_drop = drop_pct m low\<rparr>
             else None
         | _ \<Rightarrow> None)"

definition staged_entry ::
  "engine \<Rightarrow> (string \<Rightarrow> cancel) \<Rightarrow> runtime_filters \<Rightarrow> rest \<Rightarrow> gotime \<Rightarrow> gotime
     \<Rightarrow> (string \<times> open5m_metric) list \<Rightarrow> string \<Rightarrow> historic_sold_off list" where
  "staged_entry e cancel f r openNY scanEndNY openMetrics k =
     (case sold_off_pre f r openNY scanEndNY openMetrics k of
        None \<Rightarrow> []
      | Some p \<Rightarrow>
          stage2_result (e_loc e) f [(k, p)] (k, stage2_job e (cancel k) r openNY [(k, p)] k))"

lemma stage1_result_eq:
  assumes "eligible f (metric_of openMetrics k)"
  shows "stage1_result f openMetrics (k, MinLowAndLastClose r k openNY scanEndNY) pr =
    (case sold_off_pre f r openNY scanEndNY openMetrics k of None \<Rightarrow> pr | Some p \<Rightarrow> AList.update k p pr)"
proof (cases "MinLowAndLastClose r k openNY scanEndNY")
  case (Inr m)
  with assms show ?thesis
    by (cases m) (auto simp: sold_off_pre_def eligible_def Let_def)
qed (simp add: sold_off_pre_def)

lemma stage1_pool:
  assumes "\<forall>k \<in> set ks. eligible f (metric_of om k)" and "distinct (map fst pr)"
  shows "distinct (map fst (fold (stage1_result f om) (map (\<lambda>k. (k, MinLowAndLastClose r k a b)) ks) pr))
    \<and> map_of (fold (stage1_result f om) (map (\<lambda>k. (k, MinLowAndLastClose r k a b)) ks) pr) k =
      (if k \<in> set ks \<and> sold_off_pre f r a b om k \<noteq> None then sold_off_pre f r a b om k else map_of pr k)"
  using assms
proof (induction ks arbitrary: pr)
  case Nil
  then show ?case by simp
next
  case (Cons x ks)
  let ?pr = "case sold_off_pre f r a b om x of None \<Rightarrow> pr | Some p \<Rightarrow> AList.update x p pr"
  have st: "stage1_result f om (x, MinLowAndLastClose r x a b) pr = ?pr"
    using Cons.prems by (intro stage1_result_eq) simp
  have "distinct (map fst ?pr)" using Cons.prems(2) by (simp add: distinct_update split: option.splits)
  from Cons.IH [OF _ this] Cons.prems(1) st show ?case
    by (auto simp: update_conv' split: option.splits)
qed

lemma mset_concat_map_cong:
  "mset xs = mset ys \<Longrightarrow> mset (concat (map g xs)) = mset (concat (map g ys))"
  by (metis mset_concat mset_map sum_mset_sum_list)

lemma concat_map_filter_nil:
  "(\<And>x. x \<in> set xs \<Longrightarrow> \<not> P x \<Longrightarrow> g x = []) \<Longrightarrow> concat (map g (filter P xs)) = concat (map g xs)"
  by (induction xs) auto

lemma stage2_result_local:
  assumes "map_of pr k = Some p"
  shows "stage2_result z f pr (k, stage2_job e c r a pr k) = stage2_result z f [(k, p)] (k, stage2_job e c r a [(k, p)] k)"
  using assms by (auto simp: stage2_job_def split: sum.splits)

lemma staged_entry_nil: "sold_off_pre f r a b om k = None \<Longrightarrow> staged_entry e c f r a b om k = []"
  by (simp add: staged_entry_def)

lemma scan_mset:
  assumes arr: "\<And>xs. mset (arrive1 xs) = mset xs" "\<And>xs. mset (arrive2 xs) = mset xs"
    and ord: "\<And>xs. mset (ord1 xs) = mset xs" "\<And>xs. mset (ord2 xs) = mset xs"
    and dist: "distinct (map fst om)" and late: "\<not> b < a + minute_ns"
  shows "\<exists>xs. fst (scanSoldOff e now cancel arrive1 arrive2 ord1 ord2 r a b om s) = sort_slice sold_off_less xs
    \<and> mset xs = mset (concat (map (staged_entry e cancel (Filters s) r a b om) (map fst om)))"
proof -
  define f where "f = Filters s"
  define ent where "ent = staged_entry e cancel f r a b om"
  define syms where "syms = sort (filter (\<lambda>k. eligible f (metric_of om k)) (ord1 (map fst om)))"
  define pr where "pr = fold (stage1_result f om) (map (\<lambda>k. (k, MinLowAndLastClose r k a b)) (arrive1 syms)) []"
  define ks where "ks = sort (ord2 (map fst pr))"
  define xs where "xs = concat (map (stage2_result (e_loc e) f pr)
      (map (\<lambda>k. (k, stage2_job e (cancel k) r a pr k)) (arrive2 ks)))"
  have syms: "mset syms = mset (filter (\<lambda>k. eligible f (metric_of om k)) (map fst om))"
    unfolding syms_def mset_sort mset_filter ord(1) ..
  have set1: "set (arrive1 syms) = set syms" using mset_eq_setD [OF arr(1)] .
  have el: "\<forall>k \<in> set (arrive1 syms). eligible f (metric_of om k)"
    using mset_eq_setD [OF syms] set1 by auto
  have pr: "distinct (map fst pr)"
    "map_of pr k = (if k \<in> set syms \<and> sold_off_pre f r a b om k \<noteq> None then sold_off_pre f r a b om k else None)" for k
    using stage1_pool [OF el, of "[]" r a b] by (simp_all add: pr_def set1)
  have dsyms: "distinct syms"
    using dist mset_eq_imp_distinct_iff [OF syms] by simp
  have "set (map fst pr) = set (filter (\<lambda>k. sold_off_pre f r a b om k \<noteq> None) syms)"
  proof -
    have "k \<in> set (map fst pr) \<longleftrightarrow> k \<in> set (filter (\<lambda>k. sold_off_pre f r a b om k \<noteq> None) syms)" for k
    proof -
      have "k \<in> set (map fst pr) \<longleftrightarrow> map_of pr k \<noteq> None" by (simp add: map_of_eq_None_iff)
      then show ?thesis by (simp add: pr(2))
    qed
    then show ?thesis by (rule set_eqI)
  qed
  then have keys: "mset (map fst pr) = mset (filter (\<lambda>k. sold_off_pre f r a b om k \<noteq> None) syms)"
    using pr(1) dsyms set_eq_iff_mset_eq_distinct distinct_filter by blast
  have ks: "mset (arrive2 ks) = mset (filter (\<lambda>k. sold_off_pre f r a b om k \<noteq> None) syms)"
    using keys arr(2) ord(2) by (simp add: ks_def)
  have ent: "stage2_result (e_loc e) f pr (k, stage2_job e (cancel k) r a pr k) = ent k" if "k \<in> set (arrive2 ks)" for k
  proof -
    have "k \<in> set syms" "sold_off_pre f r a b om k \<noteq> None"
      using that mset_eq_setD [OF ks] by auto
    then obtain p where p: "sold_off_pre f r a b om k = Some p" "map_of pr k = Some p" by (auto simp: pr(2))
    then show ?thesis
      using stage2_result_local [OF p(2)] by (simp add: ent_def staged_entry_def)
  qed
  have "xs = concat (map ent (arrive2 ks))"
    unfolding xs_def map_map comp_def using ent by (intro arg_cong [of _ _ concat] map_cong) auto
  then have "mset xs = mset (concat (map ent (filter (\<lambda>k. sold_off_pre f r a b om k \<noteq> None) syms)))"
    using mset_concat_map_cong [OF ks] by simp
  also have "concat (map ent (filter (\<lambda>k. sold_off_pre f r a b om k \<noteq> None) syms)) = concat (map ent syms)"
    by (rule concat_map_filter_nil) (simp add: ent_def staged_entry_nil)
  also have "mset \<dots> = mset (concat (map ent (filter (\<lambda>k. eligible f (metric_of om k)) (map fst om))))"
    by (rule mset_concat_map_cong [OF syms])
  also have "concat (map ent (filter (\<lambda>k. eligible f (metric_of om k)) (map fst om))) = concat (map ent (map fst om))"
  proof (rule concat_map_filter_nil)
    show "ent k = []" if "\<not> eligible f (metric_of om k)" for k
      using that by (auto simp: ent_def staged_entry_def sold_off_pre_def Let_def split: sum.splits option.splits prod.splits)
  qed
  finally have xs: "mset xs = mset (concat (map ent (map fst om)))" .
  have none: "pr = []" if "syms = []"
    using that set1 by (simp add: pr_def)
  have empty: "xs = []" if "pr = []"
  proof -
    have "mset (arrive2 ks) = {#}" using that arr(2) ord(2) by (simp add: ks_def)
    then show ?thesis by (simp add: xs_def)
  qed
  have "fst (scanSoldOff e now cancel arrive1 arrive2 ord1 ord2 r a b om s) = sort_slice sold_off_less xs"
  proof (cases "syms = []")
    case True
    with late none empty show ?thesis
      unfolding scanSoldOff_def Let_def f_def [symmetric] mult_1 syms_def [symmetric]
      by (simp add: sort_slice_def)
  next
    case False
    with late empty show ?thesis
      unfolding scanSoldOff_def Let_def f_def [symmetric] mult_1 syms_def [symmetric] pr_def [symmetric]
        ks_def [symmetric] xs_def [symmetric]
      by (simp add: sort_slice_def)
  qed
  with xs show ?thesis unfolding ent_def f_def by blast
qed

text \<open>
  What the list must hold for one symbol of the metrics, written from the rules of the scan and not from
  its stages: the opening bars are usable and wide enough, the lowest low after the open is known and far
  enough below it, and the opening volume reaches its share of the sessions before.
\<close>

definition sold_off_entry ::
  "engine \<Rightarrow> (string \<Rightarrow> cancel) \<Rightarrow> runtime_filters \<Rightarrow> rest \<Rightarrow> gotime \<Rightarrow> gotime
     \<Rightarrow> string \<times> open5m_metric \<Rightarrow> historic_sold_off list" where
  "sold_off_entry e cancel f r openNY scanEndNY km =
     (let k = fst km; m = snd km; h = cfg_History (e_cfg e)
      in case (MinLowAndLastClose r k openNY scanEndNY,
               avgPrevSessionsOpen5mVol e (cancel k) r k openNY (Open5mLookbackSessions h) (MaxCalendarLookback h)) of
           (Inr (Some (low, lowTime, lst)), Inr avg) \<Rightarrow>
             let dr = (om_Open0930 m - low) / om_Open0930 m;
                 pct = (if avg \<le> 0 then 0 else (om_Open5mVol m / avg) * rnd 100)
             in if \<not> om_Open0930 m \<le> 0 \<and> \<not> om_Open5mVol m \<le> 0 \<and> \<not> low \<le> 0
                   \<and> \<not> om_RangePct m < SoldOffOpen5mRangePctMin f
                   \<and> \<not> dr < SoldOffFromOpenPctMin f
                   \<and> \<not> pct < SoldOffOpen5mTodayPctMin f
                then [\<lparr>so_Symbol = k, so_Open0930 = om_Open0930 m, so_LowPrice = low,
                       so_LowTimeNY = fmt_hms (e_loc e) lowTime, so_PriceAtScanTime = lst, so_DropPct = dr,
                       so_Open5mVol = om_Open5mVol m, so_Open5mRangePct = om_RangePct m,
                       so_Open5mTodayPct = pct\<rparr>]
                else []
         | _ \<Rightarrow> [])"

lemma staged_entry_eq:
  assumes "map_of om k = Some m"
  shows "staged_entry e cancel f r a b om k = sold_off_entry e cancel f r a b (k, m)"
  using assms
  by (auto simp: staged_entry_def sold_off_entry_def sold_off_pre_def stage2_job_def metric_of_def eligible_def
      drop_pct_def sold_off_record_def Let_def split: sum.splits option.splits)

lemma staged_entries:
  assumes "distinct (map fst om)"
  shows "concat (map (staged_entry e cancel f r a b om) (map fst om)) = concat (map (sold_off_entry e cancel f r a b) om)"
proof -
  have "map (staged_entry e cancel f r a b om) (map fst om) = map (sold_off_entry e cancel f r a b) om"
    using assms by (auto intro!: staged_entry_eq)
  then show ?thesis by (rule arg_cong)
qed

lemma sold_off_order:
  assumes "\<not> is_nan (so_DropPct x)" and "\<not> is_nan (so_DropPct y)" and "\<not> sold_off_less y x"
  shows "so_DropPct y \<le> so_DropPct x \<and> (so_DropPct x = so_DropPct y \<longrightarrow> so_Symbol x \<le> so_Symbol y)"
  using assms by (auto simp: sold_off_less_def feq_iff fnot_less fle_refl_iff split: if_splits)

lemma sold_off_sorted:
  assumes "\<forall>x \<in> set (sort_slice sold_off_less xs). \<not> is_nan (so_DropPct x)"
  shows "sorted_wrt (\<lambda>x y. so_DropPct y \<le> so_DropPct x \<and> (so_DropPct x = so_DropPct y \<longrightarrow> so_Symbol x \<le> so_Symbol y))
    (sort_slice sold_off_less xs)"
proof -
  have "set (sort_slice sold_off_less xs) = set xs"
    by (rule mset_eq_setD) simp
  with assms have "sorted_wrt (\<lambda>a b. \<not> sold_off_less b a) (sort_slice sold_off_less xs)"
    by (simp add: sold_off.sort_slice_sorted)
  then show ?thesis
    by (rule sorted_wrt_mono_rel [rotated]) (use assms sold_off_order in blast)
qed

text \<open>C30. The sold-off scan lists, for every order of the workers' answers and of the map walks, exactly
  the symbols of the opening metrics that have a price and a volume, an opening range of at least the
  filter, a known low whose drop from the open reaches the filter, and an opening volume that reaches the
  filtered share of the average of the sessions before (a symbol whose average or low could not be fetched
  is left out), each with the values of its own data. Before one minute after the open it lists nothing.
  The metrics are a map, so a symbol occurs once in them. If no drop in the list is NaN, the list is
  ordered by falling drop, and by symbol where drops are equal.\<close>

theorem sold_off_scan_spec:
  assumes "\<And>xs. mset (arrive1 xs) = mset xs" and "\<And>xs. mset (arrive2 xs) = mset xs"
    and "\<And>xs. mset (ord1 xs) = mset xs" and "\<And>xs. mset (ord2 xs) = mset xs"
    and "distinct (map fst openMetrics)"
    and "fst (scanSoldOff e now cancel arrive1 arrive2 ord1 ord2 r openNY scanEndNY openMetrics s) = out"
  shows "mset out =
      (if scanEndNY < openNY + minute_ns then {#}
       else mset (concat (map (sold_off_entry e cancel (Filters s) r openNY scanEndNY) openMetrics)))
    \<and> ((\<forall>x \<in> set out. \<not> is_nan (so_DropPct x)) \<longrightarrow>
        sorted_wrt (\<lambda>x y. so_DropPct y \<le> so_DropPct x
          \<and> (so_DropPct x = so_DropPct y \<longrightarrow> so_Symbol x \<le> so_Symbol y)) out)"
proof (cases "scanEndNY < openNY + minute_ns")
  case True
  then have "out = []" using assms(6) by (simp add: scanSoldOff_def Let_def)
  with True show ?thesis by simp
next
  case False
  obtain xs where xs: "out = sort_slice sold_off_less xs"
    "mset xs = mset (concat (map (staged_entry e cancel (Filters s) r openNY scanEndNY openMetrics) (map fst openMetrics)))"
    using scan_mset [OF assms(1-5), of scanEndNY openNY e now cancel r s] assms(6) False by auto
  with False sold_off_sorted [of xs] show ?thesis by (simp add: staged_entries [OF assms(5)] del: map_map)
qed

definition scan_engine :: engine where
  "scan_engine = plain_engine\<lparr>e_cfg := loaded_config\<rparr>"

definition scan_metric :: open5m_metric where
  "scan_metric = \<lparr>om_Open0930 = Fin 16, om_ORHigh = Fin 16, om_ORLow = Fin 14, om_Open5mVol = Fin 1000,
     om_RangePct = Fin (1 / 8)\<rparr>"

lemma scan_average:
  "avgPrevSessionsOpen5mVol e (\<lambda>_. None) probe_rest k day 10 35 = Inr (Fin 500)"
proof -
  have vol: "Open5mVolume probe_rest k a b = Inr (Some (Fin 500))" for k a b
    by (simp add: Open5mVolume_def probe_rest_def rest_bar_def sample_bar_def zero_float64_def)
  have "session_volumes probe_rest (e_loc e) k day bs = replicate (length bs) (Fin 500)" for bs
    by (induction bs) (simp_all add: session_volumes_def vol zero_float64_def)
  then have "take 10 (session_volumes probe_rest (e_loc e) k day [1..35]) = replicate 10 (Fin 500)"
    by simp
  moreover have "foldl (+) 0 (replicate 10 (Fin 500)) = Fin 5000"
    by (simp add: numeral_eq_Suc zero_float64_def)
  ultimately show ?thesis
    by (simp add: avgPrevSessionsOpen5mVol_def avg_loop_spec of_int64_def rnd_dyadic [of 500 0])
qed

lemma scan_entry:
  "\<exists>x. sold_off_entry scan_engine (\<lambda>_ _. None) (Filters (New 0 loaded_config [])) probe_rest 0 minute_ns
     (''A'', scan_metric) = [x] \<and> so_DropPct x = Fin (7 / 16)"
proof -
  have cfg: "Open5mLookbackSessions (cfg_History (e_cfg scan_engine)) = 10"
    "MaxCalendarLookback (cfg_History (e_cfg scan_engine)) = 35"
    by (simp_all add: scan_engine_def loaded_config_def sample_yaml_def applyDefaults_def zero_config_def
        or_pos_int_def Let_def)
  have f: "SoldOffFromOpenPctMin (Filters (New 0 loaded_config [])) = Fin (1 / 4)"
    "SoldOffOpen5mRangePctMin (Filters (New 0 loaded_config [])) = Fin (1 / 64)"
    "SoldOffOpen5mTodayPctMin (Filters (New 0 loaded_config [])) = Fin 50"
    by (simp_all add: Filters_def New_def runtimeFiltersFromConfig_def loaded_config_def sample_yaml_def
        applyDefaults_def zero_config_def or_pos_float_def zero_float64_def Let_def)
  have low: "MinLowAndLastClose probe_rest k 0 minute_ns = Inr (Some (Fin 9, 0, Fin 10))" for k
    by (simp add: MinLowAndLastClose_def probe_rest_def low_step_def rest_bar_def sample_bar_def
        zero_float64_def feq_def Let_def)
  show ?thesis
    by (simp add: sold_off_entry_def low scan_metric_def f cfg scan_average zero_float64_def
        minus_float64_def rnd_dyadic [of 7 4, simplified] Let_def)
qed

theorem sold_off_scan_spec_witness:
  "\<exists>x. fst (scanSoldOff scan_engine 0 (\<lambda>_ _. None) rev rev rev rev probe_rest 0 minute_ns
        [(''A'', scan_metric)] (New 0 loaded_config [])) = [x] \<and> so_DropPct x = Fin (7 / 16)"
proof -
  obtain x where x: "sold_off_entry scan_engine (\<lambda>_ _. None) (Filters (New 0 loaded_config [])) probe_rest 0
      minute_ns (''A'', scan_metric) = [x]" "so_DropPct x = Fin (7 / 16)"
    using scan_entry by blast
  then show ?thesis
    using sold_off_scan_spec [of rev rev rev rev "[(''A'', scan_metric)]" scan_engine 0
        "\<lambda>_ _. None" probe_rest 0 minute_ns "New 0 loaded_config []"] by simp
qed

end
