(* ===== verification/Report.thy ===== *)
theory Report
  imports Historic
begin

text \<open>
  The report of a historic session (\<open>buildHistoricReport\<close> of \<open>internal/engine/historic.go\<close>). The sums and
  counters the loop keeps are the record \<open>tally\<close>, its two lists are returned beside it; \<open>ord\<close> is the
  order in which the map of tickers is walked.

  The lemmas say that the report partitions the candidates into trades and no-entries, that its
  counters add up, that the extremes are extremes, and how its lists are ordered.
\<close>

section \<open>One ticker's line\<close>

definition historicShares :: int where "historicShares = 1000"

definition traded :: "ticker_state \<Rightarrow> bool" where
  "traded t \<longleftrightarrow> HasPosition t \<and> 0 < EntryPrice t \<and> \<not> IsZero (EntryTime t)"

definition pct_of :: "float64 \<Rightarrow> float64 \<Rightarrow> float64" where
  "pct_of entry px = (px - entry) / entry"

definition amt_of :: "float64 \<Rightarrow> float64 \<Rightarrow> float64" where
  "amt_of entry px = (px - entry) * of_int64 historicShares"

definition trade_line :: "zone \<Rightarrow> gotime \<Rightarrow> ticker_state \<Rightarrow> historic_trade" where
  "trade_line z endNY t =
     (let entry = EntryPrice t;
          (exitPx, exitTime) = (if ExitPrice t \<le> 0 then (LastPrice t, endNY) else (ExitPrice t, ExitTime t));
          holdPx = LastPrice t;
          (mfePx, mfeTime) = (if MaxPriceSinceEntry t \<le> 0 then (entry, EntryTime t)
                              else (MaxPriceSinceEntry t, MaxPriceSinceEntryTime t));
          (maePx, maeTime) = (if MinPriceSinceEntry t \<le> 0 then (entry, EntryTime t)
                              else (MinPriceSinceEntry t, MinPriceSinceEntryTime t))
      in \<lparr>ht_Symbol = Symbol t, ht_EntryTimeNY = fmt_hms z (EntryTime t), ht_EntryPrice = entry,
          ht_EntryMinutesAfterOpen = EntryMinutesAfterOpen t, ht_TakeProfitPrice = TakeProfitPrice t,
          ht_StopPrice = StopPrice t, ht_ExitTimeNY = fmt_hms z exitTime, ht_ExitPrice = exitPx,
          ht_ExitMinutesAfterOpen = ExitMinutesAfterOpen t, ht_ExitReason = ExitReason t,
          ht_Shares = historicShares,
          ht_RealizedPnLPct = pct_of entry exitPx, ht_RealizedPnL = amt_of entry exitPx,
          ht_HoldPrice = holdPx, ht_HoldPnLPct = pct_of entry holdPx, ht_HoldPnL = amt_of entry holdPx,
          ht_MFEPrice = mfePx, ht_MFETimeNY = fmt_hms z mfeTime, ht_MFEPnLPct = pct_of entry mfePx,
          ht_MFEPnL = amt_of entry mfePx,
          ht_MAEPrice = maePx, ht_MAETimeNY = fmt_hms z maeTime, ht_MAEPnLPct = pct_of entry maePx,
          ht_MAEPnL = amt_of entry maePx\<rparr>)"

definition no_entry_reason ::
  "zone \<Rightarrow> runtime_filters \<Rightarrow> gotime \<Rightarrow> gotime \<Rightarrow> ticker_state \<Rightarrow> string" where
  "no_entry_reason z f openNY cutoffNY t =
     (if \<not> SawCrossInWindow t
      then ''No VWAP cross between '' @ fmt_hm z (openNY + 1 * minute_ns) @ '' and '' @ fmt_hm z cutoffNY
      else if Open5mTodayPct t < Open5mTodayPctMin f \<or> Open5mTodayPctMax f < Open5mTodayPct t
      then ''Open5mToday% filter failed''
      else if 0 < FirstCrossPrice t
              \<and> (FirstCrossPrice t < EntryPriceMin f \<or> EntryPriceMax f < FirstCrossPrice t)
      then ''VWAP cross occurred but price filter failed''
      else ''No entry (filters + cross never aligned)'')"

definition no_entry_line ::
  "zone \<Rightarrow> runtime_filters \<Rightarrow> gotime \<Rightarrow> gotime \<Rightarrow> ticker_state \<Rightarrow> historic_no_entry" where
  "no_entry_line z f openNY cutoffNY t =
     \<lparr>ne_Symbol = Symbol t, ne_Open5mVol = Open5mVol t, ne_Open5mRangePct = Open5mRangePct t,
      ne_Open5mTodayPct = Open5mTodayPct t, ne_SawCrossInWindow = SawCrossInWindow t,
      ne_FirstCrossTimeNY = (if IsZero (FirstCrossTime t) then [] else fmt_hms z (FirstCrossTime t)),
      ne_FirstCrossPrice = FirstCrossPrice t, ne_Reason = no_entry_reason z f openNY cutoffNY t\<rparr>"

section \<open>The loop\<close>

record tally =
  sumPnL :: float64
  sumNotional :: float64
  sumPct :: float64
  sumWinAmt :: float64
  sumLossAmt :: float64
  sumWinPct :: float64
  sumLossPct :: float64
  winN :: nat
  lossN :: nat
  timeExitN :: nat
  bestPct :: float64
  worstPct :: float64
  firstTrade :: bool

definition zero_tally :: tally where
  "zero_tally = \<lparr>sumPnL = 0, sumNotional = 0, sumPct = 0, sumWinAmt = 0, sumLossAmt = 0, sumWinPct = 0,
     sumLossPct = 0, winN = 0, lossN = 0, timeExitN = 0, bestPct = 0, worstPct = 0, firstTrade = True\<rparr>"

definition count_sums :: "historic_trade \<Rightarrow> tally \<Rightarrow> tally" where
  "count_sums l a =
     (let a = a\<lparr>sumPnL := sumPnL a + ht_RealizedPnL l,
                sumNotional := sumNotional a + ht_EntryPrice l * of_int64 historicShares,
                sumPct := sumPct a + ht_RealizedPnLPct l\<rparr>
      in if ht_ExitReason l = ''TIME_EXIT'' then a\<lparr>timeExitN := timeExitN a + 1\<rparr> else a)"

definition count_side :: "historic_trade \<Rightarrow> tally \<Rightarrow> tally" where
  "count_side l a =
     (if 0 \<le> ht_RealizedPnL l
      then a\<lparr>sumWinAmt := sumWinAmt a + ht_RealizedPnL l, sumWinPct := sumWinPct a + ht_RealizedPnLPct l,
             winN := winN a + 1\<rparr>
      else a\<lparr>sumLossAmt := sumLossAmt a + ht_RealizedPnL l, sumLossPct := sumLossPct a + ht_RealizedPnLPct l,
             lossN := lossN a + 1\<rparr>)"

definition count_extremes :: "historic_trade \<Rightarrow> tally \<Rightarrow> tally" where
  "count_extremes l a =
     (let realPct = ht_RealizedPnLPct l
      in if firstTrade a then a\<lparr>bestPct := realPct, worstPct := realPct, firstTrade := False\<rparr>
         else let a = (if bestPct a < realPct then a\<lparr>bestPct := realPct\<rparr> else a)
              in if realPct < worstPct a then a\<lparr>worstPct := realPct\<rparr> else a)"

definition count_trade :: "historic_trade \<Rightarrow> tally \<Rightarrow> tally" where
  "count_trade l a = count_extremes l (count_side l (count_sums l a))"

definition report_step ::
  "zone \<Rightarrow> runtime_filters \<Rightarrow> gotime \<Rightarrow> gotime \<Rightarrow> gotime \<Rightarrow> ticker_state
     \<Rightarrow> tally \<times> historic_trade list \<times> historic_no_entry list
     \<Rightarrow> tally \<times> historic_trade list \<times> historic_no_entry list" where
  "report_step z f openNY cutoffNY endNY t st =
     (case st of (a, trades, noEntries) \<Rightarrow>
        if traded t
        then let l = trade_line z endNY t in (count_trade l a, trades @ [l], noEntries)
        else (a, trades, noEntries @ [no_entry_line z f openNY cutoffNY t]))"

section \<open>The report\<close>

definition summary_of :: "zone \<Rightarrow> gotime \<Rightarrow> gotime \<Rightarrow> gotime \<Rightarrow> nat \<Rightarrow> nat \<Rightarrow> nat \<Rightarrow> tally \<Rightarrow> historic_summary" where
  "summary_of z sessionDateNY openNY endNY candidateN tradeN noEntryN a =
     (let winRate = (if 0 < tradeN then of_int64 (int (winN a)) / of_int64 (int tradeN) else 0);
          netRet = (if 0 < sumNotional a then sumPnL a / sumNotional a else 0);
          avgRet = (if 0 < tradeN then sumPct a / of_int64 (int tradeN) else 0);
          avgWin = (if 0 < winN a then sumWinPct a / of_int64 (int (winN a)) else 0);
          avgLoss = (if 0 < lossN a then sumLossPct a / of_int64 (int (lossN a)) else 0);
          profitFactor =
            (if sumLossAmt a < 0 then sumWinAmt a / (- sumLossAmt a)
             else if 0 < sumWinAmt a \<and> feq (sumLossAmt a) 0 then rnd 999 else 0)
      in \<lparr>hs_DateNY = fmt_ymd z sessionDateNY, hs_WindowStartNY = fmt_hms z openNY,
          hs_WindowEndNY = fmt_hms z endNY, hs_Shares = historicShares, hs_Candidates = int candidateN,
          hs_TradesTaken = int tradeN, hs_NoEntry = int noEntryN, hs_Wins = int (winN a),
          hs_Losses = int (lossN a), hs_TimeExits = int (timeExitN a), hs_WinRate = winRate,
          hs_NetPnL = sumPnL a, hs_TotalNotional = sumNotional a, hs_NetReturnPct = netRet,
          hs_AvgReturnPct = avgRet, hs_AvgWinPct = avgWin, hs_AvgLossPct = avgLoss,
          hs_ProfitFactor = profitFactor, hs_BestTradePct = bestPct a, hs_WorstTradePct = worstPct a\<rparr>)"

definition trade_less :: "historic_trade \<Rightarrow> historic_trade \<Rightarrow> bool" where
  "trade_less a b \<longleftrightarrow> ht_RealizedPnLPct b < ht_RealizedPnLPct a"

definition no_entry_less :: "historic_no_entry \<Rightarrow> historic_no_entry \<Rightarrow> bool" where
  "no_entry_less a b \<longleftrightarrow> ne_Symbol a < ne_Symbol b"

definition buildHistoricReport ::
  "engine \<Rightarrow> map_order \<Rightarrow> gotime \<Rightarrow> gotime \<Rightarrow> gotime \<Rightarrow> gotime \<Rightarrow> gotime \<Rightarrow> gotime \<Rightarrow> store \<Rightarrow> historic_report" where
  "buildHistoricReport e ord sessionDateNY openNY selNY cutoffNY exitNY endNY s =
     (let f = Filters s;
          states = TickerStates ord s;
          (a, trades, noEntries) =
            fold (report_step (e_loc e) f openNY cutoffNY endNY) states (zero_tally, [], []);
          trades = sort_slice trade_less trades;
          noEntries = sort_slice no_entry_less noEntries
      in \<lparr>Summary = summary_of (e_loc e) sessionDateNY openNY endNY (length states) (length trades)
                      (length noEntries) a,
          Trades = trades, NoEntries = noEntries, SoldOff = []\<rparr>)"

section \<open>Lemmas\<close>

lemma report_fold:
  "fold (report_step z f o9 c en) states (a, trs, nos) =
     (fold count_trade (map (trade_line z en) (filter traded states)) a,
      trs @ map (trade_line z en) (filter traded states),
      nos @ map (no_entry_line z f o9 c) (filter (\<lambda>t. \<not> traded t) states))"
  by (induction states arbitrary: a trs nos) (simp_all add: report_step_def Let_def)

lemma count_trade_fields:
  "winN (count_trade l a) = winN a + (if 0 \<le> ht_RealizedPnL l then 1 else 0)"
  "lossN (count_trade l a) = lossN a + (if 0 \<le> ht_RealizedPnL l then 0 else 1)"
  "timeExitN (count_trade l a) = timeExitN a + (if ht_ExitReason l = ''TIME_EXIT'' then 1 else 0)"
  "sumPnL (count_trade l a) = sumPnL a + ht_RealizedPnL l"
  "\<not> firstTrade (count_trade l a)"
  "bestPct (count_trade l a) =
     (if firstTrade a \<or> bestPct a < ht_RealizedPnLPct l then ht_RealizedPnLPct l else bestPct a)"
  "worstPct (count_trade l a) =
     (if firstTrade a \<or> ht_RealizedPnLPct l < worstPct a then ht_RealizedPnLPct l else worstPct a)"
  by (auto simp: count_trade_def count_extremes_def count_side_def count_sums_def Let_def)

lemma tally_counts:
  "winN (fold count_trade ls a) = winN a + length (filter (\<lambda>l. 0 \<le> ht_RealizedPnL l) ls)
   \<and> lossN (fold count_trade ls a) = lossN a + length (filter (\<lambda>l. \<not> 0 \<le> ht_RealizedPnL l) ls)
   \<and> timeExitN (fold count_trade ls a) = timeExitN a + length (filter (\<lambda>l. ht_ExitReason l = ''TIME_EXIT'') ls)
   \<and> sumPnL (fold count_trade ls a) = foldl (+) (sumPnL a) (map ht_RealizedPnL ls)"
  by (induction ls arbitrary: a) (simp_all add: count_trade_fields)

lemma tally_extremes:
  assumes "\<not> firstTrade a" and "\<not> is_nan (bestPct a)" and "\<not> is_nan (worstPct a)"
    and "\<forall>l \<in> set ls. \<not> is_nan (ht_RealizedPnLPct l)"
  shows "bestPct (fold count_trade ls a) \<in> insert (bestPct a) (ht_RealizedPnLPct ` set ls)
    \<and> worstPct (fold count_trade ls a) \<in> insert (worstPct a) (ht_RealizedPnLPct ` set ls)
    \<and> (\<forall>x \<in> insert (bestPct a) (ht_RealizedPnLPct ` set ls). x \<le> bestPct (fold count_trade ls a))
    \<and> (\<forall>x \<in> insert (worstPct a) (ht_RealizedPnLPct ` set ls). worstPct (fold count_trade ls a) \<le> x)"
  using assms
proof (induction ls arbitrary: a)
  case Nil
  then show ?case by (simp add: fle_refl_iff)
next
  case (Cons l ls)
  let ?a = "count_trade l a"
  let ?p = "ht_RealizedPnLPct l"
  have p: "\<not> is_nan ?p" using Cons.prems by simp
  have b: "bestPct ?a \<in> {bestPct a, ?p}" "bestPct a \<le> bestPct ?a" "?p \<le> bestPct ?a" "\<not> is_nan (bestPct ?a)"
    using Cons.prems p fnot_less [of "bestPct a" ?p]
    by (auto simp: count_trade_fields fle_refl_iff intro: flt_imp_fle)
  have w: "worstPct ?a \<in> {worstPct a, ?p}" "worstPct ?a \<le> worstPct a" "worstPct ?a \<le> ?p" "\<not> is_nan (worstPct ?a)"
    using Cons.prems p fnot_less [of ?p "worstPct a"]
    by (auto simp: count_trade_fields fle_refl_iff intro: flt_imp_fle)
  have "\<not> firstTrade ?a" by (rule count_trade_fields)
  note ih = Cons.IH [OF this b(4) w(4)]
  have ls: "\<forall>l \<in> set ls. \<not> is_nan (ht_RealizedPnLPct l)" using Cons.prems(4) by simp
  have best: "bestPct a \<le> bestPct (fold count_trade ls ?a)" "?p \<le> bestPct (fold count_trade ls ?a)"
    using ih [OF ls] b(2,3) fle_trans by blast+
  have worst: "worstPct (fold count_trade ls ?a) \<le> worstPct a" "worstPct (fold count_trade ls ?a) \<le> ?p"
    using ih [OF ls] w(2,3) fle_trans by blast+
  show ?case
    using ih [OF ls] b(1) w(1) best worst by simp metis
qed

interpretation by_pct: slice_order trade_less "\<lambda>l. \<not> is_nan (ht_RealizedPnLPct l)"
proof unfold_locales
  show "trade_less a b \<Longrightarrow> \<not> trade_less b a" for a b
    by (auto simp: trade_less_def dest: flt_not_fle flt_imp_fle)
  show "\<not> trade_less a c" if "\<not> is_nan (ht_RealizedPnLPct a)" "\<not> is_nan (ht_RealizedPnLPct b)"
    "\<not> is_nan (ht_RealizedPnLPct c)" "\<not> trade_less a b" "\<not> trade_less b c" for a b c
    using that fle_trans by (auto simp: trade_less_def fnot_less)
qed

interpretation by_symbol: slice_order no_entry_less "\<lambda>_. True"
  by unfold_locales (auto simp: no_entry_less_def)

section \<open>Properties\<close>

text \<open>C28. The report accounts for every candidate: each tracked ticker is in exactly one of the two lists, a
  trade when it took a position and a no-entry with a reason otherwise; the counters are the lengths,
  wins and losses add up to the trades, and time exits are among them.\<close>

theorem report_accounts:
  assumes "wf_tickers s" and "mset (ord (map fst (tickers s))) = mset (map fst (tickers s))"
    and "rep = buildHistoricReport e ord d openNY selNY cutoffNY exitNY endNY s"
  shows "mset (Trades rep) = image_mset (trade_line (e_loc e) endNY) (filter_mset traded (mset (map snd (tickers s))))
    \<and> mset (NoEntries rep) = image_mset (no_entry_line (e_loc e) (Filters s) openNY cutoffNY)
          (filter_mset (\<lambda>t. \<not> traded t) (mset (map snd (tickers s))))
    \<and> hs_Candidates (Summary rep) = int (length (tickers s))
    \<and> hs_TradesTaken (Summary rep) = int (length (Trades rep))
    \<and> hs_NoEntry (Summary rep) = int (length (NoEntries rep))
    \<and> hs_Candidates (Summary rep) = hs_TradesTaken (Summary rep) + hs_NoEntry (Summary rep)
    \<and> hs_TradesTaken (Summary rep) = hs_Wins (Summary rep) + hs_Losses (Summary rep)
    \<and> hs_TimeExits (Summary rep) \<le> hs_TradesTaken (Summary rep)"
proof -
  define states where "states = TickerStates ord s"
  define ls where "ls = map (trade_line (e_loc e) endNY) (filter traded states)"
  define ns where "ns = map (no_entry_line (e_loc e) (Filters s) openNY cutoffNY) (filter (\<lambda>t. \<not> traded t) states)"
  have ms: "mset states = mset (map snd (tickers s))"
    using assms(1,2) by (simp add: states_def set_TickerStates)
  then have len: "length states = length (tickers s)" by (metis length_map mset_eq_length)
  have rep: "rep = \<lparr>Summary = summary_of (e_loc e) d openNY endNY (length states) (length ls) (length ns)
        (fold count_trade ls zero_tally),
      Trades = sort_slice trade_less ls, NoEntries = sort_slice no_entry_less ns, SoldOff = []\<rparr>"
    by (simp add: assms(3) buildHistoricReport_def Let_def report_fold states_def ls_def ns_def)
  have lens: "length ls + length ns = length states"
    by (simp add: ls_def ns_def sum_length_filter_compl)
  have wl: "length ls = length (filter (\<lambda>l. 0 \<le> ht_RealizedPnL l) ls) + length (filter (\<lambda>l. \<not> 0 \<le> ht_RealizedPnL l) ls)"
    by (simp add: sum_length_filter_compl)
  have te: "length (filter (\<lambda>l. ht_ExitReason l = ''TIME_EXIT'') ls) \<le> length ls" by simp
  have "mset ls = image_mset (trade_line (e_loc e) endNY) (filter_mset traded (mset states))"
    "mset ns = image_mset (no_entry_line (e_loc e) (Filters s) openNY cutoffNY) (filter_mset (\<lambda>t. \<not> traded t) (mset states))"
    by (simp_all add: ls_def ns_def)
  then show ?thesis
    using lens wl te tally_counts [of ls zero_tally]
    by (simp add: rep summary_of_def Let_def zero_tally_def ms len del: length_filter_le)
qed

lemma win_rate_bounds:
  assumes "int (length ls) \<le> 2 ^ 53" and "n = length ls"
  shows "0 \<le> hs_WinRate (summary_of z d o9 en c n m (fold count_trade ls zero_tally))"
    and "hs_WinRate (summary_of z d o9 en c n m (fold count_trade ls zero_tally)) \<le> 1"
proof -
  define a where "a = fold count_trade ls zero_tally"
  have wins: "winN a \<le> length ls"
    using tally_counts [of ls zero_tally] by (simp add: a_def zero_tally_def)
  have "0 \<le> hs_WinRate (summary_of z d o9 en c n m a) \<and> hs_WinRate (summary_of z d o9 en c n m a) \<le> 1"
  proof (cases "length ls = 0")
    case True
    have "(0 :: float64) \<le> 0" "(0 :: float64) \<le> 1" by (simp_all add: zero_float64_def one_float64_def)
    with True show ?thesis by (simp add: summary_of_def Let_def assms(2))
  next
    case False
    have ex: "of_int64 (int (length ls)) = Fin (of_int (int (length ls)))"
      "of_int64 (int (winN a)) = Fin (of_int (int (winN a)))"
      using wins assms(1) by (intro of_int64_exact, simp)+
    have pos: "0 < of_int64 (int (length ls))" using False unfolding ex by (simp add: zero_float64_def)
    have num: "0 \<le> of_int64 (int (winN a))" "is_fin (of_int64 (int (winN a)))" unfolding ex by simp_all
    have le: "of_int64 (int (winN a)) \<le> of_int64 (int (length ls))" using wins by (intro of_int64_mono) simp
    show ?thesis
      using False fdivide_nonneg [OF num pos] fdivide_le_1 [OF le num(2) pos]
      by (simp add: summary_of_def Let_def assms(2))
  qed
  then show "0 \<le> hs_WinRate (summary_of z d o9 en c n m (fold count_trade ls zero_tally))"
    and "hs_WinRate (summary_of z d o9 en c n m (fold count_trade ls zero_tally)) \<le> 1" by (simp_all add: a_def)
qed

lemma extremes_of_trades:
  assumes "\<forall>l \<in> set ls. \<not> is_nan (ht_RealizedPnLPct l)" and "a = fold count_trade ls zero_tally"
  shows "ls = [] \<or> (bestPct a \<in> ht_RealizedPnLPct ` set ls \<and> worstPct a \<in> ht_RealizedPnLPct ` set ls
      \<and> (\<forall>l \<in> set ls. ht_RealizedPnLPct l \<le> bestPct a \<and> worstPct a \<le> ht_RealizedPnLPct l))"
proof (cases ls)
  case (Cons l rest)
  let ?a = "count_trade l zero_tally"
  have b: "bestPct ?a = ht_RealizedPnLPct l" "worstPct ?a = ht_RealizedPnLPct l" "\<not> firstTrade ?a"
    by (simp_all add: count_trade_fields zero_tally_def)
  have "a = fold count_trade rest ?a" by (simp add: assms(2) Cons)
  then show ?thesis
    using tally_extremes [of ?a rest] assms(1) b by (auto simp: Cons)
qed simp

text \<open>C29. Ratios of the report, when no trade's percentage is NaN (none is for finite prices) and the trades number at
  most 2^53: the win rate is a fraction between 0 and 1, the best and the worst trade are
  trades of the list and bound all of them, and the lists are ordered, trades by falling realized
  percentage and no-entries by symbol.\<close>

theorem report_ratios:
  assumes "rep = buildHistoricReport e ord d openNY selNY cutoffNY exitNY endNY s"
    and "\<forall>l \<in> set (Trades rep). \<not> is_nan (ht_RealizedPnLPct l)"
    and "int (length (Trades rep)) \<le> 2 ^ 53"
  shows "0 \<le> hs_WinRate (Summary rep) \<and> hs_WinRate (Summary rep) \<le> 1
    \<and> (Trades rep = [] \<or>
        hs_BestTradePct (Summary rep) \<in> ht_RealizedPnLPct ` set (Trades rep)
        \<and> hs_WorstTradePct (Summary rep) \<in> ht_RealizedPnLPct ` set (Trades rep)
        \<and> (\<forall>l \<in> set (Trades rep). ht_RealizedPnLPct l \<le> hs_BestTradePct (Summary rep)
             \<and> hs_WorstTradePct (Summary rep) \<le> ht_RealizedPnLPct l))
    \<and> sorted_wrt (\<lambda>a b. \<not> ht_RealizedPnLPct a < ht_RealizedPnLPct b) (Trades rep)
    \<and> sorted (map ne_Symbol (NoEntries rep))"
proof -
  define states where "states = TickerStates ord s"
  define ls where "ls = map (trade_line (e_loc e) endNY) (filter traded states)"
  define ns where "ns = map (no_entry_line (e_loc e) (Filters s) openNY cutoffNY) (filter (\<lambda>t. \<not> traded t) states)"
  define a where "a = fold count_trade ls zero_tally"
  have rep: "rep = \<lparr>Summary = summary_of (e_loc e) d openNY endNY (length states) (length ls) (length ns) a,
      Trades = sort_slice trade_less ls, NoEntries = sort_slice no_entry_less ns, SoldOff = []\<rparr>"
    by (simp add: assms(1) buildHistoricReport_def Let_def report_fold states_def ls_def ns_def a_def)
  have nn: "\<forall>l \<in> set ls. \<not> is_nan (ht_RealizedPnLPct l)" using assms(2) by (simp add: rep)
  have "int (length ls) \<le> 2 ^ 53" using assms(3) by (simp add: rep)
  note rate = win_rate_bounds [OF this refl, of "e_loc e" d openNY endNY "length states" "length ns"]
  note ext = extremes_of_trades [OF nn a_def]
  have st: "sorted_wrt (\<lambda>a b. \<not> trade_less b a) (sort_slice trade_less ls)"
    using nn by (rule by_pct.sort_slice_sorted)
  have sn: "sorted (map ne_Symbol (sort_slice no_entry_less ns))"
    using by_symbol.sort_slice_sorted [of ns]
    by (simp add: no_entry_less_def not_less sorted_wrt_map)
  have len: "sort_slice trade_less ls = [] \<longleftrightarrow> ls = []"
    using length_sort_slice [of trade_less ls] by (metis length_0_conv)
  have "hs_BestTradePct (Summary rep) = bestPct a" "hs_WorstTradePct (Summary rep) = worstPct a"
    "Trades rep = sort_slice trade_less ls" "NoEntries rep = sort_slice no_entry_less ns"
    by (simp_all add: rep summary_of_def Let_def)
  then show ?thesis
    using rate ext st sn len by (simp add: trade_less_def rep a_def)
qed

text \<open>A store with one closed position and one ticker without entry.\<close>

definition report_store :: store where
  "report_store = (New 0 zero_config [''A'', ''B''])\<lparr>tickers :=
     [(''A'', (new_ticker ''A'')\<lparr>HasPosition := True, EntryPrice := Fin 8, EntryTime := 0, Exited := True,
         ExitPrice := Fin 12, ExitReason := ''PROFIT''\<rparr>),
      (''B'', new_ticker ''B'')]\<rparr>"

lemma report_store_wf: "wf_tickers report_store"
  by (simp add: wf_tickers_def report_store_def new_ticker_def)

theorem report_accounts_witness:
  "hs_Candidates (Summary (buildHistoricReport plain_engine rev 0 0 0 0 0 0 report_store)) = 2"
proof -
  have "mset (rev (map fst (tickers report_store))) = mset (map fst (tickers report_store))" by simp
  from report_accounts [of report_store rev _ plain_engine 0 0 0 0 0 0, OF report_store_wf this refl] show ?thesis
    by (simp add: report_store_def)
qed

lemma report_store_trades:
  "Trades (buildHistoricReport plain_engine rev 0 0 0 0 0 0 report_store) =
     [trade_line (fixed_zone 0) 0 (snd (hd (tickers report_store)))]"
proof -
  have t: "traded (snd (hd (tickers report_store)))" "\<not> traded (new_ticker ''B'')"
    by (simp_all add: traded_def report_store_def new_ticker_def IsZero_def zero_time_def sec_ns_def
        zero_float64_def)
  have st: "TickerStates rev report_store = [new_ticker ''B'', snd (hd (tickers report_store))]"
    by (simp add: TickerStates_def report_store_def)
  show ?thesis
    by (simp add: buildHistoricReport_def st report_fold t plain_engine_def sort_slice_def Let_def
        del: insert_left.simps(2))
qed

theorem report_ratios_witness:
  "hs_BestTradePct (Summary (buildHistoricReport plain_engine rev 0 0 0 0 0 0 report_store)) = Fin (1 / 2)"
proof -
  let ?l = "trade_line (fixed_zone 0) 0 (snd (hd (tickers report_store)))"
  have pct: "ht_RealizedPnLPct ?l = Fin (1 / 2)"
    by (simp add: trade_line_def report_store_def pct_of_def Let_def minus_float64_def zero_float64_def
        rnd_dyadic [of 1 1, simplified])
  then show ?thesis
    using report_ratios [OF refl, of plain_engine rev 0 0 0 0 0 0 report_store]
    by (simp add: report_store_trades)
qed

end
