(* ===== verification/Feed.thy ===== *)
theory Feed
  imports Opening Trading
begin

text \<open>
  The WebSocket feed: choosing it (\<open>NewWS\<close> of \<open>internal/massive/massive.go\<close>), subscribing the watchlist in
  batches, and the two loops that receive its messages (\<open>Run\<close> of \<open>engine.go\<close> and
  \<open>runHistoricLiveToday\<close> of \<open>historic.go\<close> have the same loops).

  The client library is outside the repository: \<open>ws_client\<close> has the errors its constructor, \<open>Subscribe\<close>
  and \<open>Connect\<close> give, and what its channels deliver is the list of messages a loop receives, in
  order. The batch loop is a partial function, since it runs forever for a batch size of zero.
\<close>

section \<open>The client\<close>

record ws_client =
  wc_new :: "bool \<Rightarrow> string option"
  wc_subscribe :: "string list \<Rightarrow> string option"
  wc_connect :: "string option"

definition lower_char :: "char \<Rightarrow> char" where
  "lower_char c = (if 65 \<le> (of_char c :: nat) \<and> (of_char c :: nat) \<le> 90 then char_of (of_char c + 32 :: nat) else c)"

text \<open>\<open>strings.ToLower\<close>; \<open>uni_ToLower\<close> is its fallback for a string with a non-ASCII byte.\<close>

definition ToLower :: "(string \<Rightarrow> string) \<Rightarrow> string \<Rightarrow> string" where
  "ToLower uni_ToLower s = (if list_all ascii s then map lower_char s else uni_ToLower s)"

definition NewWS :: "(string \<Rightarrow> string) \<Rightarrow> ws_client \<Rightarrow> string \<Rightarrow> string option" where
  "NewWS uni_ToLower c feed =
     (let f = ToLower uni_ToLower feed
      in if f \<in> {''realtime'', ''real_time'', ''real-time''} then wc_new c True
         else if f = ''delayed'' then wc_new c False
         else Some ''unknown massive.feed (use realtime or delayed)'')"

section \<open>Subscribing in batches\<close>

text \<open>The batches subscribed before index \<open>i\<close> are in \<open>done\<close>; \<open>None\<close> would be a loop without end.\<close>

partial_function (option) subscribe_batches ::
  "(string list \<Rightarrow> string option) \<Rightarrow> int \<Rightarrow> string list \<Rightarrow> int \<Rightarrow> string list list
     \<Rightarrow> (string + string list list) option" where
  "subscribe_batches subscribe batch wl i dn =
     (if i < int (length wl)
      then let j = (if int (length wl) < i + batch then int (length wl) else i + batch);
               b = take (nat (j - i)) (drop (nat i) wl)
           in (case subscribe b of
                 Some err \<Rightarrow> Some (Inl (''subscribe minute aggs: '' @ err))
               | None \<Rightarrow> subscribe_batches subscribe batch wl (i + batch) (dn @ [b]))
      else Some (Inr dn))"

definition open_aggs ::
  "(string \<Rightarrow> string) \<Rightarrow> ws_client \<Rightarrow> engine \<Rightarrow> string list \<Rightarrow> string option option" where
  "open_aggs uni_ToLower c e wl =
     (case NewWS uni_ToLower c (Feed (cfg_Massive (e_cfg e))) of
        Some err \<Rightarrow> Some (Some err)
      | None \<Rightarrow>
          (case subscribe_batches (wc_subscribe c) (WSBatchSize (cfg_Massive (e_cfg e))) wl 0 [] of
             None \<Rightarrow> None
           | Some (Inl err) \<Rightarrow> Some (Some err)
           | Some (Inr batches) \<Rightarrow> Some (map_option (\<lambda>err. ''ws connect: '' @ err) (wc_connect c))))"

definition open_trades :: "(string \<Rightarrow> string) \<Rightarrow> ws_client \<Rightarrow> engine \<Rightarrow> string list \<Rightarrow> string option" where
  "open_trades uni_ToLower c e syms =
     (case NewWS uni_ToLower c (Feed (cfg_Massive (e_cfg e))) of
        Some err \<Rightarrow> Some err
      | None \<Rightarrow>
          (case wc_subscribe c syms of
             Some err \<Rightarrow> Some (''subscribe trades: '' @ err)
           | None \<Rightarrow> map_option (\<lambda>err. ''ws trades connect: '' @ err) (wc_connect c)))"

section \<open>The receiving loops\<close>

datatype ws_msg =
  WsError "string option"
| WsErrorClosed
| WsBar equity_agg
| WsTrade equity_trade
| WsOther
| WsOutputClosed

text \<open>The reader of minute bars; it ends at the end of the list when the context is done.\<close>

fun collect_bars :: "engine \<Rightarrow> gotime \<Rightarrow> gotime \<Rightarrow> gotime \<Rightarrow> ws_msg list \<Rightarrow> store \<Rightarrow> store" where
  "collect_bars e now openNY selNY [] s = s"
| "collect_bars e now openNY selNY (m # ms) s =
     (case m of
        WsErrorClosed \<Rightarrow> s
      | WsError None \<Rightarrow> collect_bars e now openNY selNY ms s
      | WsError (Some err) \<Rightarrow> emit e now ''SYSTEM'' [] (''WS error: '' @ err) [] ''warn'' s
      | WsOutputClosed \<Rightarrow> s
      | WsBar agg \<Rightarrow> collect_bars e now openNY selNY ms (onMinuteAgg e openNY selNY agg s)
      | WsTrade tr \<Rightarrow> collect_bars e now openNY selNY ms s
      | WsOther \<Rightarrow> collect_bars e now openNY selNY ms s)"

text \<open>
  The tracking loop. \<open>Eleven\<close> is the goroutine of the 11 o'clock timer calling \<open>onElevenAM\<close> (it runs
  between two messages), \<open>ElevenSeen\<close> the loop noticing that it has finished.
\<close>

datatype live_event = Msg ws_msg | Eleven | ElevenSeen | CtxDone

datatype track_end = TrackClosed | TrackStopped | TrackFailed string | TrackRunning

fun track_msgs ::
  "engine \<Rightarrow> gotime \<times> gotime \<times> gotime \<times> gotime \<Rightarrow> live_event list \<Rightarrow> store \<Rightarrow> store \<times> track_end" where
  "track_msgs e w [] s = (s, TrackRunning)"
| "track_msgs e w (ev # evs) s =
     (case w of (openNY, selNY, cutoffNY, exitNY) \<Rightarrow>
       (case ev of
          CtxDone \<Rightarrow> (s, TrackStopped)
        | ElevenSeen \<Rightarrow> (s, TrackClosed)
        | Eleven \<Rightarrow> track_msgs e w evs (onElevenAM e exitNY s)
        | Msg m \<Rightarrow>
            (case m of
               WsErrorClosed \<Rightarrow> (s, TrackStopped)
             | WsError None \<Rightarrow> track_msgs e w evs s
             | WsError (Some err) \<Rightarrow> (s, TrackFailed err)
             | WsOutputClosed \<Rightarrow> (s, TrackStopped)
             | WsTrade tr \<Rightarrow> track_msgs e w evs (onTrade e openNY selNY cutoffNY exitNY tr s)
             | WsBar agg \<Rightarrow> track_msgs e w evs s
             | WsOther \<Rightarrow> track_msgs e w evs s)))"

section \<open>Lemmas\<close>

lemma subscribe_batches_cover:
  assumes "0 < batch" and "0 \<le> i" and "\<And>b. subscribe b = None"
  shows "\<exists>bs. subscribe_batches subscribe batch wl i dn = Some (Inr (dn @ bs))
    \<and> concat bs = drop (nat i) wl \<and> (\<forall>b \<in> set bs. b \<noteq> [] \<and> int (length b) \<le> batch)"
  using assms(2)
proof (induction "nat (int (length wl) - i)" arbitrary: i dn rule: less_induct)
  case less
  show ?case
  proof (cases "i < int (length wl)")
    case False
    then show ?thesis using less.prems by (subst subscribe_batches.simps) simp
  next
    case True
    define b where "b = take (nat ((if int (length wl) < i + batch then int (length wl) else i + batch) - i)) (drop (nat i) wl)"
    have dec: "nat (int (length wl) - (i + batch)) < nat (int (length wl) - i)"
      using True assms(1) by simp
    from less.hyps [OF dec, of "dn @ [b]"] less.prems assms(1) obtain bs where
      bs: "subscribe_batches subscribe batch wl (i + batch) (dn @ [b]) = Some (Inr ((dn @ [b]) @ bs))"
      "concat bs = drop (nat (i + batch)) wl" "\<forall>b \<in> set bs. b \<noteq> [] \<and> int (length b) \<le> batch" by auto
    have eq: "subscribe_batches subscribe batch wl i dn = Some (Inr (dn @ b # bs))"
      using True bs(1) by (subst subscribe_batches.simps) (simp add: assms(3) b_def Let_def)
    have lb: "length b = nat (min batch (int (length wl) - i))"
      using True less.prems by (auto simp: b_def)
    have "b @ drop (nat (i + batch)) wl = drop (nat i) wl"
    proof (cases "int (length wl) < i + batch")
      case True
      then show ?thesis using less.prems by (simp add: b_def)
    next
      case False
      then have "nat (i + batch) = nat i + nat batch" using less.prems assms(1) by (simp add: nat_add_distrib)
      with False show ?thesis by (simp add: b_def add.commute [of "nat i"] flip: drop_drop)
    qed
    moreover have "b \<noteq> []" using lb True assms(1) by (cases b) auto
    moreover have "int (length b) \<le> batch" using lb assms(1) True by simp
    ultimately show ?thesis using eq bs(2,3) by (intro exI [of _ "b # bs"]) simp
  qed
qed

lemma subscribe_batches_ends:
  assumes "0 < batch"
  shows "\<exists>r. subscribe_batches subscribe batch wl i dn = Some r"
proof (induction "nat (int (length wl) - i)" arbitrary: i dn rule: less_induct)
  case less
  show ?case
  proof (cases "i < int (length wl)")
    case False
    then show ?thesis by (subst subscribe_batches.simps) simp
  next
    case True
    define b where "b = take (nat ((if int (length wl) < i + batch then int (length wl) else i + batch) - i)) (drop (nat i) wl)"
    have "nat (int (length wl) - (i + batch)) < nat (int (length wl) - i)" using True assms by simp
    from less [OF this, of "dn @ [b]"] obtain r where
      "subscribe_batches subscribe batch wl (i + batch) (dn @ [b]) = Some r" by blast
    moreover have "subscribe_batches subscribe batch wl i dn =
        (case subscribe b of Some err \<Rightarrow> Some (Inl (''subscribe minute aggs: '' @ err))
         | None \<Rightarrow> subscribe_batches subscribe batch wl (i + batch) (dn @ [b]))"
      unfolding b_def by (subst subscribe_batches.simps) (simp only: if_P [OF True] Let_def)
    ultimately show ?thesis by (simp split: option.split)
  qed
qed

lemma open_aggs_ends: "0 < WSBatchSize (cfg_Massive (e_cfg e)) \<Longrightarrow> \<exists>r. open_aggs lo c e wl = Some r"
  using subscribe_batches_ends [of "WSBatchSize (cfg_Massive (e_cfg e))" "wc_subscribe c" wl 0 "[]"]
  by (auto simp: open_aggs_def split: option.splits sum.splits)

lemma Load_batch: "Load ReadFile Unmarshal path = (c, None) \<Longrightarrow> 0 < WSBatchSize (cfg_Massive c)"
  using Load_None [of ReadFile Unmarshal path c] by (auto simp: applyDefaults_def Let_def)

lemma collect_bars_settings: "settings (collect_bars e now a b ms s) = settings s"
  by (induction ms arbitrary: s) (simp_all add: frame_simps split: ws_msg.splits option.splits)

lemma collect_bars_frame:
  "phase (collect_bars e now a b ms s) = phase s" "Times (collect_bars e now a b ms s) = Times s"
  by (induction ms arbitrary: s; simp add: frame_simps split: ws_msg.splits option.splits)+

lemma onTrade_frame [frame_simps]:
  "settings (onTrade e a b c d tr s) = settings s" "phase (onTrade e a b c d tr s) = phase s"
  "Times (onTrade e a b c d tr s) = Times s"
  by (simp_all add: onTrade_def frame_simps)

text \<open>The tracking loop is a run of the session's steps.\<close>

fun session_events :: "gotime \<Rightarrow> live_event list \<Rightarrow> session_event list" where
  "session_events exitNY [] = []"
| "session_events exitNY (Eleven # evs) = TimeExit exitNY # session_events exitNY evs"
| "session_events exitNY (Msg (WsTrade tr) # evs) =
     Trade (et_Symbol tr) (et_Timestamp tr) (et_Price tr) (of_int64 (et_Size tr)) True # session_events exitNY evs"
| "session_events exitNY (Msg (WsBar b) # evs) = session_events exitNY evs"
| "session_events exitNY (Msg WsOther # evs) = session_events exitNY evs"
| "session_events exitNY (Msg (WsError None) # evs) = session_events exitNY evs"
| "session_events exitNY (Msg (WsError (Some err)) # evs) = []"
| "session_events exitNY (Msg WsErrorClosed # evs) = []"
| "session_events exitNY (Msg WsOutputClosed # evs) = []"
| "session_events exitNY (ElevenSeen # evs) = []"
| "session_events exitNY (CtxDone # evs) = []"

lemma track_msgs_session:
  "fst (track_msgs e (a, b, c, d) evs s) = fold (session_step e (a, b, c, d)) (session_events d evs) s"
  by (induction d evs arbitrary: s rule: session_events.induct) (simp_all add: onTrade_def)

section \<open>Properties\<close>

text \<open>Subscribing covers the watchlist: with a positive batch size, as every loaded configuration has, and
  no subscription error, the loop ends, the batches concatenated are the watchlist, and none is empty
  or longer than the batch size.\<close>

theorem batches_cover_watchlist:
  assumes "Load ReadFile Unmarshal path = (c, None)" and "\<And>b. subscribe b = None"
  shows "\<exists>bs. subscribe_batches subscribe (WSBatchSize (cfg_Massive c)) wl 0 [] = Some (Inr bs)
    \<and> concat bs = wl \<and> (\<forall>b \<in> set bs. b \<noteq> [] \<and> int (length b) \<le> WSBatchSize (cfg_Massive c))"
proof -
  from subscribe_batches_cover [where wl = wl and dn = "[]", OF Load_batch [OF assms(1)] order_refl assms(2)]
  show ?thesis by simp
qed

theorem batches_cover_watchlist_witness:
  "\<exists>bs. subscribe_batches (\<lambda>_. None) (WSBatchSize (cfg_Massive loaded_config)) [''A'', ''B''] 0 [] = Some (Inr bs)
    \<and> concat bs = [''A'', ''B'']"
  using batches_cover_watchlist [OF loaded_ok(2), of "\<lambda>_. None" "[''A'', ''B'']"] by blast

text \<open>The tracking loop does what a session does: whatever messages arrive and however the loop ends, the
  store is the one after the corresponding trades and time exits, in order.\<close>

theorem tracking_is_a_session:
  "fst (track_msgs e (openNY, selNY, cutoffNY, exitNY) evs s) =
     fold (session_step e (openNY, selNY, cutoffNY, exitNY)) (session_events exitNY evs) s"
  by (rule track_msgs_session)

end
