(* ===== verification/HistoricRun.thy ===== *)
theory HistoricRun
  imports Report Feed
begin

text \<open>
  The historic runs (\<open>RunHistoricForDate\<close> and \<open>runHistoricLiveToday\<close> of \<open>internal/engine/historic.go\<close>).

  \<open>run_env\<close> collects what a run meets outside the program: the instants its reads of the clock give,
  the REST client, the arrival orders and map orders, the context, and for a live run the WebSocket
  client and the messages it delivers. A run returns the store and its error; \<open>None\<close> around them
  would be a loop without end.
\<close>

record run_env =
  env_asOf :: gotime
  env_now :: gotime
  env_rest :: rest
  env_arrive :: "string list \<Rightarrow> string list"
  env_ord :: map_order
  env_cancel :: "string \<Rightarrow> cancel"
  env_date_cancel :: cancel
  env_probe_cancel :: "nat \<Rightarrow> cancel"
  env_done :: "string \<Rightarrow> nat \<Rightarrow> bool"
  lv_start :: gotime
  lv_afterOpen :: gotime
  lv_end :: gotime
  lv_catchup :: gotime
  lv_done_open :: bool
  lv_done_select :: bool
  lv_ToLower :: "string \<Rightarrow> string"
  lv_ws_aggs :: ws_client
  lv_bars :: "ws_msg list"
  lv_ws_trades :: ws_client
  lv_events :: "live_event list"

definition soldOffScanHMS :: string where "soldOffScanHMS = ''10:30:00''"

definition info :: "engine \<Rightarrow> gotime \<Rightarrow> string \<Rightarrow> store \<Rightarrow> store" where
  "info e now msg s = emit e now ''SYSTEM'' [] msg [] ''info'' s"

section \<open>Pieces the two runs share\<close>

definition run_scan ::
  "engine \<Rightarrow> run_env \<Rightarrow> gotime \<Rightarrow> gotime \<Rightarrow> gotime \<Rightarrow> (string \<times> open5m_metric) list \<Rightarrow> store
     \<Rightarrow> historic_sold_off list \<times> store" where
  "run_scan e env dayNY openNY endNY openMetrics s =
     (let scanNY = atTime (e_loc e) dayNY soldOffScanHMS;
          scanEnd = minTime scanNY endNY
      in scanSoldOff e (env_now env) (env_cancel env) (env_arrive env) (env_arrive env) (env_ord env) (env_ord env)
           (env_rest env) openNY scanEnd openMetrics s)"

definition run_tracked ::
  "engine \<Rightarrow> run_env \<Rightarrow> gotime \<Rightarrow> gotime \<Rightarrow> string list \<Rightarrow> store
     \<Rightarrow> (string \<times> ticker_state) list \<times> store" where
  "run_tracked e env openNY selNY candidates s =
     (case buildTrackedStates e (env_now env) (env_cancel env) (env_cancel env) (env_arrive env) (env_ord env)
             (env_rest env) openNY selNY candidates s of
        (tracked, s) \<Rightarrow> (tracked, SetPhase PhaseTrackingTicks (SetTrackedTickers tracked s)))"

text \<open>One ticker's replay: the flag says whether the context was found done.\<close>

fun replay_trades ::
  "engine \<Rightarrow> gotime \<times> gotime \<times> gotime \<times> gotime \<Rightarrow> bool \<Rightarrow> (nat \<Rightarrow> bool) \<Rightarrow> nat \<Rightarrow> string \<Rightarrow> rest_trade list
     \<Rightarrow> store \<Rightarrow> store \<times> bool" where
  "replay_trades e w act dn i symb [] s = (s, False)"
| "replay_trades e w act dn i symb (tr # trs) s =
     (if dn i then (s, True)
      else let tsMillis = tradeTimeMillis tr
           in if tsMillis = 0 then replay_trades e w act dn (i + 1) symb trs s
              else (case w of (openNY, selNY, cutoffNY, exitNY) \<Rightarrow>
                     replay_trades e w act dn (i + 1) symb trs
                       (processTrade e openNY selNY cutoffNY exitNY symb tsMillis (tr_Price tr) (tr_Size tr) act s)))"

section \<open>The replay of a past session\<close>

fun replay_symbols ::
  "engine \<Rightarrow> run_env \<Rightarrow> gotime \<times> gotime \<times> gotime \<times> gotime \<Rightarrow> string list \<Rightarrow> store \<Rightarrow> store \<times> bool" where
  "replay_symbols e env w [] s = (s, False)"
| "replay_symbols e env w (symb # syms) s =
     (if env_done env symb 0 then (s, True)
      else (case w of (openNY, selNY, cutoffNY, endNY) \<Rightarrow>
             (case ListTrades (env_rest env) symb selNY endNY of (items, err) \<Rightarrow>
               (case replay_trades e w True (env_done env symb) 1 symb items s of
                  (s, True) \<Rightarrow> (s, True)
                | (s, False) \<Rightarrow>
                    replay_symbols e env w syms
                      (case err of
                         None \<Rightarrow> s
                       | Some x \<Rightarrow>
                           emit e (env_now env) ''SYSTEM'' symb (''trade replay failed: '' @ x) [] ''warn'' s)))))"

definition replay_report ::
  "engine \<Rightarrow> run_env \<Rightarrow> gotime \<Rightarrow> gotime \<times> gotime \<times> gotime \<times> gotime \<Rightarrow> gotime
     \<Rightarrow> (string \<times> open5m_metric) list \<Rightarrow> store \<Rightarrow> store" where
  "replay_report e env dayNY w endNY openMetrics s =
     (case w of (openNY, selNY, cutoffNY, exitNY) \<Rightarrow>
        let rep = buildHistoricReport e (env_ord env) dayNY openNY selNY cutoffNY exitNY endNY s;
            (soldOff, s) = run_scan e env dayNY openNY endNY openMetrics s
        in SetHistoricReport (Some (rep\<lparr>SoldOff := soldOff\<rparr>)) s)"

definition close_session :: "engine \<Rightarrow> gotime \<Rightarrow> gotime \<Rightarrow> store \<Rightarrow> store" where
  "close_session e exitNY endNY s =
     (if \<not> endNY < exitNY then onElevenAM e exitNY s
      else let s = emit e endNY ''SYSTEM'' []
                     (''Historic run ended early at '' @ fmt_hms (e_loc e) endNY
                      @ ''; closing any open positions at last price.'') [] ''warn'' s
           in closeAllOpenPositionsAt e endNY s)"

text \<open>The announcements that open a replay.\<close>

definition replay_intro ::
  "engine \<Rightarrow> run_env \<Rightarrow> gotime \<Rightarrow> string \<Rightarrow> gotime \<times> gotime \<times> gotime \<times> gotime \<Rightarrow> gotime \<Rightarrow> store \<Rightarrow> store" where
  "replay_intro e env dayNY note w endNY s =
     (case w of (openNY, selNY, cutoffNY, exitNY) \<Rightarrow>
        let z = e_loc e;
            s = SetPhase PhaseCollecting5m (SetTimes openNY selNY cutoffNY exitNY s);
            s = info e (env_asOf env)
                  (''HISTORIC mode: replaying '' @ fmt_ymd z dayNY @ '' from '' @ fmt_hms z openNY @ '' ''
                   @ utf8_arrow @ '' '' @ fmt_hms z endNY @ '' (force exit '' @ fmt_hms z exitNY @ '').'') s;
            s = (if note \<noteq> [] then info e (env_asOf env) note s else s);
            s = info e (env_asOf env) ''Audio alerts disabled in historic mode.'' s
        in info e (env_asOf env)
             (''Fetching 09:30'' @ utf8_endash @ ''09:34 minute bars via REST for open-5m metrics...'') s)"

text \<open>From the selected candidates to the report.\<close>

definition replay_track ::
  "engine \<Rightarrow> run_env \<Rightarrow> gotime \<Rightarrow> gotime \<times> gotime \<times> gotime \<times> gotime \<Rightarrow> gotime
     \<Rightarrow> (string \<times> open5m_metric) list \<Rightarrow> string list \<Rightarrow> store \<Rightarrow> store \<times> string option" where
  "replay_track e env dayNY w endNY openMetrics candidates s =
     (case w of (openNY, selNY, cutoffNY, exitNY) \<Rightarrow>
        let s = info e (env_now env)
                  (''09:35 selection: '' @ show_int (int (length candidates))
                   @ '' tickers matched opening filters (REST replay continues)'') s;
            (tracked, s) = run_tracked e env openNY selNY candidates s;
            syms = sort (env_ord env (map fst tracked));
            s = info e (env_now env)
                  (''Replaying trades via REST ('' @ fmt_hms (e_loc e) selNY @ '' '' @ utf8_arrow @ '' ''
                   @ fmt_hms (e_loc e) endNY @ '') for '' @ show_int (int (length syms)) @ '' tickers...'') s
        in (case replay_symbols e env (openNY, selNY, cutoffNY, endNY) syms s of
              (s, True) \<Rightarrow> (s, None)
            | (s, False) \<Rightarrow>
                let s = SetPhase PhaseClosed (close_session e exitNY endNY s);
                    s = replay_report e env dayNY w endNY openMetrics s
                in (info e (env_now env) ''Historic report ready (see the web UI).'' s, None)))"

definition replay_session ::
  "engine \<Rightarrow> run_env \<Rightarrow> gotime \<Rightarrow> string \<Rightarrow> gotime \<times> gotime \<times> gotime \<times> gotime \<Rightarrow> gotime \<Rightarrow> store
     \<Rightarrow> store \<times> string option" where
  "replay_session e env dayNY note w endNY s =
     (case w of (openNY, selNY, cutoffNY, exitNY) \<Rightarrow>
        let s = replay_intro e env dayNY note w endNY s;
            s = collectOpen5mViaREST (env_arrive env) (env_rest env) openNY selNY s;
            openMetrics = snapshotOpen5mMetricsForWatchlist s;
            (s, candidates) = selectCandidatesAt0935 e (env_now env) (SetPhase PhaseSelecting0935 s)
        in if candidates = []
           then let s = info e (env_now env) ''No tickers matched open_5m filters at 09:35.'' s;
                    s = SetPhase PhaseClosed s
                in (replay_report e env dayNY w endNY openMetrics s, None)
           else replay_track e env dayNY w endNY openMetrics candidates s)"

section \<open>The live run of today's session\<close>

definition live_report ::
  "engine \<Rightarrow> run_env \<Rightarrow> gotime \<Rightarrow> gotime \<times> gotime \<times> gotime \<times> gotime \<Rightarrow> gotime
     \<Rightarrow> (string \<times> open5m_metric) list \<Rightarrow> store \<Rightarrow> store" where
  "live_report e env dayNY w endNY openMetrics s =
     (case w of (openNY, selNY, cutoffNY, exitNY) \<Rightarrow>
        let (soldOff, s) = run_scan e env dayNY openNY endNY openMetrics s;
            rep = buildHistoricReport e (env_ord env) dayNY openNY selNY cutoffNY exitNY endNY s
        in SetHistoricReport (Some (rep\<lparr>SoldOff := soldOff\<rparr>)) s)"

definition live_none ::
  "engine \<Rightarrow> run_env \<Rightarrow> string \<Rightarrow> gotime \<Rightarrow> gotime \<times> gotime \<times> gotime \<times> gotime
     \<Rightarrow> (string \<times> open5m_metric) list \<Rightarrow> store \<Rightarrow> store" where
  "live_none e env msg dayNY w openMetrics s =
     (let endNY = lv_end env;
          s = SetPhase PhaseClosed (info e endNY msg s)
      in live_report e env dayNY w endNY openMetrics s)"

fun catch_up ::
  "engine \<Rightarrow> run_env \<Rightarrow> gotime \<times> gotime \<times> gotime \<times> gotime \<Rightarrow> string list \<Rightarrow> store \<Rightarrow> store \<times> bool" where
  "catch_up e env w [] s = (s, False)"
| "catch_up e env w (symb # syms) s =
     (case w of (openNY, selNY, cutoffNY, exitNY) \<Rightarrow>
       (case ListTrades (env_rest env) symb selNY (lv_catchup env) of (items, err) \<Rightarrow>
         (case replay_trades e w False (env_done env symb) 1 symb items s of
            (s, True) \<Rightarrow> (s, True)
          | (s, False) \<Rightarrow> catch_up e env w syms s)))"

definition live_track ::
  "engine \<Rightarrow> run_env \<Rightarrow> gotime \<Rightarrow> gotime \<times> gotime \<times> gotime \<times> gotime
     \<Rightarrow> (string \<times> open5m_metric) list \<Rightarrow> string list \<Rightarrow> store \<Rightarrow> store \<times> string option" where
  "live_track e env dayNY w openMetrics syms s =
     (case w of (openNY, selNY, cutoffNY, exitNY) \<Rightarrow>
       (case open_trades (lv_ToLower env) (lv_ws_trades env) e syms of
          Some err \<Rightarrow> (s, Some err)
        | None \<Rightarrow>
            let s = info e (env_now env)
                      (''HISTORIC-LIVE: tracking live trades (VWAP cross logic active)'' @ utf8_ellipsis) s
            in (case track_msgs e w (lv_events env) s of
                  (s, TrackClosed) \<Rightarrow>
                    let s = SetPhase PhaseClosed s;
                        s = live_report e env dayNY w exitNY openMetrics s
                    in (info e (env_now env) ''Historic report ready (see the web UI).'' s, None)
                | (s, TrackFailed err) \<Rightarrow> (s, Some err)
                | (s, TrackStopped) \<Rightarrow> (s, None)
                | (s, TrackRunning) \<Rightarrow> (s, None))))"

definition live_selected ::
  "engine \<Rightarrow> run_env \<Rightarrow> gotime \<Rightarrow> gotime \<times> gotime \<times> gotime \<times> gotime
     \<Rightarrow> (string \<times> open5m_metric) list \<Rightarrow> string list \<Rightarrow> store \<Rightarrow> store \<times> string option" where
  "live_selected e env dayNY w openMetrics candidates s =
     (case w of (openNY, selNY, cutoffNY, exitNY) \<Rightarrow>
        let (s, corrected) =
              correctCandidatesOpen5mViaREST (env_arrive env) (env_rest env) openNY selNY candidates s
        in if corrected = []
           then (live_none e env ''After REST correction, no tickers matched open_5m filters.'' dayNY w openMetrics s,
                 None)
           else let openMetrics = snapshotOpen5mMetricsForWatchlist s;
                    s = info e (env_now env)
                          (''09:35 selection: '' @ show_int (int (length corrected))
                           @ '' tickers matched (live tracking to 11:00).'') s;
                    (tracked, s) = run_tracked e env openNY selNY corrected s;
                    nowNY = lv_catchup env;
                    syms = sort (env_ord env (map fst tracked))
                in if selNY < nowNY
                   then let s = info e nowNY
                                  (''Catch-up (no actions): replaying trades via REST ('' @ fmt_hms (e_loc e) selNY
                                   @ '' '' @ utf8_arrow @ '' '' @ fmt_hms (e_loc e) nowNY @ '') for ''
                                   @ show_int (int (length syms)) @ '' tickers'' @ utf8_ellipsis) s
                        in (case catch_up e env w syms s of
                              (s, True) \<Rightarrow> (s, None)
                            | (s, False) \<Rightarrow> live_track e env dayNY w openMetrics syms s)
                   else live_track e env dayNY w openMetrics syms s)"

text \<open>The first phase: \<open>Inl\<close> is an early return of the whole run.\<close>

definition live_collect ::
  "engine \<Rightarrow> run_env \<Rightarrow> gotime \<times> gotime \<times> gotime \<times> gotime \<Rightarrow> store
     \<Rightarrow> ((store \<times> string option) + store) option" where
  "live_collect e env w s =
     (case w of (openNY, selNY, cutoffNY, exitNY) \<Rightarrow>
        let nowNY = lv_afterOpen env
        in if nowNY < selNY
           then let s = info e nowNY
                          (''HISTORIC-LIVE: collecting minute bars via WebSocket until 09:35'' @ utf8_ellipsis)
                          (SetPhase PhaseCollecting5m s)
                in (case open_aggs (lv_ToLower env) (lv_ws_aggs env) e (Watchlist s) of
                      None \<Rightarrow> None
                    | Some (Some err) \<Rightarrow> Some (Inl (s, Some err))
                    | Some None \<Rightarrow>
                        let s = collect_bars e (env_now env) openNY selNY (lv_bars env) s
                        in Some (if lv_done_select env then Inl (s, None) else Inr s))
           else let s = info e nowNY
                          (''HISTORIC-LIVE: started after 09:35 '' @ utf8_dash @ '' fetching 09:30'' @ utf8_endash
                           @ ''09:34 minute bars via REST'' @ utf8_ellipsis) (SetPhase PhaseCollecting5m s)
                in Some (Inr (collectOpen5mViaREST (env_arrive env) (env_rest env) openNY selNY s)))"

definition runHistoricLiveToday ::
  "engine \<Rightarrow> run_env \<Rightarrow> gotime \<Rightarrow> gotime \<times> gotime \<times> gotime \<times> gotime \<Rightarrow> store
     \<Rightarrow> (store \<times> string option) option" where
  "runHistoricLiveToday e env dayNY w s =
     (case w of (openNY, selNY, cutoffNY, exitNY) \<Rightarrow>
        let nowNY = lv_start env;
            waiting = (nowNY < openNY);
            s = (if waiting
                 then info e nowNY (''HISTORIC-LIVE: waiting for open at '' @ fmt_hms (e_loc e) openNY)
                        (SetPhase PhaseWaitingOpen s)
                 else s)
        in if waiting \<and> lv_done_open env then Some (s, None)
           else (case live_collect e env w s of
                   None \<Rightarrow> None
                 | Some (Inl r) \<Rightarrow> Some r
                 | Some (Inr s) \<Rightarrow>
                     let openMetrics = snapshotOpen5mMetricsForWatchlist s;
                         s = SetPhase PhaseSelecting0935 s;
                         (s, candidates) = selectCandidatesAt0935 e (env_now env) s
                     in Some (if candidates = []
                              then (live_none e env ''No tickers matched open_5m filters at 09:35.'' dayNY w
                                      openMetrics s, None)
                              else live_selected e env dayNY w openMetrics candidates s)))"

section \<open>The run for a date\<close>

definition session_times :: "engine \<Rightarrow> gotime \<Rightarrow> gotime \<times> gotime \<times> gotime \<times> gotime" where
  "session_times e dayNY =
     (let m = cfg_Market (e_cfg e); z = e_loc e
      in (atTime z dayNY (OpenTime m), atTime z dayNY (SelectionTime m), atTime z dayNY (VWAPCrossCutoff m),
          atTime z dayNY (ForceExitTime m)))"

definition RunHistoricForDate ::
  "engine \<Rightarrow> run_env \<Rightarrow> gotime \<Rightarrow> store \<Rightarrow> (store \<times> string option) option" where
  "RunHistoricForDate e env targetDateNY s =
     (let z = e_loc e;
          asOfNY = env_asOf env;
          targetDayNY = dateOnlyInLoc z targetDateNY
      in case resolveHistoricSessionDate e (env_date_cancel env) (env_probe_cancel env) (env_rest env)
                targetDayNY asOfNY s of
           None \<Rightarrow> None
         | Some (Inl err) \<Rightarrow>
             Some (emit e asOfNY ''SYSTEM'' []
                     (''Historic date resolution failed for '' @ fmt_ymd z targetDayNY @ '': '' @ err) [] ''warn''
                     (SetPhase PhaseClosed s), Some err)
         | Some (Inr (resolvedDayNY, note)) \<Rightarrow>
             let s = fst (ResetForHistoricRun (env_now env) targetDayNY resolvedDayNY note s);
                 w = session_times e resolvedDayNY
             in (case w of (openNY, selNY, cutoffNY, exitNY) \<Rightarrow>
                  if sameDayInLoc z resolvedDayNY asOfNY \<and> asOfNY < exitNY
                  then let s = SetPhase PhaseCollecting5m (SetTimes openNY selNY cutoffNY exitNY s);
                           s = info e asOfNY
                                 (''HISTORIC-LIVE mode: '' @ fmt_ymd z resolvedDayNY @ '' (live until ''
                                  @ fmt_hms z exitNY @ '').'') s;
                           s = (if note \<noteq> [] then info e asOfNY note s else s);
                           s = info e asOfNY ''Audio alerts disabled in historic mode.'' s
                       in runHistoricLiveToday e env resolvedDayNY w s
                  else let endNY = (if sameDayInLoc z resolvedDayNY asOfNY \<and> asOfNY < exitNY
                                    then asOfNY else exitNY)
                       in Some (replay_session e env resolvedDayNY note w endNY s)))"

end
