(* ===== verification/Interleaving.thy ===== *)
theory Interleaving
  imports Trading
begin

text \<open>
  The order of events. A session's events reach the tickers one by one, but each ticker sees only the
  trades of its own symbol and the time exits: its final state is a function of that subsequence alone.
  The live loop, which receives the trades of all symbols interleaved, and the replay of a past session,
  which goes through the tapes symbol by symbol, therefore leave the same tickers.
\<close>

section \<open>What one event does to one ticker\<close>

fun event_cell ::
  "engine \<Rightarrow> runtime_filters \<Rightarrow> gotime \<Rightarrow> gotime \<times> gotime \<times> gotime \<times> gotime \<Rightarrow> string list \<Rightarrow> string
     \<Rightarrow> session_event \<Rightarrow> ticker_state \<Rightarrow> ticker_state" where
  "event_cell e f so (a, b, c, d) wl k (Trade symb ms p z al) t =
     (if symb = k \<and> k \<noteq> [] then trade_cell e f so a b c d ms p z al t else t)"
| "event_cell e f so w wl k (TimeExit u) t = (if k \<in> set wl then timed_out u (minutes_after so u) t else t)"

fun concerns :: "string \<Rightarrow> session_event \<Rightarrow> bool" where
  "concerns k (Trade symb ms p z al) = (symb = k)"
| "concerns k (TimeExit u) = True"

lemma event_cell_other: "\<not> concerns k ev \<Longrightarrow> event_cell e f so w wl k ev t = t"
  by (cases ev; cases w) simp_all

lemma session_step_frame [frame_simps]:
  "settings (session_step e w ev s) = settings s" "phase (session_step e w ev s) = phase s"
  "Times (session_step e w ev s) = Times s"
  by (cases ev; cases w; simp add: frame_simps)+

lemma session_run_frame [frame_simps]:
  "settings (fold (session_step e w) evs s) = settings s" "phase (fold (session_step e w) evs s) = phase s"
  "Times (fold (session_step e w) evs s) = Times s"
  by (induction evs arbitrary: s) (simp_all add: frame_simps)

lemma settings_parts: "settings s' = settings s \<Longrightarrow> Filters s' = Filters s \<and> watchlist s' = watchlist s"
  by (simp add: settings_def Filters_def)

lemma get_session_step:
  "GetTicker (session_step e w ev s) k =
     map_option (event_cell e (Filters s) (fst (Times s)) w (watchlist s) k ev) (GetTicker s k)"
proof (cases ev)
  case (TimeExit u)
  then show ?thesis by (cases w; cases "GetTicker s k") (simp_all add: get_onElevenAM)
next
  case (Trade symb ms p z al)
  obtain a b c d where w: "w = (a, b, c, d)" by (cases w)
  show ?thesis
  proof (cases "symb = k \<and> k \<noteq> []")
    case True
    then show ?thesis by (cases "GetTicker s k") (simp_all add: Trade w get_processTrade)
  next
    case False
    then have "GetTicker (processTrade e a b c d symb ms p z al s) k = GetTicker s k"
      by (cases "symb = []") (auto simp: processTrade_no_symbol get_processTrade_other)
    with False show ?thesis by (cases "GetTicker s k") (auto simp: Trade w)
  qed
qed

lemma get_session_run:
  "GetTicker (fold (session_step e w) evs s) k =
     map_option (fold (event_cell e (Filters s) (fst (Times s)) w (watchlist s) k) (filter (concerns k) evs))
       (GetTicker s k)"
proof (induction evs arbitrary: s)
  case Nil
  then show ?case by (cases "GetTicker s k") simp_all
next
  case (Cons ev evs)
  have "Filters (session_step e w ev s) = Filters s" "watchlist (session_step e w ev s) = watchlist s"
    using settings_parts [of "session_step e w ev s" s] by (simp_all add: frame_simps)
  then show ?case
    by (cases "GetTicker s k") (simp_all add: Cons get_session_step frame_simps event_cell_other)
qed

text \<open>A trade without permission to act.\<close>

lemma no_action_trade:
  "events (processTrade e openNY selNY cutoffNY exitNY symb ms p z False s) = events s
   \<and> audio (processTrade e openNY selNY cutoffNY exitNY symb ms p z False s) = audio s
   \<and> map_option (\<lambda>t. (HasPosition t, Exited t, EntryPrice t, ExitPrice t, ExitReason t))
       (GetTicker (processTrade e openNY selNY cutoffNY exitNY symb ms p z False s) k)
     = map_option (\<lambda>t. (HasPosition t, Exited t, EntryPrice t, ExitPrice t, ExitReason t)) (GetTicker s k)"
proof (intro conjI)
  show "events (processTrade e openNY selNY cutoffNY exitNY symb ms p z False s) = events s"
    "audio (processTrade e openNY selNY cutoffNY exitNY symb ms p z False s) = audio s"
    by (simp_all add: processTrade_def act_on_trade_def Let_def frame_simps split: option.splits)
  show "map_option (\<lambda>t. (HasPosition t, Exited t, EntryPrice t, ExitPrice t, ExitReason t))
       (GetTicker (processTrade e openNY selNY cutoffNY exitNY symb ms p z False s) k)
     = map_option (\<lambda>t. (HasPosition t, Exited t, EntryPrice t, ExitPrice t, ExitReason t)) (GetTicker s k)"
  proof (cases "symb = [] \<or> k \<noteq> symb")
    case True
    then show ?thesis by (auto simp: processTrade_no_symbol get_processTrade_other)
  next
    case False
    then show ?thesis
      by (cases "GetTicker s symb")
        (simp_all add: get_processTrade trade_cell_def Let_def crossed_cell_def mark_cross_def)
  qed
qed

section \<open>Properties\<close>

text \<open>Interleaving: the state a session leaves a ticker in depends only on the trades of its own symbol and
  on the time exits, in their order. Two sessions that agree on these, such as the live one and a
  replay symbol by symbol, leave the same ticker.\<close>

theorem order_across_symbols_irrelevant:
  assumes "filter (concerns k) evs = filter (concerns k) evs'"
  shows "GetTicker (fold (session_step e w) evs s) k = GetTicker (fold (session_step e w) evs' s) k"
  using assms by (simp add: get_session_run)

definition idle_engine :: engine where
  "idle_engine = \<lparr>e_cfg = zero_config, e_tts = None, e_loc = fixed_zone 0, e_http = (\<lambda>_. Inl []),
     e_rand = (\<lambda>_ _. []), e_unicode = \<lparr>uni_ToUpper = id, uni_TrimFunc = id, uni_TrimRightFunc = id\<rparr>\<rparr>"

theorem order_across_symbols_irrelevant_witness:
  "GetTicker (fold (session_step idle_engine (0, 0, 10, 20))
      [Trade ''A'' 1 (Fin 1) (Fin 1) True, Trade ''B'' 2 (Fin 2) (Fin 1) True, Trade ''A'' 3 (Fin 3) (Fin 1) True,
       TimeExit 9] (New 0 zero_config [''A''])) ''A''
   = GetTicker (fold (session_step idle_engine (0, 0, 10, 20))
      [Trade ''A'' 1 (Fin 1) (Fin 1) True, Trade ''A'' 3 (Fin 3) (Fin 1) True, Trade ''B'' 2 (Fin 2) (Fin 1) True,
       TimeExit 9] (New 0 zero_config [''A''])) ''A''"
  by (rule order_across_symbols_irrelevant) simp

end
