(* ===== verification/HistoricRun_Properties.thy ===== *)
theory HistoricRun_Properties
  imports HistoricRun Interleaving
begin

text \<open>
  What the historic runs guarantee: a replay that is not cancelled ends closed, flat and with a report;
  the settings survive every run; the catch-up of a live run takes no action.
\<close>

section \<open>Frames\<close>

lemma info_frame [frame_simps]:
  "GetTicker (info e now msg s) k = GetTicker s k" "settings (info e now msg s) = settings s"
  "phase (info e now msg s) = phase s" "historicReport (info e now msg s) = historicReport s"
  "watchlist (info e now msg s) = watchlist s" "Filters (info e now msg s) = Filters s"
  "tickers (info e now msg s) = tickers s" "Times (info e now msg s) = Times s"
  by (simp_all add: info_def frame_simps) (simp add: emit_def frame_simps)

lemma watchlist_of_settings: "settings s = settings s' \<Longrightarrow> watchlist s = watchlist s'"
  by (simp add: settings_def)

lemma scan_frame:
  "GetTicker (snd (scanSoldOff e now c a1 a2 o1 o2 r b d om s)) k = GetTicker s k"
  "settings (snd (scanSoldOff e now c a1 a2 o1 o2 r b d om s)) = settings s"
  "phase (snd (scanSoldOff e now c a1 a2 o1 o2 r b d om s)) = phase s"
  by (simp_all add: scanSoldOff_def Let_def frame_simps)

lemma run_scan_frame [frame_simps]:
  "GetTicker (snd (run_scan e env d a b om s)) k = GetTicker s k"
  "settings (snd (run_scan e env d a b om s)) = settings s"
  "phase (snd (run_scan e env d a b om s)) = phase s"
  by (simp_all add: run_scan_def Let_def scan_frame)

lemma store_setters_frame [frame_simps]:
  "GetTicker (SetHistoricReport r s) k = GetTicker s k" "phase (SetHistoricReport r s) = phase s"
  "historicReport (SetHistoricReport r s) = r"
  "GetTicker (SetTimes a b c d s) k = GetTicker s k"
  "GetTicker (SetTrackedTickers ts s) k = map_of ts k"
  by (simp_all add: SetHistoricReport_def SetTimes_def SetTrackedTickers_def GetTicker_def)

section \<open>The invariant of a run\<close>

text \<open>
  Every ticker of the store is on the watchlist, so that the time exit reaches it, and an exit has one of
  the three reasons. Before the tracking starts no ticker has a position at all.
\<close>

definition exit_inv :: "ticker_state \<Rightarrow> bool" where
  "exit_inv t \<longleftrightarrow> (Exited t \<longrightarrow> ExitReason t \<in> {''PROFIT'', ''STOP'', ''TIME_EXIT''})"

definition run_inv :: "store \<Rightarrow> bool" where
  "run_inv s \<longleftrightarrow> (\<forall>k t. GetTicker s k = Some t \<longrightarrow> k \<in> set (watchlist s) \<and> exit_inv t)"

definition untraded :: "store \<Rightarrow> bool" where
  "untraded s \<longleftrightarrow> (\<forall>k t. GetTicker s k = Some t \<longrightarrow> k \<in> set (watchlist s) \<and> \<not> HasPosition t \<and> \<not> Exited t)"

definition flat :: "store \<Rightarrow> bool" where
  "flat s \<longleftrightarrow> (\<forall>k t. GetTicker s k = Some t \<longrightarrow> HasPosition t \<longrightarrow> Exited t)"

lemma untraded_run_inv: "untraded s \<Longrightarrow> run_inv s"
  by (auto simp: untraded_def run_inv_def exit_inv_def)

lemma untraded_flat: "untraded s \<Longrightarrow> flat s"
  by (auto simp: untraded_def flat_def)

lemma inv_cong:
  assumes "\<And>k. GetTicker s' k = GetTicker s k" and "settings s' = settings s"
  shows "run_inv s' = run_inv s" "untraded s' = untraded s" "flat s' = flat s"
  using assms(1) watchlist_of_settings [OF assms(2)] by (simp_all add: run_inv_def untraded_def flat_def)

lemma exit_inv_trade_cell: "exit_inv t \<Longrightarrow> exit_inv (trade_cell e f so a b c d ms p z al t)"
  by (auto simp: exit_inv_def trade_cell_def Let_def act_cell_def manage_cell_def exited_def crossed_cell_def
      mark_cross_def entered_def)

lemma run_inv_processTrade: "run_inv s \<Longrightarrow> run_inv (processTrade e a b c d symb ms p z al s)"
proof -
  assume inv: "run_inv s"
  have wl: "watchlist (processTrade e a b c d symb ms p z al s) = watchlist s"
    by (rule watchlist_of_settings) (simp add: frame_simps)
  show ?thesis
    unfolding run_inv_def wl
  proof (intro allI impI)
    fix k t assume t: "GetTicker (processTrade e a b c d symb ms p z al s) k = Some t"
    show "k \<in> set (watchlist s) \<and> exit_inv t"
    proof (cases "k = symb \<and> symb \<noteq> []")
      case True
      with t inv show ?thesis by (auto simp: get_processTrade run_inv_def exit_inv_trade_cell)
    next
      case False
      then have "GetTicker s k = Some t"
        using t by (cases "symb = []") (simp_all add: processTrade_no_symbol get_processTrade_other)
      with inv show ?thesis by (simp add: run_inv_def)
    qed
  qed
qed

lemma watchlist_onElevenAM: "watchlist (onElevenAM e u s) = watchlist s"
  by (rule watchlist_of_settings) (simp add: frame_simps)

lemma timed_out_exit:
  "exit_inv t \<Longrightarrow> exit_inv (timed_out u m t)" "HasPosition (timed_out u m t) \<Longrightarrow> Exited (timed_out u m t)"
  by (simp_all add: exit_inv_def timed_out_def exited_def split: if_splits)

lemma onElevenAM_cases:
  assumes "run_inv s" and "GetTicker (onElevenAM e u s) k = Some t"
  obtains t0 where "GetTicker s k = Some t0" and "t = timed_out u (minutes_after (fst (Times s)) u) t0"
    and "k \<in> set (watchlist s)" and "exit_inv t0"
proof -
  obtain t0 where t0: "GetTicker s k = Some t0" using assms(2) by (cases "GetTicker s k") (simp_all add: get_onElevenAM split: if_splits)
  with assms(1) have k: "k \<in> set (watchlist s)" "exit_inv t0" by (auto simp: run_inv_def)
  with assms(2) t0 have "t = timed_out u (minutes_after (fst (Times s)) u) t0" by (simp add: get_onElevenAM)
  with t0 k that show thesis by blast
qed

lemma run_inv_onElevenAM:
  assumes "run_inv s" shows "run_inv (onElevenAM e u s)"
  unfolding run_inv_def watchlist_onElevenAM
  by (intro allI impI; erule onElevenAM_cases [OF assms]) (simp add: timed_out_exit)

interpretation tracking: invariant_steps "session_step e w" "\<lambda>_. True" run_inv for e w
proof unfold_locales
  show "run_inv (session_step e w ev s)" if "run_inv s" for e w ev s
    using that by (cases ev; cases w) (simp_all add: run_inv_processTrade run_inv_onElevenAM)
qed

lemma flat_onElevenAM:
  assumes "run_inv s" shows "flat (onElevenAM e u s)"
  unfolding flat_def
  by (intro allI impI; erule onElevenAM_cases [OF assms]) (simp add: timed_out_exit)

section \<open>From the opening to the tracked tickers\<close>

text \<open>What a run meets when nothing disturbs it: all answers arrive, in any order, and no context is done.\<close>

definition undisturbed :: "run_env \<Rightarrow> bool" where
  "undisturbed env \<longleftrightarrow>
     (\<forall>xs. mset (env_arrive env xs) = mset xs) \<and> (\<forall>xs. mset (env_ord env xs) = mset xs)
     \<and> (\<forall>k i. \<not> env_done env k i)"

lemma collect_untraded:
  assumes "untraded s" and "\<forall>xs. mset (arrive xs) = mset xs"
  shows "untraded (collectOpen5mViaREST arrive r a b s)"
    "settings (collectOpen5mViaREST arrive r a b s) = settings s"
proof -
  show st: "settings (collectOpen5mViaREST arrive r a b s) = settings s"
    by (simp add: collectOpen5mViaREST_def collect_settings)
  have "set (arrive (watchlist s)) = set (watchlist s)" using assms(2) mset_eq_setD by blast
  then show "untraded (collectOpen5mViaREST arrive r a b s)"
    using assms(1) watchlist_of_settings [OF st]
    by (auto simp: untraded_def collectOpen5mViaREST_def collect_pool Watchlist_def collect_cell_def
        new_ticker_def split: if_splits option.splits)
qed

lemma select_untraded:
  assumes "untraded s" and "selectCandidatesAt0935 e now s = (s', cs)"
  shows "untraded s'" "settings s' = settings s" "set cs \<subseteq> set (watchlist s)"
    "distinct (watchlist s) \<Longrightarrow> distinct cs"
proof -
  define s0 where "s0 = emit e now ''SYSTEM'' []
    ''Computing open_5m_range_pct + open_5m_vol and filtering...'' [] ''info'' s"
  define r where "r = fold (select_one (Filters s)) (watchlist s0) (s0, [])"
  have s': "s' = fst r" and cs: "cs = sort (snd r)"
    using assms(2) by (auto simp: selectCandidatesAt0935_def Let_def case_prod_unfold r_def s0_def Watchlist_def)
  have s0: "GetTicker s0 k = GetTicker s k" "watchlist s0 = watchlist s" "settings s0 = settings s" for k
    by (simp_all add: s0_def frame_simps)
  have g: "GetTicker s' k = (if k \<in> set (watchlist s) \<and> selected (Filters s) (GetTicker s k)
      then map_option select_cell (GetTicker s k) else GetTicker s k)" for k
    using select_fold [of "Filters s" "watchlist s0" s0 "[]" k] by (simp add: s' r_def s0)
  have f: "snd r = filter (\<lambda>k. selected (Filters s) (GetTicker s k)) (watchlist s)"
    using select_fold [of "Filters s" "watchlist s0" s0 "[]"] by (simp add: r_def s0)
  show st: "settings s' = settings s"
    using select_settings [of "Filters s" "watchlist s0" s0 "[]"] by (simp add: s' r_def s0)
  show "untraded s'"
    using assms(1) watchlist_of_settings [OF st]
    by (auto simp: untraded_def g select_cell_def split: if_splits)
  show "set cs \<subseteq> set (watchlist s)" "distinct (watchlist s) \<Longrightarrow> distinct cs"
    by (auto simp: cs f)
qed

lemma tracked_cell_untraded:
  "HasPosition (tracked_cell e cH cS r a b k t) = HasPosition t"
  "Exited (tracked_cell e cH cS r a b k t) = Exited t"
proof -
  have step: "HasPosition (seed_trade u tr x) = HasPosition x \<and> Exited (seed_trade u tr x) = Exited x" for u tr x
    by (simp add: seed_trade_def Let_def)
  have "HasPosition (fst (seed_loop c u i trs x)) = HasPosition x
      \<and> Exited (fst (seed_loop c u i trs x)) = Exited x" for c u i trs x
    by (induction c u i trs x rule: seed_loop.induct) (auto simp: step split: option.splits)
  then have seed: "HasPosition (fst (seedVWAPFromTrades c r k a b x)) = HasPosition x
      \<and> Exited (fst (seedVWAPFromTrades c r k a b x)) = Exited x" for c x
    by (auto simp: seedVWAPFromTrades_def split: prod.splits option.splits) (metis fst_conv)+
  show "HasPosition (tracked_cell e cH cS r a b k t) = HasPosition t"
    "Exited (tracked_cell e cH cS r a b k t) = Exited t"
    by (simp_all add: tracked_cell_def Let_def seed split: sum.splits)
qed

lemma run_tracked_untraded:
  assumes "untraded s" and "undisturbed env" and "distinct cs" and "set cs \<subseteq> set (watchlist s)"
    and b: "run_tracked e env a b cs s = (tracked, s')"
  shows "untraded s'" "settings s' = settings s" "phase s' = PhaseTrackingTicks"
    "GetTicker s' k = map_of tracked k"
proof -
  obtain s1 where s1: "buildTrackedStates e (env_now env) (env_cancel env) (env_cancel env) (env_arrive env)
      (env_ord env) (env_rest env) a b cs s = (tracked, s1)"
    and s': "s' = SetPhase PhaseTrackingTicks (SetTrackedTickers tracked s1)"
    using b by (auto simp: run_tracked_def split: prod.splits)
  have perms: "mset (env_arrive env cs) = mset cs" "mset (env_ord env (map fst tracked)) = mset (map fst tracked)"
    using assms(2) by (auto simp: undisturbed_def)
  note look = tracked_lookup [OF assms(3) perms s1]
  show "settings s' = settings s" using look(3) by (simp add: s' frame_simps)
  then have wl: "watchlist s' = watchlist s" by (rule watchlist_of_settings)
  show "phase s' = PhaseTrackingTicks" by (simp add: s' frame_simps)
  show g: "GetTicker s' k = map_of tracked k" for k by (simp add: s' frame_simps)
  show "untraded s'"
    using assms(1,4) unfolding untraded_def wl g look(1)
    by (auto simp: tracked_cell_untraded split: if_splits)
qed

section \<open>The replay of tapes\<close>

text \<open>The session events a tape of REST trades stands for.\<close>

definition tape_events :: "string \<Rightarrow> bool \<Rightarrow> rest_trade list \<Rightarrow> session_event list" where
  "tape_events symb act trs =
     map (\<lambda>tr. Trade symb (tradeTimeMillis tr) (tr_Price tr) (tr_Size tr) act)
       (filter (\<lambda>tr. tradeTimeMillis tr \<noteq> 0) trs)"

lemma replay_trades_session:
  assumes "\<And>j. \<not> dn j"
  shows "replay_trades e w act dn i symb trs s = (fold (session_step e w) (tape_events symb act trs) s, False)"
proof -
  obtain a b c d where w: "w = (a, b, c, d)" by (cases w)
  show ?thesis
    using assms by (induction trs arbitrary: i s) (simp_all add: tape_events_def Let_def w)
qed

lemma replay_trades_prefix:
  "\<exists>n. fst (replay_trades e w act dn i symb trs s) = fold (session_step e w) (tape_events symb act (take n trs)) s"
proof (induction trs arbitrary: i s)
  case Nil
  then show ?case by (simp add: tape_events_def)
next
  case (Cons tr trs)
  obtain a b c d where w: "w = (a, b, c, d)" by (cases w)
  let ?s = "processTrade e a b c d symb (tradeTimeMillis tr) (tr_Price tr) (tr_Size tr) act s"
  consider "dn i" | "\<not> dn i" "tradeTimeMillis tr = 0" | "\<not> dn i" "tradeTimeMillis tr \<noteq> 0" by blast
  then show ?case
  proof cases
    case 1
    then show ?thesis by (intro exI [of _ 0]) (simp add: tape_events_def)
  next
    case 2
    from Cons.IH [of "i + 1" s] obtain n where
      "fst (replay_trades e w act dn (i + 1) symb trs s) = fold (session_step e w) (tape_events symb act (take n trs)) s"
      by blast
    with 2 show ?thesis by (intro exI [of _ "Suc n"]) (simp add: tape_events_def)
  next
    case 3
    from Cons.IH [of "i + 1" ?s] obtain n where
      "fst (replay_trades e w act dn (i + 1) symb trs ?s) = fold (session_step e w) (tape_events symb act (take n trs)) ?s"
      by blast
    with 3 show ?thesis by (intro exI [of _ "Suc n"]) (simp add: tape_events_def w Let_def)
  qed
qed

lemma tape_concerns:
  "filter (concerns k) (tape_events symb act trs) = (if symb = k then tape_events symb act trs else [])"
  by (auto simp: tape_events_def filter_empty_conv filter_id_conv)

lemma replay_symbols_step:
  assumes "undisturbed env" and "w = (a, b, c, d)"
  obtains s2 where "replay_symbols e env w (symb # syms) s = replay_symbols e env w syms s2"
    and "settings s2 = settings s" "Times s2 = Times s" "phase s2 = phase s" "run_inv s \<Longrightarrow> run_inv s2"
    and "\<And>k. GetTicker s2 k = GetTicker (fold (session_step e w)
           (tape_events symb True (fst (ListTrades (env_rest env) symb b d))) s) k"
proof -
  obtain items err where items: "ListTrades (env_rest env) symb b d = (items, err)"
    by (cases "ListTrades (env_rest env) symb b d")
  define s1 where "s1 = fold (session_step e w) (tape_events symb True items) s"
  define s2 where "s2 = (case err of None \<Rightarrow> s1
    | Some x \<Rightarrow> emit e (env_now env) ''SYSTEM'' symb (''trade replay failed: '' @ x) [] ''warn'' s1)"
  have nd: "\<not> env_done env k i" for k i using assms(1) by (simp add: undisturbed_def)
  have eq: "replay_symbols e env w (symb # syms) s = replay_symbols e env w syms s2"
    by (cases err) (simp_all add: nd assms(2) items replay_trades_session s1_def s2_def)
  have s2: "settings s2 = settings s1" "Times s2 = Times s1" "phase s2 = phase s1" "GetTicker s2 k = GetTicker s1 k" for k
    by (simp_all add: s2_def frame_simps split: option.split)
  have "run_inv s1" if "run_inv s"
    using tracking.inv_run [of "tape_events symb True items" s e w] that by (simp add: s1_def)
  then have "run_inv s2" if "run_inv s" using that inv_cong(1) [of s2 s1] s2 by simp
  with eq s2 show thesis by (intro that [of s2]) (simp_all add: items s1_def frame_simps)
qed

lemma replay_symbols_frame:
  assumes "undisturbed env" and "w = (a, b, c, d)"
  shows "snd (replay_symbols e env w syms s) = False
    \<and> settings (fst (replay_symbols e env w syms s)) = settings s
    \<and> phase (fst (replay_symbols e env w syms s)) = phase s
    \<and> (run_inv s \<longrightarrow> run_inv (fst (replay_symbols e env w syms s)))"
proof (induction syms arbitrary: s)
  case (Cons symb syms)
  show ?case
    by (rule replay_symbols_step [OF assms, of e symb syms s]) (use Cons.IH in simp)
qed simp

lemma replay_symbols_tickers:
  assumes "undisturbed env" and "w = (a, b, c, d)" and "distinct syms"
  shows "GetTicker (fst (replay_symbols e env w syms s)) k =
      GetTicker (if k \<in> set syms
                 then fold (session_step e w) (tape_events k True (fst (ListTrades (env_rest env) k b d))) s
                 else s) k"
  using assms(3)
proof (induction syms arbitrary: s)
  case (Cons symb syms)
  let ?tape = "\<lambda>k. tape_events k True (fst (ListTrades (env_rest env) k b d))"
  obtain s2 where s2: "replay_symbols e env w (symb # syms) s = replay_symbols e env w syms s2"
    "settings s2 = settings s" "Times s2 = Times s"
    "\<And>k. GetTicker s2 k = GetTicker (fold (session_step e w) (?tape symb) s) k"
    using replay_symbols_step [OF assms(1,2), of e symb syms s] by metis
  have same: "GetTicker (fold (session_step e w) (?tape k) s2) k = GetTicker (fold (session_step e w) (?tape k) s) k"
    "GetTicker s2 k = GetTicker s k" if "k \<noteq> symb"
    using that s2(3,4) settings_parts [OF s2(2)]
    by (cases "GetTicker s k"; simp add: get_session_run tape_concerns)+
  show ?case
  proof (cases "k = symb")
    case True
    with Cons show ?thesis unfolding s2(1) by (simp add: s2(4))
  next
    case False
    with Cons show ?thesis unfolding s2(1) by (simp add: same)
  qed
qed simp

section \<open>The replay of a session\<close>

text \<open>
  What the end of a run looks like: the phase is closed, no position is open, and a report is stored in
  which every trade has one of the three exit reasons.
\<close>

definition all_exited :: "historic_report \<Rightarrow> bool" where
  "all_exited rep \<longleftrightarrow> (\<forall>l \<in> set (Trades rep). ht_ExitReason l \<in> {''PROFIT'', ''STOP'', ''TIME_EXIT''})"

definition finished :: "store \<Rightarrow> bool" where
  "finished s \<longleftrightarrow> phase s = PhaseClosed \<and> run_inv s \<and> flat s \<and> (\<exists>rep. historicReport s = Some rep \<and> all_exited rep)"

lemma TickerStates_GetTicker:
  assumes "mset (ord (map fst (tickers s))) = mset (map fst (tickers s))" and "t \<in> set (TickerStates ord s)"
  shows "\<exists>k. GetTicker s k = Some t"
proof -
  obtain k where k: "k \<in> set (ord (map fst (tickers s)))" "t = the (map_of (tickers s) k)"
    using assms(2) by (auto simp: TickerStates_def)
  then have "k \<in> fst ` set (tickers s)" using mset_eq_setD [OF assms(1)] by simp
  then obtain t' where "map_of (tickers s) k = Some t'" by (metis map_of_eq_None_iff not_None_eq)
  with k show ?thesis by (auto simp: GetTicker_def)
qed

lemma report_all_exited:
  assumes "run_inv s" and "flat s" and "mset (ord (map fst (tickers s))) = mset (map fst (tickers s))"
  shows "all_exited (buildHistoricReport e ord d a b c x en s)"
  unfolding all_exited_def
proof
  fix l assume "l \<in> set (Trades (buildHistoricReport e ord d a b c x en s))"
  then obtain t where t: "t \<in> set (TickerStates ord s)" "traded t" and l: "l = trade_line (e_loc e) en t"
    by (auto simp: buildHistoricReport_def Let_def report_fold)
  obtain k where k: "GetTicker s k = Some t" using TickerStates_GetTicker [OF assms(3) t(1)] by blast
  then have "Exited t" using assms(2) t(2) by (simp add: flat_def traded_def)
  with k assms(1) have "ExitReason t \<in> {''PROFIT'', ''STOP'', ''TIME_EXIT''}"
    by (simp add: run_inv_def exit_inv_def)
  moreover have "ht_ExitReason l = ExitReason t" by (simp add: l trade_line_def Let_def case_prod_unfold)
  ultimately show "ht_ExitReason l \<in> {''PROFIT'', ''STOP'', ''TIME_EXIT''}" by simp
qed

lemma finish_report:
  assumes "run_inv s" and "flat s" and "phase s = PhaseClosed" and "undisturbed env"
  shows "finished (replay_report e env d w en om s)" "settings (replay_report e env d w en om s) = settings s"
proof -
  obtain a b c x where w: "w = (a, b, c, x)" by (cases w)
  define s' where "s' = snd (run_scan e env d a en om s)"
  have s': "GetTicker s' k = GetTicker s k" "settings s' = settings s" "phase s' = phase s" for k
    by (simp_all add: s'_def frame_simps)
  define rep where "rep = (buildHistoricReport e (env_ord env) d a b c x en s)\<lparr>SoldOff := fst (run_scan e env d a en om s)\<rparr>"
  have r: "replay_report e env d w en om s = SetHistoricReport (Some rep) s'"
    by (simp add: replay_report_def w Let_def case_prod_unfold s'_def rep_def)
  have "mset (env_ord env xs) = mset xs" for xs using assms(4) by (simp add: undisturbed_def)
  then have rep: "all_exited rep"
    using report_all_exited [OF assms(1,2), of "env_ord env"] by (simp add: rep_def all_exited_def)
  show "settings (replay_report e env d w en om s) = settings s" by (simp add: r frame_simps s')
  have "run_inv (SetHistoricReport (Some rep) s') = run_inv s" "flat (SetHistoricReport (Some rep) s') = flat s"
    by (rule inv_cong; simp add: frame_simps s')+
  with assms rep show "finished (replay_report e env d w en om s)"
    by (simp add: finished_def r frame_simps s')
qed

lemma finished_info: "finished (info e now msg s) = finished s"
  using inv_cong [of "info e now msg s" s] by (simp add: finished_def frame_simps)

lemma close_session_at_exit:
  assumes "run_inv s"
  shows "run_inv (close_session e exitNY exitNY s)" "flat (close_session e exitNY exitNY s)"
    "settings (close_session e exitNY exitNY s) = settings s"
  using assms by (simp_all add: close_session_def run_inv_onElevenAM flat_onElevenAM frame_simps)

lemma opening_untraded:
  assumes "untraded s" and "undisturbed env"
    and "s1 = collectOpen5mViaREST (env_arrive env) (env_rest env) a b s"
    and "selectCandidatesAt0935 e now (SetPhase p s1) = (s2, cs)"
  shows "untraded s2" "settings s2 = settings s" "set cs \<subseteq> set (watchlist s2)"
    "distinct (watchlist s) \<Longrightarrow> distinct cs"
proof -
  have perm: "\<forall>xs. mset (env_arrive env xs) = mset xs" using assms(2) by (simp add: undisturbed_def)
  note c = collect_untraded [OF assms(1) perm, of "env_rest env" a b, folded assms(3)]
  have p: "settings (SetPhase p s1) = settings s1" by (simp add: frame_simps)
  have u: "untraded (SetPhase p s1)"
    using c(1) inv_cong(2) [of "SetPhase p s1" s1] by (simp add: frame_simps)
  note sel = select_untraded [OF u assms(4)]
  show "untraded s2" "settings s2 = settings s" using sel(1,2) c(2) p by simp_all
  then have "watchlist s2 = watchlist s" "watchlist (SetPhase p s1) = watchlist s"
    using p c(2) by (auto intro!: watchlist_of_settings)
  with sel(3,4) show "set cs \<subseteq> set (watchlist s2)" "distinct (watchlist s) \<Longrightarrow> distinct cs" by simp_all
qed

lemma replay_track_finishes:
  assumes "untraded s" and "undisturbed env" and "distinct cs" and "set cs \<subseteq> set (watchlist s)"
  shows "snd (replay_track e env d (a, b, c, x) x om cs s) = None
    \<and> finished (fst (replay_track e env d (a, b, c, x) x om cs s))
    \<and> settings (fst (replay_track e env d (a, b, c, x) x om cs s)) = settings s"
proof -
  define s1 where "s1 = info e (env_now env) (''09:35 selection: '' @ show_int (int (length cs))
      @ '' tickers matched opening filters (REST replay continues)'') s"
  have s1: "GetTicker s1 k = GetTicker s k" "settings s1 = settings s" for k
    by (simp_all add: s1_def frame_simps)
  have u1: "untraded s1" "set cs \<subseteq> set (watchlist s1)"
    using assms(1,4) inv_cong(2) [of s1 s] watchlist_of_settings [of s1 s] s1 by simp_all
  obtain tracked s2 where tr: "run_tracked e env a b cs s1 = (tracked, s2)" by fastforce
  note t = run_tracked_untraded [OF u1(1) assms(2,3) u1(2) tr]
  define syms where "syms = sort (env_ord env (map fst tracked))"
  define s3 where "s3 = info e (env_now env) (''Replaying trades via REST ('' @ fmt_hms (e_loc e) b @ '' ''
      @ utf8_arrow @ '' '' @ fmt_hms (e_loc e) x @ '') for '' @ show_int (int (length syms)) @ '' tickers...'') s2"
  have s3: "GetTicker s3 k = GetTicker s2 k" "settings s3 = settings s2" for k
    by (simp_all add: s3_def frame_simps)
  have i3: "run_inv s3" using untraded_run_inv [OF t(1)] inv_cong(1) [of s3 s2] s3 by simp
  define s4 where "s4 = fst (replay_symbols e env (a, b, c, x) syms s3)"
  have rs: "replay_symbols e env (a, b, c, x) syms s3 = (s4, False)" "settings s4 = settings s3" "run_inv s4"
    using replay_symbols_frame [OF assms(2) refl, of e a b c x syms s3] i3 by (simp_all add: s4_def prod_eq_iff)
  define s5 where "s5 = SetPhase PhaseClosed (close_session e x x s4)"
  note cl = close_session_at_exit [OF rs(3), of e x]
  have s5: "phase s5 = PhaseClosed" "run_inv s5" "flat s5" "settings s5 = settings s4"
    using cl inv_cong [of s5 "close_session e x x s4"] by (simp_all add: s5_def frame_simps)
  define s6 where "s6 = info e (env_now env) ''Historic report ready (see the web UI).''
      (replay_report e env d (a, b, c, x) x om s5)"
  have "finished s6" "settings s6 = settings s"
    using finish_report [OF s5(2,3,1) assms(2), of e d "(a, b, c, x)" x om] s5(4) rs(2) s3(2) t(2) s1(2)
    by (simp_all add: s6_def finished_info frame_simps)
  moreover have "replay_track e env d (a, b, c, x) x om cs s = (s6, None)"
    unfolding replay_track_def Let_def prod.case s1_def [symmetric] tr syms_def [symmetric] s3_def [symmetric] rs(1)
      bool.case s5_def [symmetric] s6_def [symmetric] ..
  ultimately show ?thesis by simp
qed

lemma replay_session_finishes:
  assumes "untraded s" and "undisturbed env" and "distinct (watchlist s)"
  shows "snd (replay_session e env d note (a, b, c, x) x s) = None
    \<and> finished (fst (replay_session e env d note (a, b, c, x) x s))
    \<and> settings (fst (replay_session e env d note (a, b, c, x) x s)) = settings s"
proof -
  define s3 where "s3 = replay_intro e env d note (a, b, c, x) x s"
  define s4 where "s4 = collectOpen5mViaREST (env_arrive env) (env_rest env) a b s3"
  define om where "om = snapshotOpen5mMetricsForWatchlist s4"
  obtain s5 cs where sel: "selectCandidatesAt0935 e (env_now env) (SetPhase PhaseSelecting0935 s4) = (s5, cs)"
    by fastforce
  have s3: "GetTicker s3 k = GetTicker s k" "settings s3 = settings s" for k
    by (simp_all add: s3_def replay_intro_def Let_def frame_simps)
  have u3: "untraded s3" and wl3: "watchlist s3 = watchlist s"
    using assms(1) inv_cong(2) [of s3 s] watchlist_of_settings [of s3 s] s3 by simp_all
  note op = opening_untraded [OF u3 assms(2) s4_def sel]
  show ?thesis
  proof (cases "cs = []")
    case True
    define s6 where "s6 = SetPhase PhaseClosed (info e (env_now env) ''No tickers matched open_5m filters at 09:35.'' s5)"
    have s6: "untraded s6" "settings s6 = settings s" "phase s6 = PhaseClosed"
      using op(1,2) s3(2) inv_cong(2) [of s6 s5] by (simp_all add: s6_def frame_simps)
    then have "finished (replay_report e env d (a, b, c, x) x om s6)"
      "settings (replay_report e env d (a, b, c, x) x om s6) = settings s"
      using finish_report [of s6 env e d "(a, b, c, x)" x om] untraded_run_inv untraded_flat assms(2) by simp_all
    moreover have "replay_session e env d note (a, b, c, x) x s = (replay_report e env d (a, b, c, x) x om s6, None)"
      unfolding replay_session_def Let_def prod.case s3_def [symmetric] s4_def [symmetric] om_def [symmetric] sel
        s6_def [symmetric] if_P [OF True] ..
    ultimately show ?thesis by simp
  next
    case False
    have "replay_session e env d note (a, b, c, x) x s = replay_track e env d (a, b, c, x) x om cs s5"
      unfolding replay_session_def Let_def prod.case s3_def [symmetric] s4_def [symmetric] om_def [symmetric] sel
        if_not_P [OF False] ..
    then show ?thesis
      using replay_track_finishes [OF op(1) assms(2) op(4) op(3), of e d a b c x om] assms(3) wl3 op(2) s3(2) by simp
  qed
qed

section \<open>After the close\<close>

text \<open>Once flat, a session stays flat: a trade from the cutoff on opens no position.\<close>

fun late_event :: "gotime \<Rightarrow> session_event \<Rightarrow> bool" where
  "late_event cutoffNY (Trade symb ms p z al) = (\<not> UnixMilli ms < cutoffNY)"
| "late_event cutoffNY (TimeExit u) = True"

lemma trade_cell_late:
  assumes "HasPosition t \<longrightarrow> Exited t" and "\<not> UnixMilli ms < c"
  shows "HasPosition (trade_cell e f so a b c d ms p z al t) \<longrightarrow> Exited (trade_cell e f so a b c d ms p z al t)"
  using assms
  by (auto simp: trade_cell_def Let_def act_cell_def entry_rejected_def crossed_cell_def mark_cross_def)

interpretation closed: invariant_steps "session_step e (a, b, c, d)" "late_event c" flat for e a b c d
proof unfold_locales
  show "flat (session_step e (a, b, c, d) ev s)" if "late_event c ev" "flat s" for e a b c d ev s
    unfolding flat_def
  proof (intro allI impI)
    fix k t assume "GetTicker (session_step e (a, b, c, d) ev s) k = Some t" "HasPosition t"
    then obtain t0 where t0: "GetTicker s k = Some t0"
      "t = event_cell e (Filters s) (fst (Times s)) (a, b, c, d) (watchlist s) k ev t0"
      by (auto simp: get_session_step)
    then have "HasPosition t0 \<longrightarrow> Exited t0" using that(2) by (simp add: flat_def)
    with t0 that(1) \<open>HasPosition t\<close> show "Exited t"
      using trade_cell_late by (cases ev) (auto simp: timed_out_exit(2) split: if_splits)
  qed
qed

text \<open>Without actions a tape moves no position and announces nothing.\<close>

definition position_view :: "ticker_state \<Rightarrow> bool \<times> bool \<times> float64 \<times> float64 \<times> string" where
  "position_view t = (HasPosition t, Exited t, EntryPrice t, ExitPrice t, ExitReason t)"

definition same_actions :: "store \<Rightarrow> store \<Rightarrow> bool" where
  "same_actions s s' \<longleftrightarrow> events s' = events s \<and> audio s' = audio s
     \<and> (\<forall>k. map_option position_view (GetTicker s' k) = map_option position_view (GetTicker s k))"

lemma same_actions_trans: "same_actions a b \<Longrightarrow> same_actions b c \<Longrightarrow> same_actions a c"
  by (simp add: same_actions_def)

lemma same_actions_tape: "same_actions s (fold (session_step e w) (tape_events symb False trs) s)"
proof -
  obtain a b c d where w: "w = (a, b, c, d)" by (cases w)
  have step: "same_actions s (processTrade e a b c d symb ms p z False s)" for ms p z s
    unfolding same_actions_def position_view_def using no_action_trade by auto
  have "same_actions s (fold (session_step e w) (map (\<lambda>tr. Trade symb (ms tr) (p tr) (z tr) False) ys) s)"
    for ys :: "rest_trade list" and ms p z
  proof (induction ys arbitrary: s)
    case Nil
    then show ?case by (simp add: same_actions_def)
  next
    case (Cons y ys)
    from same_actions_trans [OF step Cons.IH] show ?case by (simp add: w)
  qed
  then show ?thesis by (simp add: tape_events_def)
qed

lemma same_actions_catch_up: "same_actions s (fst (catch_up e env w syms s))"
proof (induction syms arbitrary: s)
  case Nil
  then show ?case by (simp add: same_actions_def)
next
  case (Cons symb syms)
  obtain a b c d where w: "w = (a, b, c, d)" by (cases w)
  obtain items err where it: "ListTrades (env_rest env) symb b (lv_catchup env) = (items, err)" by fastforce
  obtain s1 r where r: "replay_trades e w False (env_done env symb) 1 symb items s = (s1, r)" by fastforce
  obtain n where "s1 = fold (session_step e w) (tape_events symb False (take n items)) s"
    using replay_trades_prefix [of e w False "env_done env symb" 1 symb items s] r by auto
  then have "same_actions s s1" by (simp add: same_actions_tape)
  moreover have "fst (catch_up e env w (symb # syms) s) = (if r then s1 else fst (catch_up e env w syms s1))"
    using it r by (simp add: w)
  ultimately show ?case using Cons.IH [of s1] by (auto intro: same_actions_trans)
qed

section \<open>Properties\<close>

lemma replay_after_reset:
  assumes "undisturbed env" and "distinct (watchlist s)"
  shows "\<exists>s'. replay_session e env d nt (a, b, c, x) x (fst (ResetForHistoricRun now tgt d nt s)) = (s', None)
    \<and> finished s' \<and> settings s' = settings s"
proof -
  let ?s = "fst (ResetForHistoricRun now tgt d nt s)"
  have st: "settings ?s = settings s" by (simp add: frame_simps)
  have "untraded ?s" by (simp add: untraded_def ResetForHistoricRun_def Let_def GetTicker_def)
  moreover have "distinct (watchlist ?s)" using assms(2) watchlist_of_settings [OF st] by simp
  ultimately show ?thesis
    using replay_session_finishes [OF _ assms(1), of ?s e d nt a b c x] st by (simp add: prod_eq_iff)
qed

lemma past_run:
  assumes "undisturbed env" and "distinct (watchlist s)" and z: "full_days (e_loc e)"
    and "env_date_cancel env = (\<lambda>_. None)" and "env_probe_cancel env = (\<lambda>_ _. None)"
    and past: "local_day (e_loc e) target < local_day (e_loc e) (env_asOf env)"
  obtains (unresolved) err where "RunHistoricForDate e env target s =
      Some (emit e (env_asOf env) ''SYSTEM'' [] (''Historic date resolution failed for ''
        @ fmt_ymd (e_loc e) (dateOnlyInLoc (e_loc e) target) @ '': '' @ err) [] ''warn'' (SetPhase PhaseClosed s), Some err)"
  | (replayed) n msg w en s' where "RunHistoricForDate e env target s = Some (s', None)"
      and "s' = fst (replay_session e env (midnight (e_loc e) n) msg w en
        (fst (ResetForHistoricRun (env_now env) (dateOnlyInLoc (e_loc e) target) (midnight (e_loc e) n) msg s)))"
      and "finished s'" and "settings s' = settings s" and "weekday n" and "n \<le> local_day (e_loc e) target"
proof -
  define day where "day = dateOnlyInLoc (e_loc e) target"
  have day: "local_day (e_loc e) day = local_day (e_loc e) target"
    by (simp add: day_def dateOnlyInLoc_midnight midnight_local [OF z])
  obtain res where res: "resolveHistoricSessionDate e (\<lambda>_. None) (\<lambda>_ _. None) (env_rest env) day (env_asOf env) s = Some res"
    and ok: "\<And>d nt. res = Inr (d, nt) \<Longrightarrow> \<exists>n. resolved_to e (env_rest env) s (local_day (e_loc e) day) d n"
    using resolve_spec [OF z, of "env_rest env" day "env_asOf env" s] by blast
  show thesis
  proof (cases res)
    case (Inl err)
    with res assms(4,5) show thesis by (intro unresolved) (simp add: RunHistoricForDate_def Let_def day_def)
  next
    case (Inr r)
    obtain d nt where r: "res = Inr (d, nt)" using Inr by (cases r) simp
    obtain n where n: "d = midnight (e_loc e) n" "n \<le> local_day (e_loc e) target" "weekday n"
      using ok [OF r] day by (auto simp: resolved_to_def)
    obtain a b c x where w: "session_times e d = (a, b, c, x)" by (cases "session_times e d")
    have not_today: "\<not> sameDayInLoc (e_loc e) d (env_asOf env)"
      using n past by (simp add: sameDayInLoc_iff midnight_local [OF z])
    obtain s' where s': "replay_session e env d nt (a, b, c, x) x (fst (ResetForHistoricRun (env_now env) day d nt s))
        = (s', None)" "finished s'" "settings s' = settings s"
      using replay_after_reset [OF assms(1,2)] by blast
    have "RunHistoricForDate e env target s = Some (s', None)"
      using res r assms(4,5) not_today w s'(1)
      by (simp add: RunHistoricForDate_def Let_def day_def [symmetric] split_beta)
    then show thesis
      by (rule replayed [where n = n and msg = nt and w = "(a, b, c, x)" and en = x])
        (use s' n in \<open>simp_all add: day_def\<close>)
  qed
qed

text \<open>C5. A historic run for a past date, undisturbed, of a watchlist without repetitions and in a zone that has every
  midnight: it always ends. Either the date cannot be resolved, and then
  the error is returned with the tickers and the last report as they were, or the session is replayed
  to its end: no position is left open, a report is stored, and each of its trades left with the target,
  the stop or the time exit. In both cases the phase is closed and no setting has changed.\<close>

theorem historic_run_past_date:
  assumes "undisturbed env" and "distinct (watchlist s)" and z: "full_days (e_loc e)"
    and "env_date_cancel env = (\<lambda>_. None)" and "env_probe_cancel env = (\<lambda>_ _. None)"
    and past: "local_day (e_loc e) target < local_day (e_loc e) (env_asOf env)"
  shows "\<exists>s' err. RunHistoricForDate e env target s = Some (s', err) \<and> phase s' = PhaseClosed \<and> settings s' = settings s
    \<and> (err = None \<longrightarrow> flat s' \<and> (\<exists>rep. historicReport s' = Some rep \<and> all_exited rep))
    \<and> (err \<noteq> None \<longrightarrow> tickers s' = tickers s \<and> historicReport s' = historicReport s)"
  using assms
proof (cases rule: past_run)
  case (unresolved err)
  let ?s = "emit e (env_asOf env) ''SYSTEM'' []
      (''Historic date resolution failed for '' @ fmt_ymd (e_loc e) (dateOnlyInLoc (e_loc e) target) @ '': '' @ err) [] ''warn''
      (SetPhase PhaseClosed s)"
  have "historicReport ?s = historicReport s" by (simp add: emit_def frame_simps)
  with unresolved show ?thesis by (intro exI [of _ ?s] exI [of _ "Some err"]) (simp add: frame_simps)
next
  case (replayed n msg w en s')
  then show ?thesis by (intro exI [of _ s'] exI [of _ None]) (simp add: finished_def)
qed

text \<open>C8. The replay of a past session is the live session: going through the tapes symbol by symbol leaves every
  tracked ticker as any live session does that receives the same trades of that symbol, in whatever
  interleaving with those of the others.\<close>

theorem replay_equals_live:
  assumes "undisturbed env" and "distinct syms" and "k \<in> set syms"
    and "filter (concerns k) evs = tape_events k True (fst (ListTrades (env_rest env) k selNY endNY))"
  shows "GetTicker (fst (replay_symbols e env (openNY, selNY, cutoffNY, endNY) syms s)) k =
    GetTicker (fold (session_step e (openNY, selNY, cutoffNY, endNY)) evs s) k"
  using replay_symbols_tickers [OF assms(1) refl assms(2)] assms(3,4)
  by (simp add: get_session_run tape_concerns)

text \<open>Flat after the close: whatever happened before, once the time exit has run no position is open, and none
  opens as long as the trades that still arrive are not stamped before the entry cutoff.\<close>

theorem flat_after_close:
  assumes "\<forall>k. GetTicker s k \<noteq> None \<longrightarrow> k \<in> set (watchlist s)" and "\<forall>ev \<in> set late. late_event cutoffNY ev"
  shows "flat (fold (session_step e (openNY, selNY, cutoffNY, exitNY)) (early @ TimeExit u # late) s)"
proof -
  let ?w = "(openNY, selNY, cutoffNY, exitNY)"
  define s1 where "s1 = fold (session_step e ?w) early s"
  have "watchlist s1 = watchlist s" by (rule watchlist_of_settings) (simp add: s1_def frame_simps)
  then have "\<forall>k. GetTicker s1 k \<noteq> None \<longrightarrow> k \<in> set (watchlist s1)"
    using assms(1) by (simp add: s1_def get_session_run)
  then have "flat (onElevenAM e u s1)"
    unfolding flat_def
  proof (intro allI impI)
    fix k t assume t: "GetTicker (onElevenAM e u s1) k = Some t" "HasPosition t"
    then obtain t0 where t0: "GetTicker s1 k = Some t0"
      by (cases "GetTicker s1 k") (simp_all add: get_onElevenAM split: if_splits)
    then have "k \<in> set (watchlist s1)" using \<open>\<forall>k. GetTicker s1 k \<noteq> None \<longrightarrow> k \<in> set (watchlist s1)\<close> by simp
    with t t0 show "Exited t" by (auto simp: get_onElevenAM timed_out_exit(2))
  qed
  from closed.inv_run [OF assms(2) this] show ?thesis by (simp add: s1_def)
qed

text \<open>The catch-up of a live historic run takes no action: whatever the tapes hold and wherever it is
  interrupted, it adds no event and no audio and opens or closes no position.\<close>

theorem catch_up_takes_no_action:
  "events (fst (catch_up e env w syms s)) = events s \<and> audio (fst (catch_up e env w syms s)) = audio s
   \<and> map_option position_view (GetTicker (fst (catch_up e env w syms s)) k) = map_option position_view (GetTicker s k)"
  using same_actions_catch_up unfolding same_actions_def by blast

section \<open>Instances\<close>

text \<open>A run in which every answer arrives in the order asked and nothing is cancelled.\<close>

definition quiet_env :: "rest \<Rightarrow> gotime \<Rightarrow> run_env" where
  "quiet_env r asOf =
     \<lparr>env_asOf = asOf, env_now = asOf, env_rest = r, env_arrive = id, env_ord = id,
      env_cancel = (\<lambda>_ _. None), env_date_cancel = (\<lambda>_. None), env_probe_cancel = (\<lambda>_ _. None),
      env_done = (\<lambda>_ _. False), lv_start = asOf, lv_afterOpen = asOf, lv_end = asOf, lv_catchup = asOf,
      lv_done_open = False, lv_done_select = False, lv_ToLower = id,
      lv_ws_aggs = \<lparr>wc_new = (\<lambda>_. None), wc_subscribe = (\<lambda>_. None), wc_connect = None\<rparr>, lv_bars = [],
      lv_ws_trades = \<lparr>wc_new = (\<lambda>_. None), wc_subscribe = (\<lambda>_. None), wc_connect = None\<rparr>, lv_events = []\<rparr>"

lemma quiet_undisturbed: "undisturbed (quiet_env r asOf)"
  by (simp add: undisturbed_def quiet_env_def)

theorem historic_run_past_date_witness:
  "\<exists>s' err. RunHistoricForDate plain_engine (quiet_env probe_rest (864000 * sec_ns)) 0 (New 0 zero_config [''A'', ''B''])
      = Some (s', err) \<and> phase s' = PhaseClosed"
proof -
  have z: "full_days (e_loc plain_engine)" by (simp add: full_days_def plain_engine_def)
  have "local_day (e_loc plain_engine) 0 < local_day (e_loc plain_engine) (864000 * sec_ns)"
    by (simp add: plain_engine_def local_day_def local_secs_def fixed_zone_def Unix_def sec_ns_def)
  then show ?thesis
    using historic_run_past_date [OF quiet_undisturbed _ z, of "New 0 zero_config [''A'', ''B'']" probe_rest
        "864000 * sec_ns" 0]
    by (auto simp: New_def quiet_env_def)
qed

text \<open>Two trades of one symbol on the tape, received live with a trade of another symbol in between.\<close>

definition two_trades :: "rest_trade list" where
  "two_trades = [\<lparr>SipTimestamp = 1000000, ParticipantTimestamp = 0, TrfTimestamp = 0, tr_Price = Fin 8, tr_Size = Fin 100\<rparr>,
                 \<lparr>SipTimestamp = 2000000, ParticipantTimestamp = 0, TrfTimestamp = 0, tr_Price = Fin 9, tr_Size = Fin 100\<rparr>]"

definition two_rest :: rest where
  "two_rest = \<lparr>ListAggs = (\<lambda>_ _ _. ([], None)),
     ListTrades = (\<lambda>k _ _. (if k = ''A'' then two_trades else [], None))\<rparr>"

definition two_store :: store where
  "two_store = (New 0 zero_config [''A''])\<lparr>tickers := [(''A'', new_ticker ''A'')]\<rparr>"

theorem replay_equals_live_witness:
  "GetTicker (fst (replay_symbols plain_engine (quiet_env two_rest 0) (0, 0, 10, 20) [''A'', ''B''] two_store)) ''A'' =
   GetTicker (fold (session_step plain_engine (0, 0, 10, 20))
     [Trade ''A'' 1 (Fin 8) (Fin 100) True, Trade ''B'' 1 (Fin 5) (Fin 1) True,
      Trade ''A'' 2 (Fin 9) (Fin 100) True] two_store) ''A''"
proof -
  have tape: "tape_events ''A'' True (fst (ListTrades (env_rest (quiet_env two_rest 0)) ''A'' 0 20)) =
      [Trade ''A'' 1 (Fin 8) (Fin 100) True, Trade ''A'' 2 (Fin 9) (Fin 100) True]"
    by (simp add: tape_events_def quiet_env_def two_rest_def two_trades_def tradeTimeMillis_def to_millis_def
        IsZero_def zero_time_def sec_ns_def)
  show ?thesis
    by (rule replay_equals_live [OF quiet_undisturbed]) (simp_all add: tape)
qed

theorem flat_after_close_witness:
  "flat (fold (session_step plain_engine (0, 0, 10, 20)) ([Trade ''A'' 1 (Fin 8) (Fin 100) True] @ TimeExit 15
     # [Trade ''A'' 1 (Fin 9) (Fin 100) True]) two_store)"
proof (rule flat_after_close)
  show "\<forall>k. GetTicker two_store k \<noteq> None
      \<longrightarrow> k \<in> set (watchlist two_store)"
    by (simp add: two_store_def GetTicker_def New_def)
  show "\<forall>ev \<in> set [Trade ''A'' 1 (Fin 9) (Fin 100) True]. late_event 10 ev" by (simp add: UnixMilli_def)
qed

end
