(* ===== verification/LiveRun.thy ===== *)
theory LiveRun
  imports HistoricRun_Properties
begin

text \<open>
  The live run of a trading day (\<open>New\<close> and \<open>Run\<close> of \<open>internal/engine/engine.go\<close>).

  The environment is the one of the historic runs: \<open>lv_start\<close> and \<open>lv_afterOpen\<close> are the readings of the
  clock before the open and before the wait for the selection, \<open>lv_done_open\<close> and \<open>lv_done_select\<close> say whether
  the context is done during those waits, \<open>lv_bars\<close> and \<open>lv_events\<close> are what the two receiving loops get.
  The reader of minute bars has stopped when the selection starts, as the code waits for it; the phase it
  does not read, so setting it before or after the last bars is the same.
\<close>

section \<open>The engine's constructor\<close>

text \<open>
  \<open>LoadLocation\<close> is \<open>time.LoadLocation\<close> with its error dropped: without a location the struct has a nil
  pointer, and the first use of it panics; \<open>None\<close> stands for that engine.
\<close>

definition NewEngine ::
  "(string \<Rightarrow> zone option) \<Rightarrow> transport \<Rightarrow> (gotime \<Rightarrow> string \<Rightarrow> bytes) \<Rightarrow> unicode \<Rightarrow> config \<Rightarrow> tts_client option
     \<Rightarrow> engine option" where
  "NewEngine LoadLocation http rand uni cfg tts =
     map_option (\<lambda>loc. \<lparr>e_cfg = cfg, e_tts = tts, e_loc = loc, e_http = http, e_rand = rand, e_unicode = uni\<rparr>)
       (LoadLocation (Timezone (cfg_Market cfg)))"

section \<open>The run\<close>

definition run_trades ::
  "engine \<Rightarrow> run_env \<Rightarrow> gotime \<times> gotime \<times> gotime \<times> gotime \<Rightarrow> string list \<Rightarrow> store \<Rightarrow> store \<times> string option" where
  "run_trades e env w syms s =
     (case open_trades (lv_ToLower env) (lv_ws_trades env) e syms of
        Some err \<Rightarrow> (s, Some err)
      | None \<Rightarrow>
          let s = info e (env_now env) ''Tracking tick data (trades) for filtered tickers...'' s
          in (case track_msgs e w (lv_events env) s of
                (s, TrackClosed) \<Rightarrow> (SetPhase PhaseClosed s, None)
              | (s, TrackFailed err) \<Rightarrow> (s, Some err)
              | (s, TrackStopped) \<Rightarrow> (s, None)
              | (s, TrackRunning) \<Rightarrow> (s, None)))"

definition run_selected ::
  "engine \<Rightarrow> run_env \<Rightarrow> gotime \<times> gotime \<times> gotime \<times> gotime \<Rightarrow> store \<Rightarrow> store \<times> string option" where
  "run_selected e env w s =
     (case w of (openNY, selNY, cutoffNY, exitNY) \<Rightarrow>
        let (s, candidates) = selectCandidatesAt0935 e (env_now env) (SetPhase PhaseSelecting0935 s)
        in if candidates = []
           then (SetPhase PhaseClosed (info e (env_now env) ''No tickers matched open_5m filters at 09:35.'' s), None)
           else let s = info e (env_now env)
                          (''09:35 selection: '' @ show_int (int (length candidates))
                           @ '' tickers matched opening filters (switching to trades)'') s;
                    (tracked, s) = run_tracked e env openNY selNY candidates s
                in run_trades e env w (sort (env_ord env (map fst tracked))) s)"

definition run_intro ::
  "engine \<Rightarrow> gotime \<Rightarrow> gotime \<times> gotime \<times> gotime \<times> gotime \<Rightarrow> store \<Rightarrow> store" where
  "run_intro e nowNY w s =
     (case w of (openNY, selNY, cutoffNY, exitNY) \<Rightarrow>
        let s = SetTimes openNY selNY cutoffNY exitNY s;
            s = info e nowNY (''Loaded watchlist: '' @ show_int (int (length (Watchlist s))) @ '' tickers'') s
        in if nowNY < openNY
           then info e nowNY (''Waiting for market open at '' @ fmt_hms (e_loc e) openNY)
                  (SetPhase PhaseWaitingOpen s)
           else s)"

definition Run :: "engine \<Rightarrow> run_env \<Rightarrow> store \<Rightarrow> (store \<times> string option) option" where
  "Run e env s =
     (let nowNY = lv_start env; w = session_times e nowNY
      in (case w of (openNY, selNY, cutoffNY, exitNY) \<Rightarrow>
           let s = run_intro e nowNY w s
           in if nowNY < openNY \<and> lv_done_open env then Some (s, None)
              else let s = SetPhase PhaseCollecting5m s
                   in (case open_aggs (lv_ToLower env) (lv_ws_aggs env) e (Watchlist s) of
                         None \<Rightarrow> None
                       | Some (Some err) \<Rightarrow> Some (s, Some err)
                       | Some None \<Rightarrow>
                           let s = info e (env_now env) ''Collecting 09:30-09:34 minute bars for open-5m metrics...'' s;
                               s = collect_bars e (env_now env) openNY selNY (lv_bars env) s
                           in if lv_afterOpen env < selNY \<and> lv_done_select env then Some (s, None)
                              else Some (run_selected e env w s))))"

section \<open>Lemmas\<close>

lemma collect_bars_untraded:
  assumes "untraded s" and "watchset s = set (watchlist s)"
  shows "untraded (collect_bars e now a b ms s)"
  using assms
proof (induction ms arbitrary: s)
  case Nil
  then show ?case by simp
next
  case (Cons m ms)
  show ?case
  proof (cases m)
    case (WsBar bar)
    let ?s = "onMinuteAgg e a b bar s"
    have wl: "watchlist ?s = watchlist s" by (rule watchlist_of_settings) (simp add: frame_simps)
    have cell: "HasPosition (onMinuteBar h bar t) = HasPosition t" "Exited (onMinuteBar h bar t) = Exited t" for h t
      by (simp_all add: onMinuteBar_def Let_def)
    have "untraded ?s"
      unfolding untraded_def wl
    proof (intro allI impI)
      fix k t assume t: "GetTicker ?s k = Some t"
      show "k \<in> set (watchlist s) \<and> \<not> HasPosition t \<and> \<not> Exited t"
      proof (cases "collects e a b s bar \<and> k = agg_Symbol bar")
        case False
        with t have "GetTicker s k = Some t" by (simp add: get_onMinuteAgg split: if_splits)
        with Cons.prems(1) show ?thesis by (simp add: untraded_def)
      next
        case True
        then have "k \<in> set (watchlist s)" using Cons.prems(2) by (auto simp: collects_def Let_def)
        with True t Cons.prems(1) show ?thesis
          by (auto simp: get_onMinuteAgg cell untraded_def new_ticker_def split: option.splits)
      qed
    qed
    with Cons WsBar wl show ?thesis by (simp add: frame_simps)
  next
    case (WsError err)
    have "untraded (emit e now ''SYSTEM'' [] x [] ''warn'' s)" for x
      using Cons.prems(1) inv_cong(2) [of "emit e now ''SYSTEM'' [] x [] ''warn'' s" s] by (simp add: frame_simps)
    with Cons WsError show ?thesis by (cases err) simp_all
  qed (use Cons in simp_all)
qed

lemma track_msgs_frame:
  "settings (fst (track_msgs e w evs s)) = settings s" "phase (fst (track_msgs e w evs s)) = phase s"
  by (cases w; simp add: track_msgs_session frame_simps)+

lemma run_trades_outcome:
  assumes "run_trades e env w syms s = (s', err)" and "phase s = PhaseTrackingTicks"
  shows "settings s' = settings s"
    and "phase s' = PhaseTrackingTicks \<or> phase s' = PhaseClosed \<and> err = None"
proof -
  define s1 where "s1 = info e (env_now env) ''Tracking tick data (trades) for filtered tickers...'' s"
  obtain s2 r where tr: "track_msgs e w (lv_events env) s1 = (s2, r)" by fastforce
  have s2: "settings s2 = settings s" "phase s2 = PhaseTrackingTicks"
    using track_msgs_frame [of e w "lv_events env" s1] tr assms(2) by (simp_all add: s1_def frame_simps)
  show "settings s' = settings s"
    using assms(1) tr s2(1) unfolding run_trades_def Let_def s1_def [symmetric]
    by (auto simp: frame_simps split: option.splits track_end.splits)
  show "phase s' = PhaseTrackingTicks \<or> phase s' = PhaseClosed \<and> err = None"
    using assms tr s2(2) unfolding run_trades_def Let_def s1_def [symmetric]
    by (auto simp: frame_simps split: option.splits track_end.splits)
qed

lemma run_selected_outcome:
  assumes "untraded s" and "undisturbed env" and "distinct (watchlist s)"
    and "run_selected e env (a, b, c, x) s = (s', err)"
  shows "settings s' = settings s"
    and "phase s' = PhaseTrackingTicks \<or> phase s' = PhaseClosed \<and> err = None"
proof -
  obtain s1 cs where sel: "selectCandidatesAt0935 e (env_now env) (SetPhase PhaseSelecting0935 s) = (s1, cs)"
    by fastforce
  have "untraded (SetPhase PhaseSelecting0935 s)"
    using assms(1) inv_cong(2) [of "SetPhase PhaseSelecting0935 s" s] by (simp add: frame_simps)
  note u = select_untraded [OF this sel]
  have s1: "settings s1 = settings s" "distinct cs" using u(2,4) assms(3) by (simp_all add: frame_simps)
  have "settings s' = settings s
    \<and> (phase s' = PhaseTrackingTicks \<or> phase s' = PhaseClosed \<and> err = None)"
  proof (cases "cs = []")
    case True
    let ?s = "SetPhase PhaseClosed (info e (env_now env) ''No tickers matched open_5m filters at 09:35.'' s1)"
    have "s' = ?s" "err = None" using assms(4) sel True by (auto simp: run_selected_def)
    then show ?thesis using s1 by (simp add: frame_simps)
  next
    case False
    define s2 where "s2 = info e (env_now env) (''09:35 selection: '' @ show_int (int (length cs))
        @ '' tickers matched opening filters (switching to trades)'') s1"
    have s2: "GetTicker s2 k = GetTicker s1 k" "settings s2 = settings s1" for k by (simp_all add: s2_def frame_simps)
    have "watchlist s2 = watchlist s" using s2(2) s1(1) by (intro watchlist_of_settings) simp
    with u(1,3) s2 have u2: "untraded s2" "set cs \<subseteq> set (watchlist s2)"
      using inv_cong(2) [of s2 s1] by (simp_all add: frame_simps)
    obtain tracked s3 where tr: "run_tracked e env a b cs s2 = (tracked, s3)" by fastforce
    note t = run_tracked_untraded [OF u2(1) assms(2) s1(2) u2(2) tr]
    have r: "run_trades e env (a, b, c, x) (sort (env_ord env (map fst tracked))) s3 = (s', err)"
      using assms(4) unfolding run_selected_def Let_def prod.case sel if_not_P [OF False] s2_def [symmetric] tr .
    show ?thesis
      using run_trades_outcome [OF r t(3)] t(2) s2(2) s1(1) by simp
  qed
  then show "settings s' = settings s"
    and "phase s' = PhaseTrackingTicks \<or> phase s' = PhaseClosed \<and> err = None"
 by blast+
qed

lemma run_intro_frame:
  "GetTicker (run_intro e now w s) k = GetTicker s k" "settings (run_intro e now w s) = settings s"
  by (cases w; simp add: run_intro_def Let_def frame_simps)+

lemma Run_outcome:
  assumes "untraded s" and "watchset s = set (watchlist s)" and "undisturbed env" and "distinct (watchlist s)"
    and w: "session_times e (lv_start env) = (a, b, c, x)" and "phase s \<noteq> PhaseClosed"
    and run: "Run e env s = Some (s', err)"
  shows "settings s' = settings s \<and> (phase s' = PhaseClosed \<longrightarrow> err = None)"
proof -
  define s1 where "s1 = run_intro e (lv_start env) (a, b, c, x) s"
  define s2 where "s2 = SetPhase PhaseCollecting5m s1"
  define s3 where "s3 = info e (env_now env) ''Collecting 09:30-09:34 minute bars for open-5m metrics...'' s2"
  define s4 where "s4 = collect_bars e (env_now env) a b (lv_bars env) s3"
  have st: "settings s1 = settings s" "settings s2 = settings s" "settings s3 = settings s" "settings s4 = settings s"
    by (simp_all add: s1_def s2_def s3_def s4_def run_intro_frame collect_bars_settings frame_simps)
  have ph: "phase s1 \<noteq> PhaseClosed" "phase s2 = PhaseCollecting5m" "phase s4 = PhaseCollecting5m"
    using assms(6) by (simp_all add: s1_def s2_def s3_def s4_def run_intro_def Let_def collect_bars_frame frame_simps
        SetTimes_def)
  have wl: "watchlist s3 = watchlist s" "watchset s3 = watchset s" "watchlist s4 = watchlist s"
    using st by (simp_all add: settings_def)
  have "GetTicker s3 k = GetTicker s k" for k by (simp add: s3_def s2_def s1_def run_intro_frame frame_simps)
  then have "untraded s3" using assms(1) inv_cong(2) [of s3 s] st(3) by simp
  then have u4: "untraded s4" using collect_bars_untraded assms(2) wl by (simp add: s4_def)
  consider "s' = s1" | "s' = s2" | "s' = s4" | "run_selected e env (a, b, c, x) s4 = (s', err)"
    using run unfolding Run_def Let_def w prod.case s1_def [symmetric] s2_def [symmetric] s3_def [symmetric]
      s4_def [symmetric]
    by (auto split: if_splits option.splits)
  then show ?thesis
  proof cases
    case 4
    from run_selected_outcome [OF u4 assms(3) _ 4] assms(4) wl(3) st(4) show ?thesis by auto
  qed (use ph st in simp_all)
qed

section \<open>Properties\<close>

text \<open>The live run returns: with a loaded configuration, whatever the clock, the feed and the context do, the
  run of a fresh store ends with a store and perhaps an error, no setting has changed, and the phase is
  closed only on a return without error.\<close>

theorem live_run_returns:
  assumes "Load ReadFile Unmarshal path = (e_cfg e, None)" and "undisturbed env" and "distinct wl"
  shows "\<exists>s' err. Run e env (SetMode ModeRealtime (New now cfg wl)) = Some (s', err)
    \<and> settings s' = settings (SetMode ModeRealtime (New now cfg wl)) \<and> (phase s' = PhaseClosed \<longrightarrow> err = None)"
proof -
  let ?s = "SetMode ModeRealtime (New now cfg wl)"
  obtain a b c x where w: "session_times e (lv_start env) = (a, b, c, x)" by (cases "session_times e (lv_start env)")
  have fresh: "untraded ?s" "watchset ?s = set (watchlist ?s)" "phase ?s \<noteq> PhaseClosed" "watchlist ?s = wl"
    by (simp_all add: untraded_def New_def SetMode_def GetTicker_def)
  have "\<exists>r. Run e env ?s = Some r"
    using open_aggs_ends [OF Load_batch [OF assms(1)], of "lv_ToLower env" "lv_ws_aggs env"]
    by (auto simp: Run_def Let_def w split: option.splits) (metis option.distinct(1))+
  then obtain s' err where r: "Run e env ?s = Some (s', err)" by auto
  from Run_outcome [OF fresh(1,2) assms(2) _ w fresh(3) r] fresh(4) assms(3) r show ?thesis by auto
qed

section \<open>Instances\<close>

definition live_engine :: engine where
  "live_engine = plain_engine\<lparr>e_cfg := loaded_config\<rparr>"

theorem live_run_returns_witness:
  "\<exists>s' err. Run live_engine (quiet_env empty_rest 0) (SetMode ModeRealtime (New 0 loaded_config [''A'', ''B''])) = Some (s', err)
    \<and> (phase s' = PhaseClosed \<longrightarrow> err = None)"
proof -
  have "Load (\<lambda>_. Inr []) (\<lambda>_ c. (sample_yaml c, None)) ''config.yaml'' = (e_cfg live_engine, None)"
    using loaded_ok(2) by (simp add: live_engine_def)
  from live_run_returns [OF this quiet_undisturbed, of "[''A'', ''B'']" empty_rest 0 0 loaded_config] show ?thesis by auto
qed

end
