(* ===== verification/Dates.thy ===== *)
theory Dates
  imports GoTime
begin

text \<open>
  \<open>time.ParseInLocation("2006-01-02", s, loc)\<close>, which the handlers of \<open>internal/server\<close> read the date of a
  request with: four digits of the year, a dash, two digits of the month, a dash, two digits of the
  day, nothing after them, and a day the month has.

  The lemmas show that parsing and \<open>Format("2006-01-02")\<close> are inverse to each other, for which the
  calendar of \<open>GoTime\<close> is inverted in its other direction.
\<close>

section \<open>Parsing\<close>

definition digits_val :: "string \<Rightarrow> int" where
  "digits_val ds = foldl (\<lambda>acc c. 10 * acc + digit_val c) 0 ds"

definition get_year :: "string \<Rightarrow> (int \<times> string) option" where
  "get_year s =
     (if length s < 4 \<or> \<not> list_all is_digit (take 4 s) then None
      else Some (digits_val (take 4 s), drop 4 s))"

fun getnum :: "string \<Rightarrow> (int \<times> string) option" where
  "getnum (a # b # s) = (if is_digit a \<and> is_digit b then Some (digits_val [a, b], s) else None)"
| "getnum _ = None"

fun skip_dash :: "string \<Rightarrow> string option" where
  "skip_dash [] = None"
| "skip_dash (c # s) = (if c = CHR ''-'' then Some s else None)"

definition daysIn :: "int \<Rightarrow> int \<Rightarrow> int" where
  "daysIn m y = (if m = 2 \<and> is_leap y then 29 else days_before ! nat m - days_before ! nat (m - 1))"

definition parse_ymd :: "string \<Rightarrow> (int \<times> int \<times> int) option" where
  "parse_ymd s =
     Option.bind (get_year s) (\<lambda>(y, s).
     Option.bind (Option.bind (skip_dash s) getnum) (\<lambda>(m, s).
       if m \<le> 0 \<or> 12 < m then None
       else Option.bind (Option.bind (skip_dash s) getnum) (\<lambda>(d, s).
         if s \<noteq> [] then None
         else if d < 1 \<or> daysIn m y < d then None else Some (y, m, d))))"

definition ParseInLocation :: "zone \<Rightarrow> string \<Rightarrow> gotime option" where
  "ParseInLocation z s = map_option (\<lambda>(y, m, d). go_date z y m d 0 0 0) (parse_ymd s)"

section \<open>The calendar, from the date to the day number\<close>

definition valid_date :: "int \<Rightarrow> int \<Rightarrow> int \<Rightarrow> bool" where
  "valid_date y m d \<longleftrightarrow> 1 \<le> m \<and> m \<le> 12 \<and> 1 \<le> d \<and> d \<le> daysIn m y"

lemma year_days_linear: "year_days y = 365 * (y - 1) + (y - 1) div 4 - (y - 1) div 100 + (y - 1) div 400"
proof -
  define x a b c e where "x = y - 1" and "a = x div 400" and "b = (x - 400 * a) div 100"
    and "c = (x - 400 * a - 100 * b) div 4" and "e = x - 400 * a - 100 * b - 4 * c"
  note defs = this
  have x: "x = 400 * a + 100 * b + 4 * c + e" by (simp add: e_def)
  have "0 \<le> x - 400 * a" "x - 400 * a < 400" unfolding a_def by linarith+
  moreover from this have "0 \<le> x - 400 * a - 100 * b" "x - 400 * a - 100 * b < 100" "0 \<le> b" "b \<le> 3"
    unfolding b_def by linarith+
  moreover from this have "0 \<le> e" "e < 4" "0 \<le> c" "c \<le> 24" unfolding e_def c_def by linarith+
  ultimately have b: "0 \<le> b" "b \<le> 3" "0 \<le> c" "c \<le> 24" "0 \<le> e" "e \<le> 3" by linarith+
  have "y = 400 * a + 100 * b + 4 * c + e + 1" using x by (simp add: x_def)
  then have "year_days y = 146097 * a + 36524 * b + 1461 * c + 365 * e"
    using year_days_parts(1) [OF b, of a] by simp
  moreover have "x div 4 = 100 * a + 25 * b + c" "x div 100 = 4 * a + b" "x div 400 = a"
    unfolding x using b by linarith+
  ultimately show ?thesis using x by (simp add: x_def [symmetric])
qed

lemma div_pred:
  fixes y k :: int
  assumes "0 < k"
  shows "y div k = (y - 1) div k + (if y mod k = 0 then 1 else 0)"
proof -
  define q r where "q = (y - 1) div k" and "r = (y - 1) mod k"
  have y: "y = k * q + (r + 1)" using div_mult_mod_eq [of "y - 1" k] by (simp add: q_def r_def mult.commute)
  have r: "0 \<le> r" "r < k" using assms by (simp_all add: r_def)
  show ?thesis
  proof (cases "r + 1 = k")
    case True
    then have "y = k * (q + 1)" using y by (simp add: algebra_simps)
    then have "y div k = q + 1" "y mod k = 0" using assms by simp_all
    then show ?thesis by (simp add: q_def)
  next
    case False
    then have "y div k = q" "y mod k = r + 1"
      using y r by (auto intro: int_div_pos_eq int_mod_pos_eq)
    with r show ?thesis by (simp add: q_def)
  qed
qed

lemma leap_count:
  fixes y :: int
  assumes "d4 = e4 + (if a then 1 else 0)" "d100 = e100 + (if b then 1 else 0)" "d400 = e400 + (if c then 1 else 0)"
    and "c \<Longrightarrow> b" and "b \<Longrightarrow> a"
  shows "365 * y + d4 - d100 + d400
       = 365 * (y - 1) + e4 - e100 + e400 + 365 + (if a \<and> (\<not> b \<or> c) then 1 else 0)"
  using assms by (cases a; cases b; cases c) simp_all

lemma year_days_Suc: "year_days (y + 1) = year_days y + 365 + (if is_leap y then 1 else 0)"
proof -
  have "y mod 400 = 0 \<Longrightarrow> y mod 100 = 0" "y mod 100 = 0 \<Longrightarrow> y mod 4 = 0"
    using dvd_trans [of 100 400 y] dvd_trans [of 4 100 y] by (simp_all add: mod_eq_0_iff_dvd)
  from leap_count [OF div_pred [OF zero_less_numeral] div_pred [OF zero_less_numeral]
      div_pred [OF zero_less_numeral] this, of y] show ?thesis
    unfolding year_days_linear is_leap_def add_diff_cancel_right' .
qed

lemma year_days_mono: "y \<le> y' \<Longrightarrow> year_days y \<le> year_days y'"
proof (induction "nat (y' - y)" arbitrary: y)
  case (Suc n)
  then have "n = nat (y' - (y + 1))" "y + 1 \<le> y'" by simp_all
  from Suc.hyps(1) [OF this] year_days_Suc [of y] show ?case by (simp split: if_splits)
qed simp

lemma split_year_of_day:
  assumes "0 \<le> r" and "r < 365 + (if is_leap y then 1 else 0)"
  shows "split_year (year_days y + r) = (y, r)"
proof -
  obtain y' r' where s: "split_year (year_days y + r) = (y', r')" by fastforce
  note b = split_year_bounds [OF s]
  have "y = y'"
  proof (rule ccontr)
    assume "y \<noteq> y'"
    then consider "y + 1 \<le> y'" | "y' + 1 \<le> y" by linarith
    then show False
      using b assms year_days_mono [of "y + 1" y'] year_days_mono [of "y' + 1" y]
        year_days_Suc [of y] year_days_Suc [of y']
      by cases linarith+
  qed
  with b s show ?thesis by simp
qed

lemma month_bounds:
  assumes "1 \<le> m" and "m \<le> 12"
  shows "31 * (m - 2) \<le> days_before ! nat (m - 1)" "days_before ! nat m \<le> 31 * m"
    "0 \<le> days_before ! nat (m - 1)" "days_before ! nat m \<le> 365"
    "3 \<le> m \<Longrightarrow> 59 \<le> days_before ! nat (m - 1)" "m = 2 \<Longrightarrow> days_before ! nat m = 59" "m = 1 \<Longrightarrow> days_before ! nat m = 31"
proof -
  from assms have "m - 1 = 0 \<or> m - 1 = 1 \<or> m - 1 = 2 \<or> m - 1 = 3 \<or> m - 1 = 4 \<or> m - 1 = 5 \<or> m - 1 = 6 \<or> m - 1 = 7
     \<or> m - 1 = 8 \<or> m - 1 = 9 \<or> m - 1 = 10 \<or> m - 1 = 11" by (intro upto_cases) simp_all
  then have "m \<in> {1, 2, 3, 4, 5, 6, 7, 8, 9, 10, 11, 12}" by auto
  then show "31 * (m - 2) \<le> days_before ! nat (m - 1)" "days_before ! nat m \<le> 31 * m"
    "0 \<le> days_before ! nat (m - 1)" "days_before ! nat m \<le> 365"
    "3 \<le> m \<Longrightarrow> 59 \<le> days_before ! nat (m - 1)" "m = 2 \<Longrightarrow> days_before ! nat m = 59" "m = 1 \<Longrightarrow> days_before ! nat m = 31"
    by (auto simp: days_before_def)
qed

lemma split_month_plain:
  assumes m: "1 \<le> m" "m \<le> 12" and day: "days_before ! nat (m - 1) \<le> day" "day < days_before ! nat m"
  shows "(let month = day div 31; en = days_before ! nat (month + 1)
          in if en \<le> day then (month + 2, day - en + 1) else (month + 1, day - days_before ! nat month + 1))
       = (m, day - days_before ! nat (m - 1) + 1)"
proof (cases "day < 31 * (m - 1)")
  case True
  then have "day - 31 * (m - 2) < 31" "0 \<le> day - 31 * (m - 2)" using day(1) month_bounds(1) [OF m] by simp_all
  then have "day div 31 = m - 2" by (intro int_div_pos_eq [where r = "day - 31 * (m - 2)"]) simp_all
  with day show ?thesis by (simp add: Let_def add.commute)
next
  case False
  then have "day - 31 * (m - 1) < 31" "0 \<le> day - 31 * (m - 1)" using day(2) month_bounds(2) [OF m] by simp_all
  then have "day div 31 = m - 1" by (intro int_div_pos_eq [where r = "day - 31 * (m - 1)"]) simp_all
  with day show ?thesis by (simp add: Let_def)
qed

definition day_of_year :: "int \<Rightarrow> int \<Rightarrow> int \<Rightarrow> int" where
  "day_of_year y m d = days_before ! nat (m - 1) + (if is_leap y \<and> 3 \<le> m then 1 else 0) + (d - 1)"

lemma split_month_of_day:
  assumes v: "valid_date y m d"
  shows "split_month (is_leap y) (day_of_year y m d) = (m, d)"
    and "0 \<le> day_of_year y m d" and "day_of_year y m d < 365 + (if is_leap y then 1 else 0)"
proof -
  from v have m: "1 \<le> m" "m \<le> 12" and d: "1 \<le> d" by (simp_all add: valid_date_def)
  note b = month_bounds [OF m]
  show "0 \<le> day_of_year y m d" using b(3) d by (simp add: day_of_year_def)
  have "split_month (is_leap y) (day_of_year y m d) = (m, d)
      \<and> day_of_year y m d < 365 + (if is_leap y then 1 else 0)"
  proof (cases "m = 2 \<and> is_leap y \<and> d = 29")
    case True
    then show ?thesis by (simp add: split_month_def day_of_year_def days_before_def)
  next
    case False
    define day where "day = days_before ! nat (m - 1) + (d - 1)"
    have len: "d \<le> days_before ! nat m - days_before ! nat (m - 1)"
      using v False b(6) by (auto simp: valid_date_def daysIn_def days_before_def split: if_splits)
    have day: "days_before ! nat (m - 1) \<le> day" "day < days_before ! nat m" using d len by (simp_all add: day_def)
    have leap: "is_leap y \<and> day_of_year y m d = 59 \<longleftrightarrow> False"
      "(if is_leap y \<and> 59 < day_of_year y m d then day_of_year y m d - 1 else day_of_year y m d) = day"
    proof -
      consider "3 \<le> m" | "m = 2" | "m = 1" using m by linarith
      then show "is_leap y \<and> day_of_year y m d = 59 \<longleftrightarrow> False"
        "(if is_leap y \<and> 59 < day_of_year y m d then day_of_year y m d - 1 else day_of_year y m d) = day"
        using b(5-7) day by (cases; simp add: day_of_year_def day_def)+
    qed
    have "split_month (is_leap y) (day_of_year y m d) = (m, day - days_before ! nat (m - 1) + 1)"
      using split_month_plain [OF m day] leap unfolding split_month_def Let_def by (simp only: if_False)
    with day(2) b(4) show ?thesis by (simp add: day_of_year_def day_def)
  qed
  then show "split_month (is_leap y) (day_of_year y m d) = (m, d)"
    "day_of_year y m d < 365 + (if is_leap y then 1 else 0)" by blast+
qed

lemma civil_of_days_of_civil:
  assumes "valid_date y m d"
  shows "civil_of_days (days_of_civil y m d) = (y, m, d)"
proof -
  note s = split_month_of_day [OF assms]
  have "days_of_civil y m d + 719162 = year_days y + day_of_year y m d"
    by (simp add: days_of_civil_def day_of_year_def)
  then show ?thesis using split_year_of_day [OF s(2,3)] s(1) by (simp add: civil_of_days_def)
qed

section \<open>Parsing and formatting\<close>

lemma digit_val_nat: "digit_val c = int (of_char c) - 48"
  by (simp add: digit_val_def of_nat_of_char)

lemma digit_of_int:
  assumes "0 \<le> k" and "k < 10"
  shows "is_digit (digit k)" and "digit_val (digit k) = k"
  using assms by (simp_all add: is_digit_def digit_val_nat digit_def)

lemma int_of_digit:
  assumes "is_digit c"
  shows "digit (digit_val c) = c" and "0 \<le> digit_val c" and "digit_val c < 10"
proof -
  have c: "48 \<le> (of_char c :: nat)" "(of_char c :: nat) \<le> 57" using assms by (simp_all add: is_digit_def)
  note v = digit_val_nat [of c]
  show "0 \<le> digit_val c" "digit_val c < 10" using c unfolding v by linarith+
  have "48 + nat (digit_val c) = of_char c" using c unfolding v by linarith
  then show "digit (digit_val c) = c" by (simp add: digit_def)
qed

lemma digits_val_simps: "digits_val [a, b] = digit_val a * 10 + digit_val b"
  "digits_val [a, b, c, d] = ((digit_val a * 10 + digit_val b) * 10 + digit_val c) * 10 + digit_val d"
  by (simp_all add: digits_val_def)

definition year4 :: "int \<Rightarrow> string" where
  "year4 y = [digit (y div 1000), digit (y div 100 mod 10), digit (y div 10 mod 10), digit (y mod 10)]"

lemma digit_0: "digit 0 = CHR ''0''"
  by code_simp

lemma show_nat_digits:
  "n < 10 \<Longrightarrow> show_nat n = [digit (int n)]"
  "10 \<le> n \<Longrightarrow> show_nat n = show_nat (n div 10) @ [digit (int (n mod 10))]"
  by (subst show_nat.simps; simp)+

lemma pad_year_4:
  assumes "0 \<le> y" and "y \<le> 9999"
  shows "pad_year y = year4 y"
proof -
  define n where "n = nat y"
  have y: "y = int n" "n \<le> 9999" using assms by (simp_all add: n_def)
  have q: "n div 10 div 10 = n div 100" "n div 100 div 10 = n div 1000"
    using div_mult2_eq [of n 10 10] div_mult2_eq [of n 100 10] by simp_all
  have pads: "replicate 3 (CHR ''0'') = [CHR ''0'', CHR ''0'', CHR ''0'']" "replicate 2 (CHR ''0'') = [CHR ''0'', CHR ''0'']"
    by (simp_all add: numeral_eq_Suc)
  have i: "y div 1000 = int (n div 1000)" "y div 100 mod 10 = int (n div 100 mod 10)"
    "y div 10 mod 10 = int (n div 10 mod 10)" "y mod 10 = int (n mod 10)"
    unfolding y by (simp_all add: zdiv_int zmod_int)
  consider "n < 10" | "10 \<le> n" "n < 100" | "100 \<le> n" "n < 1000" | "1000 \<le> n" by linarith
  then have "replicate (4 - length (show_nat n)) (CHR ''0'') @ show_nat n = year4 y"
  proof cases
    case 1
    then show ?thesis unfolding year4_def i by (simp add: show_nat_digits(1) pads digit_0)
  next
    case 2
    then have "n div 10 < 10" "n div 100 = 0" by simp_all
    with 2 show ?thesis unfolding year4_def i by (simp add: show_nat_digits pads digit_0 q [symmetric])
  next
    case 3
    then have "n div 100 < 10" "10 \<le> n div 10" "n div 100 \<noteq> 0" by linarith+
    with 3 show ?thesis unfolding year4_def i by (simp add: show_nat_digits q digit_0)
  next
    case 4
    then have "10 \<le> n div 10" "10 \<le> n div 100" "n div 1000 < 10" using y(2) by linarith+
    with 4 show ?thesis unfolding year4_def i by (simp add: show_nat_digits q)
  qed
  then show ?thesis using assms by (simp add: pad_year_def Let_def n_def)
qed

lemma year4_val:
  assumes "0 \<le> y" and "y \<le> 9999"
  shows "list_all is_digit (year4 y)" and "digits_val (year4 y) = y"
proof -
  have d: "0 \<le> y div 1000" "y div 1000 < 10" using assms by linarith+
  have r: "0 \<le> y div 100 mod 10" "y div 100 mod 10 < 10" "0 \<le> y div 10 mod 10" "y div 10 mod 10 < 10"
    "0 \<le> y mod 10" "y mod 10 < 10" by simp_all
  show "list_all is_digit (year4 y)" using d r by (simp add: year4_def digit_of_int)
  have "y div 10 div 10 = y div 100" "y div 100 div 10 = y div 1000"
    using zdiv_zmult2_eq [of 10 y 10] zdiv_zmult2_eq [of 10 y 100] by simp_all
  then have "((y div 1000 * 10 + y div 100 mod 10) * 10 + y div 10 mod 10) * 10 + y mod 10 = y"
    by (metis div_mult_mod_eq)
  then show "digits_val (year4 y) = y"
    unfolding year4_def digits_val_simps digit_of_int(2) [OF d] digit_of_int(2) [OF r(1,2)]
      digit_of_int(2) [OF r(3,4)] digit_of_int(2) [OF r(5,6)] .
qed

lemma pad2_val:
  assumes "0 \<le> k" and "k < 100"
  shows "getnum (pad2 k @ s) = Some (k, s)"
proof -
  have "k div 10 mod 10 = k div 10" using assms by (intro mod_pos_pos_trivial) linarith+
  moreover have "0 \<le> k div 10" "k div 10 < 10" "0 \<le> k mod 10" "k mod 10 < 10" using assms by linarith+
  ultimately show ?thesis
    using div_mult_mod_eq [of k 10] by (simp add: pad2_def digits_val_simps digit_of_int)
qed

lemma parse_ymd_format:
  assumes v: "valid_date y m d" and y: "0 \<le> y" "y \<le> 9999"
  shows "parse_ymd (pad_year y @ ''-'' @ pad2 m @ ''-'' @ pad2 d) = Some (y, m, d)"
proof -
  have len: "length (year4 y) = 4" by (simp add: year4_def)
  have md: "0 \<le> m" "m < 100" "0 \<le> d" "d < 100" "d \<noteq> 0"
    using v month_bounds [of m] by (auto simp: valid_date_def daysIn_def split: if_splits)
  have "get_year (year4 y @ r) = Some (y, r)" for r
    using len year4_val [OF y] by (simp add: get_year_def)
  then show ?thesis
    using v pad2_val [OF md(1,2)] pad2_val [OF md(3,4), of "[]"] md(5)
    unfolding pad_year_4 [OF y] by (auto simp: parse_ymd_def valid_date_def)
qed

lemma ten_split:
  fixes k :: int
  assumes "k = p * 10 + q" and "0 \<le> q" and "q < 10"
  shows "k div 10 = p" and "k mod 10 = q"
  using assms by simp_all

lemma getnum_Some:
  assumes "getnum s = Some (k, r)"
  shows "s = pad2 k @ r" and "0 \<le> k" and "k < 100"
proof -
  obtain a b where s: "s = a # b # r" and d: "is_digit a" "is_digit b" and k: "k = digit_val a * 10 + digit_val b"
    using assms by (cases s rule: getnum.cases) (auto simp: digits_val_simps split: if_splits)
  note a = int_of_digit [OF d(1)] and b = int_of_digit [OF d(2)]
  note q = ten_split [OF k b(2,3)]
  have "digit_val a mod 10 = digit_val a" using a by simp
  then show "s = pad2 k @ r" using a b unfolding s pad2_def q by simp
  show "0 \<le> k" "k < 100" using a b unfolding k by linarith+
qed

lemma get_year_Some:
  assumes "get_year s = Some (y, r)"
  shows "s = pad_year y @ r" and "0 \<le> y" and "y \<le> 9999"
proof -
  have l: "4 \<le> length s" and dg: "list_all is_digit (take 4 s)" and y: "y = digits_val (take 4 s)" and r: "r = drop 4 s"
    using assms by (auto simp: get_year_def split: if_splits)
  have "length (take 4 s) = 4" using l by simp
  then obtain a b c d where t: "take 4 s = [a, b, c, d]"
    by (auto simp: length_Suc_conv eval_nat_numeral simp del: length_take)
  with dg have "is_digit a" "is_digit b" "is_digit c" "is_digit d" by simp_all
  note a = int_of_digit [OF this(1)] and b = int_of_digit [OF this(2)]
    and c = int_of_digit [OF this(3)] and d = int_of_digit [OF this(4)]
  have y: "y = ((digit_val a * 10 + digit_val b) * 10 + digit_val c) * 10 + digit_val d"
    using y t by (simp add: digits_val_simps)
  have y0: "0 \<le> y" "y \<le> 9999" using a b c d unfolding y by simp_all
  then show "0 \<le> y" "y \<le> 9999" .
  note 1 = ten_split [OF y d(2,3)]
  have 2: "y div 100 = digit_val a * 10 + digit_val b" "y div 10 mod 10 = digit_val c"
    using zdiv_zmult2_eq [of 10 y 10] ten_split [OF 1(1) c(2,3)] by simp_all
  have 3: "y div 1000 = digit_val a" "y div 100 mod 10 = digit_val b"
    using zdiv_zmult2_eq [of 10 y 100] ten_split [OF 2(1) b(2,3)] by simp_all
  have "year4 y = [a, b, c, d]" unfolding year4_def 1(2) 2(2) 3 a(1) b(1) c(1) d(1) ..
  with t r pad_year_4 [OF y0] show "s = pad_year y @ r" by (metis append_take_drop_id)
qed

lemma parse_ymd_Some:
  assumes "parse_ymd s = Some (y, m, d)"
  shows "s = pad_year y @ ''-'' @ pad2 m @ ''-'' @ pad2 d" and "valid_date y m d" and "0 \<le> y" "y \<le> 9999"
proof -
  obtain r1 r2 r3 r4 where y: "get_year s = Some (y, r1)" and m: "skip_dash r1 = Some r2" "getnum r2 = Some (m, r3)"
    and d: "skip_dash r3 = Some r4" "getnum r4 = Some (d, [])" and v: "valid_date y m d"
    using assms by (auto simp: parse_ymd_def valid_date_def bind_eq_Some_conv split: if_splits)
  have dash: "a = CHR ''-'' # b" if "skip_dash a = Some b" for a b
    using that by (cases a) (auto split: if_splits)
  show "s = pad_year y @ ''-'' @ pad2 m @ ''-'' @ pad2 d"
    using get_year_Some(1) [OF y] dash [OF m(1)] getnum_Some(1) [OF m(2)] dash [OF d(1)] getnum_Some(1) [OF d(2)]
    by simp
  show "valid_date y m d" by (rule v)
  show "0 \<le> y" "y \<le> 9999" by (rule get_year_Some [OF y])+
qed

lemma split_month_days:
  assumes "0 \<le> r" and "r < 365 + (if is_leap y then 1 else 0)" and "split_month (is_leap y) r = (m, d)"
  shows "d \<le> daysIn m y"
proof -
  define day where "day = (if is_leap y \<and> 59 < r then r - 1 else r)"
  have day: "0 \<le> day" "day < 365" using assms(1,2) by (auto simp: day_def split: if_splits)
  then have "0 \<le> day div 31" "day div 31 \<le> 11" by auto
  then consider "day div 31 = 0" | "day div 31 = 1" | "day div 31 = 2" | "day div 31 = 3" | "day div 31 = 4"
    | "day div 31 = 5" | "day div 31 = 6" | "day div 31 = 7" | "day div 31 = 8" | "day div 31 = 9"
    | "day div 31 = 10" | "day div 31 = 11" using upto_cases [of "day div 31"] by blast
  then show ?thesis
    using assms(3) day unfolding split_month_def day_def [symmetric] Let_def
    by cases (auto simp: days_before_def daysIn_def day_def split: if_splits)
qed

lemma civil_valid:
  assumes "civil z t = (y, m, d)"
  shows "valid_date y m d"
proof -
  have c: "civil_of_days (local_day z t) = (y, m, d)" using assms by (simp add: civil_def)
  obtain r where sy: "split_year (local_day z t + 719162) = (y, r)" and sm: "split_month (is_leap y) r = (m, d)"
    using c by (auto simp: civil_of_days_def split: prod.splits)
  from split_year_bounds [OF sy] split_month_days [OF _ _ sm] days_of_civil_of_days [OF c] show ?thesis
    by (simp add: valid_date_def)
qed

text \<open>
  The instant of a parsed date is the local midnight of that date, and the date it is printed with is
  the one that was parsed, wherever the zone has that midnight.
\<close>

lemma go_date_midnight:
  assumes "valid_date y m d" and "full_days z"
  shows "civil z (go_date z y m d 0 0 0) = (y, m, d)" and "clock_secs z (go_date z y m d 0 0 0) = 0"
    and "local_day z (go_date z y m d 0 0 0) = days_of_civil y m d"
proof -
  have l: "local_secs z (go_date z y m d 0 0 0) = days_of_civil y m d * 86400"
    using local_secs_go_date [of z y m d 0 0 0] assms(2) by (simp add: full_days_def)
  then show "clock_secs z (go_date z y m d 0 0 0) = 0" by (simp add: clock_secs_def)
  from l show "local_day z (go_date z y m d 0 0 0) = days_of_civil y m d" by (simp add: local_day_def)
  then show "civil z (go_date z y m d 0 0 0) = (y, m, d)"
    by (simp add: civil_def civil_of_days_of_civil [OF assms(1)])
qed

lemma parse_then_format:
  assumes "ParseInLocation z s = Some t" and "full_days z"
  shows "fmt_ymd z t = s" and "clock_secs z t = 0" and "dateOnlyInLoc z t = t"
proof -
  obtain y m d where p: "parse_ymd s = Some (y, m, d)" and t: "t = go_date z y m d 0 0 0"
    using assms(1) by (auto simp: ParseInLocation_def)
  note f = parse_ymd_Some [OF p]
  note g = go_date_midnight [OF f(2) assms(2)]
  show "fmt_ymd z t = s" using g f(1) by (simp add: fmt_ymd_def t)
  show "clock_secs z t = 0" "dateOnlyInLoc z t = t" using g by (simp_all add: t dateOnlyInLoc_def)
qed

lemma format_then_parse:
  assumes "civil z t = (y, m, d)" and "0 \<le> y" and "y \<le> 9999"
  shows "ParseInLocation z (fmt_ymd z t) = Some (dateOnlyInLoc z t)"
  using parse_ymd_format [OF civil_valid [OF assms(1)] assms(2,3)] assms(1)
  by (simp add: ParseInLocation_def fmt_ymd_def dateOnlyInLoc_def)

end
