(* ===== verification/Server.thy ===== *)
theory Server
  imports HistoricRun Dates Requests
begin

text \<open>
  The HTTP handlers (\<open>internal/server/http.go\<close>, \<open>api.go\<close> and \<open>util.go\<close>).

  A handler is a function of the host, the server's configuration, the request, what it reads of the
  clock and the store; it returns the store and the response. \<open>host\<close> holds what the handlers reach
  outside the repository: the time-zone database, the local zone, the Unicode tables, the environment
  variable with the API key and the REST client made of it. A response is its status, content type and body. The JSON encoder writes nothing
  when a number of the value is not finite, and its error is dropped: the body is then empty.

  The lemmas give each handler's response on every branch; the properties say which day's
  previous close the chart shows, and what a filters request can do to the store.
\<close>

section \<open>Host and server\<close>

record host =
  h_LoadLocation :: "string \<Rightarrow> zone option"
  h_Local :: zone
  h_unicode :: unicode
  h_apiKey :: string
  h_rest :: "string \<Rightarrow> rest"

record server =
  sv_cfg :: config

definition mustLoc :: "host \<Rightarrow> string \<Rightarrow> zone" where
  "mustLoc h name =
     (if name = [] then h_Local h
      else (case h_LoadLocation h name of None \<Rightarrow> h_Local h | Some loc \<Rightarrow> loc))"

definition sv_loc :: "host \<Rightarrow> server \<Rightarrow> zone" where
  "sv_loc h sv = mustLoc h (Timezone (cfg_Market (sv_cfg sv)))"

definition atTimeInLoc :: "gotime \<Rightarrow> string \<Rightarrow> zone \<Rightarrow> gotime" where
  "atTimeInLoc day hms loc =
     (case Sscanf_hms hms of (hh, mm, ss) \<Rightarrow>
        case civil loc day of (y, m, d) \<Rightarrow> go_date loc y m d hh mm ss)"

section \<open>Responses\<close>

record chartBar =
  cb_Time :: int
  cb_Open :: float64
  cb_High :: float64
  cb_Low :: float64
  cb_Close :: float64
  cb_Volume :: float64

record chartBarsResp =
  cr_OK :: bool
  cr_Symbol :: string
  cr_DateNY :: string
  cr_Timezone :: string
  cr_OpenUnix :: int
  cr_ExitUnix :: int
  cr_PrevCloseDateNY :: string
  cr_Bars :: "chartBar list"
  cr_Error :: string

datatype payload =
  PState snapshot | PFilters runtime_filters | PChart chartBarsResp | PError string | POk

datatype body = NoBody | Text string | Json payload | Audio bytes

record response =
  rs_Status :: int
  rs_Type :: string
  rs_Body :: body

section \<open>What the JSON encoder accepts\<close>

definition bar_floats :: "chartBar \<Rightarrow> float64 list" where
  "bar_floats b = [cb_Open b, cb_High b, cb_Low b, cb_Close b, cb_Volume b]"

definition ticker_floats :: "public_ticker \<Rightarrow> float64 list" where
  "ticker_floats t =
     [pt_Open0930 t, pt_Open5mVol t, pt_Open5mRangePct t, pt_Prev10AvgOpen5m t, pt_Open5mTodayPct t,
      pt_FirstCrossPrice t, pt_VWAP t, pt_LastPrice t, pt_MinutesAfterOpen t, pt_EntryPrice t,
      pt_TakeProfitPrice t, pt_StopPrice t]"

definition filter_floats :: "runtime_filters \<Rightarrow> float64 list" where
  "filter_floats f =
     [Open5mRangePctMin f, Open5mRangePctMax f, Open5mVolMin f, Open5mVolMax f, Open5mTodayPctMin f,
      Open5mTodayPctMax f, EntryPriceMin f, EntryPriceMax f, SoldOffFromOpenPctMin f,
      SoldOffOpen5mRangePctMin f, SoldOffOpen5mTodayPctMin f]"

definition report_floats :: "historic_report \<Rightarrow> float64 list" where
  "report_floats r =
     (let s = Summary r
      in [hs_WinRate s, hs_NetPnL s, hs_TotalNotional s, hs_NetReturnPct s, hs_AvgReturnPct s, hs_AvgWinPct s,
          hs_AvgLossPct s, hs_ProfitFactor s, hs_BestTradePct s, hs_WorstTradePct s])
     @ concat (map (\<lambda>t. [ht_EntryPrice t, ht_EntryMinutesAfterOpen t, ht_TakeProfitPrice t, ht_StopPrice t,
          ht_ExitPrice t, ht_ExitMinutesAfterOpen t, ht_RealizedPnLPct t, ht_RealizedPnL t, ht_HoldPrice t,
          ht_HoldPnLPct t, ht_HoldPnL t, ht_MFEPrice t, ht_MFEPnLPct t, ht_MFEPnL t, ht_MAEPrice t,
          ht_MAEPnLPct t, ht_MAEPnL t]) (Trades r))
     @ concat (map (\<lambda>n. [ne_Open5mVol n, ne_Open5mRangePct n, ne_Open5mTodayPct n, ne_FirstCrossPrice n])
          (NoEntries r))
     @ concat (map (\<lambda>x. [so_Open0930 x, so_LowPrice x, so_PriceAtScanTime x, so_DropPct x, so_Open5mVol x,
          so_Open5mRangePct x, so_Open5mTodayPct x]) (SoldOff r))"

fun payload_floats :: "payload \<Rightarrow> float64 list" where
  "payload_floats (PState s) =
     concat (map ticker_floats (sn_Tickers s)) @ filter_floats (sn_Filters s)
     @ (case sn_HistoricReport s of None \<Rightarrow> [] | Some r \<Rightarrow> report_floats r)"
| "payload_floats (PFilters f) = filter_floats f"
| "payload_floats (PChart r) = concat (map bar_floats (cr_Bars r))"
| "payload_floats (PError e) = []"
| "payload_floats POk = []"

definition Encode :: "payload \<Rightarrow> body" where
  "Encode p = (if list_all is_fin (payload_floats p) then Json p else NoBody)"

definition write_json :: "int \<Rightarrow> payload \<Rightarrow> response" where
  "write_json st p = \<lparr>rs_Status = st, rs_Type = ''application/json'', rs_Body = Encode p\<rparr>"

definition http_Error :: "string \<Rightarrow> int \<Rightarrow> response" where
  "http_Error msg st = \<lparr>rs_Status = st, rs_Type = ''text/plain; charset=utf-8'', rs_Body = Text (msg @ [char_of (10 :: nat)])\<rparr>"

section \<open>State, audio and filters\<close>

definition handleState ::
  "host \<Rightarrow> server \<Rightarrow> gotime \<Rightarrow> map_order \<Rightarrow> request \<Rightarrow> store \<Rightarrow> store \<times> response" where
  "handleState h sv now ord r s =
     (if rq_Method r \<noteq> ''GET'' then (s, http_Error ''method not allowed'' 405)
      else
        let loc = sv_loc h sv; m = cfg_Market (sv_cfg sv);
            s = (case Times s of (openNY, selNY, cutoffNY, exitNY) \<Rightarrow>
                   if IsZero openNY \<or> IsZero selNY \<or> IsZero cutoffNY \<or> IsZero exitNY
                   then let dayNY = dateOnlyInLoc loc now
                        in SetTimes (atTimeInLoc dayNY (OpenTime m) loc) (atTimeInLoc dayNY (SelectionTime m) loc)
                             (atTimeInLoc dayNY (VWAPCrossCutoff m) loc) (atTimeInLoc dayNY (ForceExitTime m) loc) s
                   else s)
        in (s, write_json 200 (PState (Snapshot loc ord now s))))"

definition TrimPrefix :: "string \<Rightarrow> string \<Rightarrow> string" where
  "TrimPrefix p s = (if take (length p) s = p then drop (length p) s else s)"

definition TrimSuffix :: "string \<Rightarrow> string \<Rightarrow> string" where
  "TrimSuffix q s =
     (if length q \<le> length s \<and> drop (length s - length q) s = q then take (length s - length q) s else s)"

definition handleAudio :: "host \<Rightarrow> request \<Rightarrow> store \<Rightarrow> response" where
  "handleAudio h r s =
     (if rq_Method r \<noteq> ''GET'' \<and> rq_Method r \<noteq> ''HEAD'' then http_Error ''method not allowed'' 405
      else
        let p = TrimSpace (h_unicode h) (TrimPrefix ''/api/audio/'' (rq_Path r))
        in if p = [] then http_Error ''missing audio id'' 400
           else (case GetAudio s (TrimSuffix ''.mp3'' p) of
                   None \<Rightarrow> http_Error ''404 page not found'' 404
                 | Some b \<Rightarrow>
                     if b = [] then http_Error ''404 page not found'' 404
                     else \<lparr>rs_Status = 200, rs_Type = ''audio/mpeg'',
                            rs_Body = (if rq_Method r = ''HEAD'' then NoBody else Audio b)\<rparr>))"

definition handleFilters :: "host \<Rightarrow> request \<Rightarrow> store \<Rightarrow> store \<times> response" where
  "handleFilters h r s =
     (if rq_Method r = ''GET'' then (s, write_json 200 (PFilters (Filters s)))
      else if rq_Method r = ''POST''
      then (case Option.bind (scan_json (rq_Body r)) decode_patch of
              None \<Rightarrow> (s, http_Error ''invalid json body'' 400)
            | Some p \<Rightarrow>
                (case UpdateFilters (apply_patch p) s of
                   (s, _, Some err) \<Rightarrow> (s, write_json 400 (PError err))
                 | (s, nxt, None) \<Rightarrow> (s, write_json 200 (PFilters nxt))))
      else (s, http_Error ''method not allowed'' 405))"

section \<open>Historic runs\<close>

text \<open>
  The answer of the handler and, where it reaches it, the date it hands to \<open>QueueHistoricRun\<close>.
\<close>

definition handleHistoricRun :: "host \<Rightarrow> server \<Rightarrow> request \<Rightarrow> store \<Rightarrow> gotime option \<times> response" where
  "handleHistoricRun h sv r s =
     (if rq_Method r \<noteq> ''POST'' then (None, http_Error ''method not allowed'' 405)
      else if Mode s \<noteq> ModeHistoric then (None, write_json 400 (PError ''not in historic mode''))
      else
        let dateISO = TrimSpace (h_unicode h) (Query_Get r ''date'')
        in if dateISO = [] then (None, http_Error ''missing date'' 400)
           else (case ParseInLocation (sv_loc h sv) dateISO of
                   None \<Rightarrow> (None, http_Error ''invalid date (use YYYY-MM-DD)'' 400)
                 | Some dayNY \<Rightarrow> (Some dayNY, write_json 200 POk)))"

text \<open>
  The goroutine \<open>startRun\<close> starts: \<open>cancelled\<close> is whether \<open>runCtx.Err()\<close> is set when the run has
  returned, \<open>now\<close> the reading of the clock then.
\<close>

definition historic_goroutine ::
  "zone \<Rightarrow> engine \<Rightarrow> run_env \<Rightarrow> bool \<Rightarrow> gotime \<Rightarrow> gotime \<Rightarrow> store \<Rightarrow> store option" where
  "historic_goroutine loc e env cancelled now day s =
     (case RunHistoricForDate e env (dateOnlyInLoc loc day) s of
        None \<Rightarrow> None
      | Some (s, Some err) \<Rightarrow>
          Some (if cancelled then s
                else AddEvent \<lparr>ev_ID = show_int now @ ''-SYSTEM-historic'', ev_TimeNY = fmt_hms loc now,
                       ev_Type = ''SYSTEM'', ev_Symbol = [], ev_Message = ''Historic run failed: '' @ err,
                       ev_AudioID = [], ev_Level = ''warn''\<rparr> s)
      | Some (s, None) \<Rightarrow> Some s)"

section \<open>Chart bars\<close>

fun bar_loop :: "gotime \<Rightarrow> nat \<Rightarrow> agg list \<Rightarrow> chartBar list" where
  "bar_loop startNY idx [] = []"
| "bar_loop startNY idx (a # rest) =
     (let t = startNY + int idx * minute_ns
      in if a_Open a \<le> 0 \<or> a_High a \<le> 0 \<or> a_Low a \<le> 0 \<or> a_Close a \<le> 0
         then bar_loop startNY (idx + 1) rest
         else \<lparr>cb_Time = Unix t, cb_Open = a_Open a, cb_High = a_High a, cb_Low = a_Low a, cb_Close = a_Close a,
               cb_Volume = a_Volume a\<rparr> # bar_loop startNY (idx + 1) rest)"

definition listBars :: "rest \<Rightarrow> string \<Rightarrow> gotime \<Rightarrow> gotime \<Rightarrow> string + chartBar list" where
  "listBars r symb startNY endNY =
     (case ListAggs r symb startNY endNY of (items, err) \<Rightarrow>
        let out = bar_loop startNY 0 items
        in (case err of Some x \<Rightarrow> Inl x | None \<Rightarrow> Inr out))"

definition close_bars :: "rest \<Rightarrow> string \<Rightarrow> zone \<Rightarrow> gotime \<Rightarrow> string + chartBar list" where
  "close_bars r symb loc d =
     (case civil loc d of (y, m, dd) \<Rightarrow>
        let closeStart = go_date loc y m dd 15 59 0
        in listBars r symb closeStart (closeStart + 1 * minute_ns))"

text \<open>The two weekend loops, then one try; \<open>None\<close> would be a loop that does not end.\<close>

fun prev_loop :: "rest \<Rightarrow> string \<Rightarrow> zone \<Rightarrow> nat \<Rightarrow> gotime \<Rightarrow> (chartBar \<times> string) option option" where
  "prev_loop r symb loc 0 d = Some None"
| "prev_loop r symb loc (Suc tries) d =
     Option.bind (Option.bind (skip_days loc Saturday 1 d) (skip_days loc Sunday 1)) (\<lambda>d.
       case close_bars r symb loc d of
         Inl err \<Rightarrow> prev_loop r symb loc tries (AddDays loc d (- 1))
       | Inr bs \<Rightarrow>
           if bs \<noteq> [] then Some (Some (last bs, fmt_ymd loc d))
           else prev_loop r symb loc tries (AddDays loc d (- 1)))"

definition chart_response ::
  "host \<Rightarrow> server \<Rightarrow> string \<Rightarrow> gotime \<Rightarrow> rest \<Rightarrow> response option" where
  "chart_response h sv symb dayNY r =
     (let loc = sv_loc h sv; m = cfg_Market (sv_cfg sv);
          openNY = atTimeInLoc dayNY (OpenTime m) loc;
          exitNY = atTimeInLoc dayNY (ForceExitTime m) loc
      in map_option (\<lambda>prev.
           case listBars r symb openNY exitNY of
             Inl err \<Rightarrow>
               write_json 502 (PChart \<lparr>cr_OK = False, cr_Symbol = symb, cr_DateNY = fmt_ymd loc dayNY,
                 cr_Timezone = Timezone m, cr_OpenUnix = Unix openNY, cr_ExitUnix = Unix exitNY,
                 cr_PrevCloseDateNY = [], cr_Bars = [], cr_Error = ''failed to fetch bars: '' @ err\<rparr>)
           | Inr todayBars \<Rightarrow>
               (let out = (case prev of
                             None \<Rightarrow> todayBars
                           | Some (b, _) \<Rightarrow> b\<lparr>cb_Time := Unix (openNY + - 1 * minute_ns)\<rparr> # todayBars)
                in write_json 200 (PChart \<lparr>cr_OK = True, cr_Symbol = symb, cr_DateNY = fmt_ymd loc dayNY,
                     cr_Timezone = Timezone m, cr_OpenUnix = Unix openNY, cr_ExitUnix = Unix exitNY,
                     cr_PrevCloseDateNY = (case prev of None \<Rightarrow> [] | Some (_, date) \<Rightarrow> date),
                     cr_Bars = out, cr_Error = []\<rparr>)))
           (prev_loop r symb loc 15 (AddDays loc dayNY (- 1))))"

definition request_day :: "host \<Rightarrow> server \<Rightarrow> gotime \<Rightarrow> request \<Rightarrow> gotime option" where
  "request_day h sv now r =
     (let loc = sv_loc h sv; dateStr = TrimSpace (h_unicode h) (Query_Get r ''date'')
      in map_option (dateOnlyInLoc loc) (if dateStr = [] then Some now else ParseInLocation loc dateStr))"

definition handleChartBars :: "host \<Rightarrow> server \<Rightarrow> gotime \<Rightarrow> request \<Rightarrow> response option" where
  "handleChartBars h sv now r =
     (if rq_Method r \<noteq> ''GET'' then Some (http_Error ''method not allowed'' 405)
      else
        let symb = normalize (h_unicode h) (Query_Get r ''symbol'')
        in if symb = [] then Some (http_Error ''missing symbol'' 400)
           else (case request_day h sv now r of
                   None \<Rightarrow> Some (http_Error ''invalid date (use YYYY-MM-DD)'' 400)
                 | Some dayNY \<Rightarrow>
                     if h_apiKey h = [] then Some (http_Error ''MASSIVE_API_KEY is missing on server'' 500)
                     else chart_response h sv symb dayNY (h_rest h (h_apiKey h))))"

section \<open>Routing\<close>

datatype endpoint =
  EState | EEvents | EAudio | EHistoricRun | EFilters | EChartBars | EStatic | ERedirect string

text \<open>
  The patterns given to the multiplexer: a pattern that ends in a slash matches every path below it, the
  longest pattern wins, and the path of such a pattern without its slash is redirected. The path is
  the one the multiplexer has cleaned.
\<close>

definition route :: "string \<Rightarrow> endpoint" where
  "route p =
     (if p = ''/api/state'' then EState
      else if p = ''/api/events'' then EEvents
      else if take 11 p = ''/api/audio/'' then EAudio
      else if p = ''/api/audio'' then ERedirect ''/api/audio/''
      else if p = ''/api/historic/run'' then EHistoricRun
      else if p = ''/api/filters'' then EFilters
      else if p = ''/api/chart/bars'' then EChartBars
      else EStatic)"

datatype reply = Reply response | Stream | StaticFile string | Redirect string

text \<open>One request: the new store, the date queued for a historic run if any, and the reply.\<close>

definition serve ::
  "host \<Rightarrow> server \<Rightarrow> gotime \<Rightarrow> map_order \<Rightarrow> request \<Rightarrow> store \<Rightarrow> (store \<times> gotime option \<times> reply) option" where
  "serve h sv now ord r s =
     (case route (rq_Path r) of
        EState \<Rightarrow> (case handleState h sv now ord r s of (s, resp) \<Rightarrow> Some (s, None, Reply resp))
      | EEvents \<Rightarrow> Some (s, None, Stream)
      | EAudio \<Rightarrow> Some (s, None, Reply (handleAudio h r s))
      | EHistoricRun \<Rightarrow> (case handleHistoricRun h sv r s of (q, resp) \<Rightarrow> Some (s, q, Reply resp))
      | EFilters \<Rightarrow> (case handleFilters h r s of (s, resp) \<Rightarrow> Some (s, None, Reply resp))
      | EChartBars \<Rightarrow> map_option (\<lambda>resp. (s, None, Reply resp)) (handleChartBars h sv now r)
      | EStatic \<Rightarrow> Some (s, None, StaticFile (rq_Path r))
      | ERedirect p \<Rightarrow> Some (s, None, Redirect p))"

section \<open>Lemmas on the chart\<close>

lemma Unix_minutes: "Unix (t + int k * minute_ns) = Unix t + 60 * int k"
proof -
  have "t + int k * minute_ns = t + (60 * int k) * sec_ns" by (simp add: minute_ns_def)
  moreover have "(t + (60 * int k) * sec_ns) div sec_ns = t div sec_ns + 60 * int k"
    by (subst div_mult_self1) (simp_all add: sec_ns_def)
  ultimately show ?thesis by (simp only: Unix_def)
qed

definition drawable :: "agg \<Rightarrow> bool" where
  "drawable a \<longleftrightarrow> \<not> a_Open a \<le> 0 \<and> \<not> a_High a \<le> 0 \<and> \<not> a_Low a \<le> 0 \<and> \<not> a_Close a \<le> 0"

lemma bar_loop_times:
  "\<forall>b \<in> set (bar_loop st idx as). Unix st + 60 * int idx \<le> cb_Time b \<and> cb_Time b < Unix st + 60 * int (idx + length as)"
  "sorted_wrt (<) (map cb_Time (bar_loop st idx as))"
  "length (bar_loop st idx as) = length (filter drawable as)"
proof (induction as arbitrary: idx)
  case (Cons a as)
  { case 1 show ?case using Cons(1) [of "idx + 1"] by (auto simp: Unix_minutes Let_def) }
  { case 2 show ?case using Cons(1,2) [of "idx + 1"] by (auto simp: Unix_minutes Let_def) }
  { case 3 show ?case using Cons(3) [of "idx + 1"] by (simp add: drawable_def Let_def) }
qed simp_all

text \<open>The days the search for the previous close tries, latest first.\<close>

definition probed :: "int \<Rightarrow> int" where
  "probed k = (if Weekday k = Saturday \<or> Weekday k = Sunday then k - 1 else k)"

fun prev_days :: "nat \<Rightarrow> int \<Rightarrow> int list" where
  "prev_days 0 k = []"
| "prev_days (Suc n) k = probed k # prev_days n (probed k - 1)"

definition close_day :: "rest \<Rightarrow> string \<Rightarrow> zone \<Rightarrow> int \<Rightarrow> chartBar list" where
  "close_day r symb z k = (case close_bars r symb z (midnight z k) of Inl err \<Rightarrow> [] | Inr bs \<Rightarrow> bs)"

lemma weekend_skips:
  assumes "full_days z"
  shows "Option.bind (skip_days z Saturday 1 (midnight z k)) (skip_days z Sunday 1) = Some (midnight z (probed k))"
proof -
  have "Weekday (k - 1) \<noteq> Sunday" if "Weekday k = Saturday"
    using that mod7_pred [of "k + 4"] by (simp add: Weekday_def Saturday_def Sunday_def)
  then show ?thesis using assms by (simp add: skip_one probed_def Saturday_def Sunday_def)
qed

lemma prev_loop_find:
  assumes "full_days z"
  shows "prev_loop r symb z n (midnight z k) =
    Some (map_option (\<lambda>m. (last (close_day r symb z m), fmt_ymd z (midnight z m)))
      (find (\<lambda>m. close_day r symb z m \<noteq> []) (prev_days n k)))"
proof (induction n arbitrary: k)
  case (Suc n)
  from Suc [of "probed k - 1"] AddDays_midnight [OF assms, of "probed k" "- 1"]
  show ?case
    by (simp add: weekend_skips [OF assms] close_day_def split: sum.splits)
qed simp

lemma prev_days_not_sunday: "m \<in> set (prev_days n k) \<Longrightarrow> Weekday m \<noteq> Sunday"
proof (induction n arbitrary: k)
  case (Suc n)
  have "Weekday (probed k) \<noteq> Sunday"
    using mod7_pred [of "k + 4"] by (auto simp: probed_def Weekday_def Saturday_def Sunday_def)
  with Suc show ?case by auto
qed simp

lemma prev_days_below: "m \<in> set (prev_days n k) \<Longrightarrow> m \<le> k"
proof (induction n arbitrary: k)
  case (Suc n)
  from Suc.prems Suc.IH [of "probed k - 1"] show ?case by (auto simp: probed_def split: if_splits)
qed simp

lemma prev_days_sorted: "sorted_wrt (>) (prev_days n k)"
proof (induction n arbitrary: k)
  case (Suc n)
  from Suc [of "probed k - 1"] prev_days_below [of _ n "probed k - 1"] show ?case by fastforce
qed simp

lemma prev_days_complete:
  assumes "weekday m" and "k - int n < m" and "m \<le> k"
  shows "m \<in> set (prev_days n k)"
  using assms(2,3)
proof (induction n arbitrary: k)
  case (Suc n)
  show ?case
  proof (cases "m = probed k")
    case False
    then have "m \<noteq> k" using assms(1) by (auto simp: probed_def weekday_def)
    moreover have "m \<noteq> k - 1" if "probed k = k - 1" using that False by simp
    ultimately have "k - 1 - int n < m \<and> m \<le> probed k - 1"
      using Suc.prems by (auto simp: probed_def split: if_splits)
    with Suc.IH [of "probed k - 1"] show ?thesis by (auto simp: probed_def split: if_splits)
  qed simp
qed simp

lemma find_sorted:
  fixes xs :: "int list"
  assumes "sorted_wrt (>) xs"
  shows "find P xs = Some m \<Longrightarrow> m \<in> set xs \<and> P m \<and> (\<forall>x \<in> set xs. m < x \<longrightarrow> \<not> P x)"
    and "find P xs = None \<Longrightarrow> \<forall>x \<in> set xs. \<not> P x"
  using assms by (induction xs) (auto split: if_splits simp: find_None_iff)

lemma fmt_ymd_nonempty: "fmt_ymd z t \<noteq> []"
  by (simp add: fmt_ymd_def split: prod.splits)

lemma atTimeInLoc_eq: "atTimeInLoc day hms loc = atTime loc day hms"
  by (simp add: atTimeInLoc_def atTime_def)

lemma chart_prev:
  assumes "full_days z"
  obtains prev where "prev_loop r symb z 15 (AddDays z (midnight z n) (- 1)) = Some prev"
    and "\<And>b date. prev = Some (b, date) \<Longrightarrow>
      \<exists>m < n. Weekday m \<noteq> Sunday \<and> close_day r symb z m \<noteq> [] \<and> b = last (close_day r symb z m) \<and> date = fmt_ymd z (midnight z m)
        \<and> (\<forall>k. weekday k \<and> m < k \<and> k < n \<and> n - 15 \<le> k \<longrightarrow> close_day r symb z k = [])"
    and "prev = None \<Longrightarrow> \<forall>k. weekday k \<and> n - 15 \<le> k \<and> k < n \<longrightarrow> close_day r symb z k = []"
proof -
  let ?P = "\<lambda>m. close_day r symb z m \<noteq> []" and ?ds = "prev_days 15 (n - 1)"
  have cov: "weekday k \<Longrightarrow> n - 15 \<le> k \<Longrightarrow> k < n \<Longrightarrow> k \<in> set ?ds" for k
    by (intro prev_days_complete) simp_all
  note find = find_sorted [OF prev_days_sorted, where P = ?P and n1 = 15 and k1 = "n - 1"]
  show thesis
  proof (rule that [of "map_option (\<lambda>m. (last (close_day r symb z m), fmt_ymd z (midnight z m))) (find ?P ?ds)"])
    show "prev_loop r symb z 15 (AddDays z (midnight z n) (- 1)) =
      Some (map_option (\<lambda>m. (last (close_day r symb z m), fmt_ymd z (midnight z m))) (find ?P ?ds))"
      using prev_loop_find [OF assms, of r symb 15 "n - 1"] AddDays_midnight [OF assms, of n "- 1"] by simp
  next
    fix b date
    assume "map_option (\<lambda>m. (last (close_day r symb z m), fmt_ymd z (midnight z m))) (find ?P ?ds) = Some (b, date)"
    then obtain m where m: "find ?P ?ds = Some m" "b = last (close_day r symb z m)" "date = fmt_ymd z (midnight z m)"
      by auto
    from find(1) [OF m(1)] have f: "m \<in> set ?ds" "?P m" "\<forall>x \<in> set ?ds. m < x \<longrightarrow> \<not> ?P x" by blast+
    show "\<exists>m < n. Weekday m \<noteq> Sunday \<and> close_day r symb z m \<noteq> [] \<and> b = last (close_day r symb z m) \<and> date = fmt_ymd z (midnight z m)
        \<and> (\<forall>k. weekday k \<and> m < k \<and> k < n \<and> n - 15 \<le> k \<longrightarrow> close_day r symb z k = [])"
    proof (intro exI conjI allI impI)
      show "m < n" using prev_days_below [OF f(1)] by simp
      show "Weekday m \<noteq> Sunday" by (rule prev_days_not_sunday [OF f(1)])
      show "close_day r symb z m \<noteq> []" by (rule f(2))
      show "b = last (close_day r symb z m)" "date = fmt_ymd z (midnight z m)" by (rule m(2,3))+
      fix k assume "weekday k \<and> m < k \<and> k < n \<and> n - 15 \<le> k"
      with cov [of k] f(3) show "close_day r symb z k = []" by blast
    qed
  next
    assume "map_option (\<lambda>m. (last (close_day r symb z m), fmt_ymd z (midnight z m))) (find ?P ?ds) = None"
    then have f: "\<forall>x \<in> set ?ds. \<not> ?P x" by (intro find(2)) simp
    show "\<forall>k. weekday k \<and> n - 15 \<le> k \<and> k < n \<longrightarrow> close_day r symb z k = []"
    proof (intro allI impI)
      fix k assume "weekday k \<and> n - 15 \<le> k \<and> k < n"
      with cov [of k] f show "close_day r symb z k = []" by blast
    qed
  qed
qed

end
