(* ===== verification/Server_Properties.thy ===== *)
theory Server_Properties
  imports Server
begin

text \<open>
  Properties of the HTTP handlers of \<open>Server\<close>: what a filters request does, that no request touches the
  trading state, which bars the chart shows, and when a reply is blank.
\<close>

section \<open>Filters\<close>

definition finite_filters :: "runtime_filters \<Rightarrow> bool" where
  "finite_filters f \<longleftrightarrow> list_all is_fin (filter_floats f)"

definition finite_patch :: "filtersPatch \<Rightarrow> bool" where
  "finite_patch p \<longleftrightarrow>
     list_all (pred_option is_fin)
       [p_Open5mRangePctMin p, p_Open5mRangePctMax p, p_Open5mVolMin p, p_Open5mVolMax p, p_Open5mTodayPctMin p,
        p_Open5mTodayPctMax p, p_EntryPriceMin p, p_EntryPriceMax p, p_SoldOffFromOpenPctMin p,
        p_SoldOffOpen5mRangePctMin p, p_SoldOffOpen5mTodayPctMin p]"

lemma is_fin_patched: "pred_option is_fin v \<Longrightarrow> is_fin x \<Longrightarrow> is_fin (patched v x)"
  by (cases v) simp_all

lemma finite_apply_patch:
  "finite_patch p \<Longrightarrow> finite_filters f \<Longrightarrow> finite_filters (fst (apply_patch p f))"
  by (simp add: finite_patch_def finite_filters_def filter_floats_def apply_patch_def is_fin_patched)

lemma float_setters_finite:
  "find_field float_fields k = Some setp \<Longrightarrow> finite_patch p \<Longrightarrow> pred_option is_fin v \<Longrightarrow> finite_patch (setp v p)"
  by (auto simp: find_field_def float_fields_def finite_patch_def split: if_splits)

lemma int_setters_finite:
  "find_field int_fields k = Some setp \<Longrightarrow> finite_patch (setp v p) = finite_patch p"
  by (auto simp: find_field_def int_fields_def finite_patch_def split: if_splits)

lemma ParseFloat_fin: "ParseFloat lit = Some x \<Longrightarrow> is_fin x"
  by (auto simp: ParseFloat_def Let_def split: if_splits)

lemma decode_float_fin: "decode_ptr ParseFloat v = Some x \<Longrightarrow> pred_option is_fin x"
  by (cases v) (auto dest: ParseFloat_fin)

lemma decode_member_finite: "finite_patch (fst st) \<Longrightarrow> finite_patch (fst (decode_member m st))"
  by (cases m)
    (auto simp: decode_into_def int_setters_finite split: option.splits
      intro: float_setters_finite decode_float_fin)

lemma decode_patch_finite: "decode_patch v = Some p \<Longrightarrow> finite_patch p"
proof (cases v)
  case (JObj ms)
  have "finite_patch (fst st) \<Longrightarrow> finite_patch (fst (fold decode_member ms st))" for st
    by (induction ms arbitrary: st) (simp_all add: decode_member_finite)
  from this [of "(empty_patch, True)"] show "decode_patch v = Some p \<Longrightarrow> finite_patch p"
    using JObj by (auto simp: finite_patch_def empty_patch_def split: prod.splits if_splits)
qed (auto simp: finite_patch_def empty_patch_def)

lemma handleFilters_post:
  assumes "rq_Method r = ''POST''"
  shows "handleFilters h r s =
    (case Option.bind (scan_json (rq_Body r)) decode_patch of
       None \<Rightarrow> (s, http_Error ''invalid json body'' 400)
     | Some p \<Rightarrow>
         (case validateRuntimeFilters (fst (apply_patch p (Filters s))) of
            Some err \<Rightarrow> (s, write_json 400 (PError err))
          | None \<Rightarrow> (s\<lparr>filters := fst (apply_patch p (Filters s))\<rparr>,
                    write_json 200 (PFilters (fst (apply_patch p (Filters s)))))))"
  using assms
  by (simp add: handleFilters_def UpdateFilters_def apply_patch_def Filters_def Let_def split: option.splits)

lemma filters_object:
  assumes "rq_Method r = ''POST''" and "scan_json (rq_Body r) = Some (JObj ms)"
  shows "if \<forall>m \<in> set ms. usable m
    then \<exists>p. decode_patch (JObj ms) = Some p
      \<and> (let f = fst (apply_patch p (Filters s))
         in if validateRuntimeFilters f = None
            then fst (handleFilters h r s) = s\<lparr>filters := f\<rparr> \<and> rs_Status (snd (handleFilters h r s)) = 200
              \<and> (finite_filters (Filters s) \<longrightarrow>
                   finite_filters f \<and> rs_Body (snd (handleFilters h r s)) = Json (PFilters f))
            else fst (handleFilters h r s) = s \<and> rs_Status (snd (handleFilters h r s)) = 400)
    else handleFilters h r s = (s, http_Error ''invalid json body'' 400)"
proof (cases "\<forall>m \<in> set ms. usable m")
  case False
  then have "decode_patch (JObj ms) = None" using decode_patch_iff [of ms] by (metis not_Some_eq)
  with assms False show ?thesis by (simp only: handleFilters_post if_False bind.simps option.case)
next
  case True
  then obtain p where p: "decode_patch (JObj ms) = Some p" using decode_patch_iff by blast
  let ?f = "fst (apply_patch p (Filters s))"
  have fin: "finite_filters (Filters s) \<Longrightarrow> finite_filters ?f"
    by (rule finite_apply_patch [OF decode_patch_finite [OF p]])
  have h: "handleFilters h r s = (case validateRuntimeFilters ?f of
            Some err \<Rightarrow> (s, write_json 400 (PError err))
          | None \<Rightarrow> (s\<lparr>filters := ?f\<rparr>, write_json 200 (PFilters ?f)))"
    unfolding handleFilters_post [OF assms(1)] assms(2) bind.simps p option.case ..
  show ?thesis
    unfolding if_P [OF True] Let_def
    using p fin h by (auto simp: write_json_def Encode_def finite_filters_def split: option.splits)
qed

text \<open>C22. A filters request, whatever bytes the body holds: the JSON value it starts with is read, and what follows it
  ignored. A body that does not start with one, or starts with one that is neither null nor an object of the right
  kinds, or with an object whose values break a rule, is answered with status 400 and leaves the store as it
  was; an object otherwise replaces exactly the filters, by valid ones, and they are sent back; and if the
  filters were finite numbers they stay so and the reply is not blank. A null is read as an object without members: it
  changes nothing, and is answered with status 200 if the filters there are valid (they are, unless the process
  started with an inverted today-percentage).\<close>

theorem filters_request_spec:
  assumes "rq_Method r = ''POST''"
  shows "case scan_json (rq_Body r) of
      Some (JObj ms) \<Rightarrow>
        (if \<forall>m \<in> set ms. usable m
         then \<exists>p. decode_patch (JObj ms) = Some p
           \<and> (let f = fst (apply_patch p (Filters s))
              in if validateRuntimeFilters f = None
                 then fst (handleFilters h r s) = s\<lparr>filters := f\<rparr> \<and> rs_Status (snd (handleFilters h r s)) = 200
                   \<and> (finite_filters (Filters s) \<longrightarrow>
                        finite_filters f \<and> rs_Body (snd (handleFilters h r s)) = Json (PFilters f))
                 else fst (handleFilters h r s) = s \<and> rs_Status (snd (handleFilters h r s)) = 400)
         else handleFilters h r s = (s, http_Error ''invalid json body'' 400))
    | Some JNull \<Rightarrow> fst (handleFilters h r s) = s
        \<and> (rs_Status (snd (handleFilters h r s)) = 200 \<longleftrightarrow> validateRuntimeFilters (Filters s) = None)
    | _ \<Rightarrow> handleFilters h r s = (s, http_Error ''invalid json body'' 400)"
proof (cases "scan_json (rq_Body r)")
  case None
  then show ?thesis by (simp add: handleFilters_post [OF assms])
next
  case (Some v)
  show ?thesis
  proof (cases v)
    case JNull
    have "fst (apply_patch empty_patch (Filters s)) = Filters s" by (simp add: apply_patch_def empty_patch_def)
    with Some JNull show ?thesis
      by (simp add: handleFilters_post [OF assms] write_json_def Filters_def split: option.split)
  next
    case (JObj ms)
    with Some show ?thesis using filters_object [OF assms, of ms s h] by simp
  qed (simp_all add: Some handleFilters_post [OF assms])
qed

text \<open>A host, a server and requests for the instances.\<close>

definition sample_host :: host where
  "sample_host = \<lparr>h_LoadLocation = (\<lambda>_. None), h_Local = fixed_zone 0,
     h_unicode = \<lparr>uni_ToUpper = id, uni_TrimFunc = id, uni_TrimRightFunc = id\<rparr>, h_apiKey = ''key'',
     h_rest = (\<lambda>_. probe_rest)\<rparr>"

definition sample_server :: server where
  "sample_server = \<lparr>sv_cfg = loaded_config\<rparr>"

definition sample_request :: "string \<Rightarrow> string \<Rightarrow> request" where
  "sample_request meth p = \<lparr>rq_Method = meth, rq_Path = p, rq_Query = [(''symbol'', '' a '')],
     rq_Body = encode (JObj [(''Entry_Minutes_After_Open_Max'', JNum ''30'')]) @ '' and more''\<rparr>"

lemma sample_scan: "scan_json (rq_Body (sample_request meth p)) = Some (JObj [(''Entry_Minutes_After_Open_Max'', JNum ''30'')])"
  unfolding sample_request_def request.select_convs by code_simp

lemma sample_member: "decode_member (''Entry_Minutes_After_Open_Max'', JNum ''30'') st =
    ((fst st)\<lparr>p_EntryMaxAfterOpen := Some 30\<rparr>, snd st)" "usable (''Entry_Minutes_After_Open_Max'', JNum ''30'')"
proof -
  have cap: "char_of (79 :: nat) = CHR ''O''" "char_of (65 :: nat) = CHR ''A''" "char_of (69 :: nat) = CHR ''E''"
    "char_of (77 :: nat) = CHR ''M''" by code_simp+
  have f: "find_field float_fields ''Entry_Minutes_After_Open_Max'' = None"
    "find_field int_fields ''Entry_Minutes_After_Open_Max'' = Some (\<lambda>v p. p\<lparr>p_EntryMaxAfterOpen := v\<rparr>)"
    using cap by (simp_all add: find_field_def float_fields_def int_fields_def upper_char_def ascii_lower_def)
  have n: "ParseInt ''30'' = Some 30"
    by (simp add: ParseInt_def lit_split_def is_dig_def nat_of_digits_def)
  show "decode_member (''Entry_Minutes_After_Open_Max'', JNum ''30'') st =
    ((fst st)\<lparr>p_EntryMaxAfterOpen := Some 30\<rparr>, snd st)" "usable (''Entry_Minutes_After_Open_Max'', JNum ''30'')"
    using f n by (simp_all add: decode_into_def usable_def)
qed

theorem filters_request_spec_witness:
  "EntryMaxAfterOpen (Filters (fst (handleFilters sample_host (sample_request ''POST'' ''/api/filters'')
     (New 0 loaded_config [])))) = 30"
proof -
  let ?s = "New 0 loaded_config []" and ?r = "sample_request ''POST'' ''/api/filters''"
  define p where "p = empty_patch\<lparr>p_EntryMaxAfterOpen := Some (30 :: int)\<rparr>"
  have p: "decode_patch (JObj [(''Entry_Minutes_After_Open_Max'', JNum ''30'')]) = Some p"
    using sample_member(1) [of "(empty_patch, True)"] by (simp add: p_def del: decode_member.simps)
  have v: "validateRuntimeFilters (fst (apply_patch p (Filters ?s))) = None"
    by (simp add: p_def apply_patch_def empty_patch_def Filters_def New_def runtimeFiltersFromConfig_def
        loaded_config_def sample_yaml_def applyDefaults_def zero_config_def validateRuntimeFilters_def
        or_pos_float_def zero_float64_def one_float64_def Let_def)
  have "rq_Method ?r = ''POST''" by (simp add: sample_request_def)
  from filters_request_spec [OF this, of sample_host ?s] sample_member(2) p v
  have "fst (handleFilters sample_host ?r ?s) = ?s\<lparr>filters := fst (apply_patch p (Filters ?s))\<rparr>"
    by (simp add: sample_scan Let_def del: decode_patch.simps)
  then show ?thesis by (simp add: p_def apply_patch_def Filters_def)
qed

section \<open>What a request can change\<close>

definition rest_of ::
  "store \<Rightarrow> config \<times> mode \<times> historic_report option \<times> string \<times> gotime \<times> gotime \<times> string \<times> phase
     \<times> string list \<times> string set \<times> (string \<times> ticker_state) list \<times> event list \<times> (string \<rightharpoonup> bytes)" where
  "rest_of s = (st_cfg s, mode s, historicReport s, sessionID s, historicTargetDateNY s, historicResolvedDateNY s,
     historicNote s, phase s, watchlist s, watchset s, tickers s, events s, audio s)"

lemma handleState_store:
  obtains "fst (handleState h sv now ord r s) = s"
  | a b c x where "fst (handleState h sv now ord r s) = SetTimes a b c x s"
      "IsZero (openTimeNY s) \<or> IsZero (selectionTimeNY s) \<or> IsZero (vwapCutoffNY s) \<or> IsZero (forceExitNY s)"
proof (cases "rq_Method r = ''GET'' \<and>
    (IsZero (openTimeNY s) \<or> IsZero (selectionTimeNY s) \<or> IsZero (vwapCutoffNY s) \<or> IsZero (forceExitNY s))")
  case True
  then show thesis using that(2) by (simp add: handleState_def Times_def Let_def)
next
  case False
  then have "fst (handleState h sv now ord r s) = s" by (auto simp: handleState_def Times_def Let_def)
  then show thesis by (rule that(1))
qed

lemma handleFilters_store:
  obtains "fst (handleFilters h r s) = s"
  | f where "rq_Method r = ''POST''" "fst (handleFilters h r s) = s\<lparr>filters := f\<rparr>" "validateRuntimeFilters f = None"
proof (cases "rq_Method r = ''POST''")
  case False
  then show thesis using that(1) by (simp add: handleFilters_def)
next
  case True
  show thesis using that True handleFilters_post [OF True, of h s] by (auto split: option.splits)
qed

lemma handleHistoricRun_queue:
  assumes "fst (handleHistoricRun h sv r s) = Some d"
  shows "rq_Method r = ''POST''" "Mode s = ModeHistoric"
    "ParseInLocation (sv_loc h sv) (TrimSpace (h_unicode h) (Query_Get r ''date'')) = Some d"
  using assms by (auto simp: handleHistoricRun_def Let_def split: if_splits option.splits)

lemma serve_rest:
  assumes "serve h sv now ord r s = Some (s', q, rep)"
  shows "rest_of s' = rest_of s"
proof -
  have "s' = fst (handleState h sv now ord r s) \<or> s' = fst (handleFilters h r s) \<or> s' = s"
    using assms unfolding serve_def by (cases "route (rq_Path r)") (auto split: prod.splits)
  moreover have "rest_of (fst (handleState h sv now ord r s)) = rest_of s"
    by (rule handleState_store [of h sv now ord r s]) (simp_all add: rest_of_def SetTimes_def)
  moreover have "rest_of (fst (handleFilters h r s)) = rest_of s"
    by (rule handleFilters_store [of h r s]) (simp_all add: rest_of_def)
  ultimately show ?thesis by metis
qed

text \<open>C37. No request touches the trading state: serving one changes at most the filters (a POST to
  \<open>/api/filters\<close>, and valid filters stay valid) and session times that were not set yet, and queues a date
  only for a POST with a date that parses, in historic mode.\<close>

theorem request_effect:
  assumes "serve h sv now ord r s = Some (s', q, rep)"
  shows "rest_of s' = rest_of s
    \<and> (Filters s' \<noteq> Filters s \<longrightarrow> rq_Method r = ''POST'' \<and> rq_Path r = ''/api/filters'' \<and>
         validateRuntimeFilters (Filters s') = None)
    \<and> (Times s' \<noteq> Times s \<longrightarrow> rq_Path r = ''/api/state'' \<and>
         (IsZero (openTimeNY s) \<or> IsZero (selectionTimeNY s) \<or> IsZero (vwapCutoffNY s) \<or> IsZero (forceExitNY s)))
    \<and> (\<forall>d. q = Some d \<longrightarrow> rq_Method r = ''POST'' \<and> Mode s = ModeHistoric
         \<and> ParseInLocation (sv_loc h sv) (TrimSpace (h_unicode h) (Query_Get r ''date'')) = Some d)"
proof -
  consider (state) "route (rq_Path r) = EState" | (filters) "route (rq_Path r) = EFilters"
    | (run) "route (rq_Path r) = EHistoricRun"
    | (rest) "route (rq_Path r) \<notin> {EState, EFilters, EHistoricRun}" by blast
  then show ?thesis
  proof cases
    case state
    then have p: "rq_Path r = ''/api/state''" by (auto simp: route_def split: if_splits)
    from assms state have s': "s' = fst (handleState h sv now ord r s)" "q = None"
      by (auto simp: serve_def split: prod.splits)
    show ?thesis
      by (rule handleState_store [of h sv now ord r s])
        (simp_all add: s' p rest_of_def SetTimes_def Filters_def)
  next
    case filters
    then have p: "rq_Path r = ''/api/filters''" by (auto simp: route_def split: if_splits)
    from assms filters have s': "s' = fst (handleFilters h r s)" "q = None"
      by (auto simp: serve_def split: prod.splits)
    show ?thesis
      by (rule handleFilters_store [of h r s]) (simp_all add: s' p rest_of_def Filters_def Times_def)
  next
    case run
    with assms have s': "s' = s" "q = fst (handleHistoricRun h sv r s)"
      by (auto simp: serve_def split: prod.splits)
    show ?thesis unfolding s' using handleHistoricRun_queue [of h sv r s] by simp
  next
    case rest
    with assms have s': "s' = s" "q = None" by (auto simp: serve_def split: endpoint.splits)
    show ?thesis unfolding s' by simp
  qed
qed

theorem request_effect_witness:
  "\<exists>s' q rep. serve sample_host sample_server 0 id (sample_request ''POST'' ''/api/filters'') (New 0 loaded_config [''A'']) =
     Some (s', q, rep) \<and> watchlist s' = [''A''] \<and> phase s' = PhaseWaitingOpen"
proof -
  let ?s = "New 0 loaded_config [''A'']" and ?r = "sample_request ''POST'' ''/api/filters''"
  have "route ''/api/filters'' = EFilters" by (simp add: route_def)
  then obtain s' q rep where r: "serve sample_host sample_server 0 id ?r ?s = Some (s', q, rep)"
    by (cases "handleFilters sample_host ?r ?s") (simp add: serve_def sample_request_def)
  from request_effect [OF r] have "rest_of s' = rest_of ?s" by blast
  with r show ?thesis by (simp add: rest_of_def New_def)
qed

section \<open>Dates\<close>

text \<open>C38. Dates round trip between the page and the server, in a zone whose midnights all exist: the day a
  chart request is about and the day a historic run is queued for print back as the text the request
  carried, and the date the server prints for a moment of the years 0 to 9999, sent back in a request, is
  accepted and names that moment's day.\<close>

theorem request_date_roundtrip:
  assumes "full_days (sv_loc h sv)"
  shows "(request_day h sv now r = Some day \<and> TrimSpace (h_unicode h) (Query_Get r ''date'') \<noteq> [] \<longrightarrow>
         fmt_ymd (sv_loc h sv) day = TrimSpace (h_unicode h) (Query_Get r ''date''))
    \<and> (fst (handleHistoricRun h sv r s) = Some day \<longrightarrow>
         fmt_ymd (sv_loc h sv) day = TrimSpace (h_unicode h) (Query_Get r ''date''))
    \<and> (civil (sv_loc h sv) t = (y, m, d) \<and> 0 \<le> y \<and> y \<le> 9999
         \<and> TrimSpace (h_unicode h) (Query_Get r ''date'') = fmt_ymd (sv_loc h sv) t \<longrightarrow>
         request_day h sv now r = Some (dateOnlyInLoc (sv_loc h sv) t)
         \<and> (rq_Method r = ''POST'' \<and> Mode s = ModeHistoric \<longrightarrow>
              fst (handleHistoricRun h sv r s) = Some (dateOnlyInLoc (sv_loc h sv) t)))"
  using parse_then_format [OF _ assms] format_then_parse [of "sv_loc h sv" t y m d] fmt_ymd_nonempty [of "sv_loc h sv" t]
  by (auto simp: request_day_def handleHistoricRun_def Let_def split: if_splits option.splits)

theorem request_date_roundtrip_witness:
  "request_day sample_host sample_server 5
     ((sample_request ''GET'' ''/api/chart/bars'')\<lparr>rq_Query := [(''date'', ''1970-01-01'')]\<rparr>) = Some 0"
proof -
  let ?r = "(sample_request ''GET'' ''/api/chart/bars'')\<lparr>rq_Query := [(''date'', ''1970-01-01'')]\<rparr>"
  have z: "sv_loc sample_host sample_server = fixed_zone 0"
    by (simp add: sv_loc_def mustLoc_def sample_host_def)
  have f: "fmt_ymd (fixed_zone 0) 0 = ''1970-01-01''" and c: "civil (fixed_zone 0) 0 = (1970, 1, 1)"
    and d: "dateOnlyInLoc (fixed_zone 0) 0 = 0" by code_simp+
  have "TrimSpace (h_unicode sample_host) ''1970-01-01'' = ''1970-01-01''" by code_simp
  then have q: "TrimSpace (h_unicode sample_host) (Query_Get ?r ''date'') = fmt_ymd (fixed_zone 0) 0"
    by (simp add: Query_Get_def f)
  have "full_days (sv_loc sample_host sample_server)" by (simp only: z full_days_fixed)
  note rt = request_date_roundtrip [OF this, of 5 ?r _ _ 0 1970 1 1, unfolded z, THEN conjunct2, THEN conjunct2]
  have "request_day sample_host sample_server 5 ?r = Some (dateOnlyInLoc (fixed_zone 0) 0)"
    by (rule rt [rule_format, THEN conjunct1]) (use c q in simp)
  then show ?thesis by (simp only: d)
qed

section \<open>Blank replies\<close>

text \<open>A configuration in which upper limits are infinite, at least one of four, and nothing else has changed.\<close>

definition raised :: "filters_config \<Rightarrow> filters_config \<Rightarrow> bool" where
  "raised f g \<longleftrightarrow>
     (\<exists>r v t p. g = f\<lparr>cf_Open5mRangePctMax := r, cf_Open5mVolMax := v, cf_Open5mTodayPctMax := t, cf_EntryPriceMax := p\<rparr>
        \<and> r \<in> {cf_Open5mRangePctMax f, PInf} \<and> v \<in> {cf_Open5mVolMax f, PInf} \<and> t \<in> {cf_Open5mTodayPctMax f, PInf}
        \<and> p \<in> {cf_EntryPriceMax f, PInf} \<and> PInf \<in> {r, v, t, p})"

definition unlimited :: "runtime_filters \<Rightarrow> bool" where
  "unlimited f \<longleftrightarrow> PInf \<in> {Open5mRangePctMax f, Open5mVolMax f, Open5mTodayPctMax f, EntryPriceMax f}"

lemma above_PInf [simp]: "\<not> PInf < x" "\<not> PInf \<le> 0"
  by (cases x) (simp_all add: zero_float64_def)

lemma raised_validates:
  assumes "validate (applyDefaults y) = None" and "raised (cfg_Filters y) g"
  shows "validate (applyDefaults (y\<lparr>cfg_Filters := g\<rparr>)) = None"
    and "unlimited (Filters (New now (applyDefaults (y\<lparr>cfg_Filters := g\<rparr>)) wl))"
proof -
  obtain r v t p where g: "g = (cfg_Filters y)\<lparr>cf_Open5mRangePctMax := r, cf_Open5mVolMax := v, cf_Open5mTodayPctMax := t,
      cf_EntryPriceMax := p\<rparr>" "r \<in> {cf_Open5mRangePctMax (cfg_Filters y), PInf}" "v \<in> {cf_Open5mVolMax (cfg_Filters y), PInf}"
    "p \<in> {cf_EntryPriceMax (cfg_Filters y), PInf}" "PInf \<in> {r, v, t, p}"
    using assms(2) by (auto simp: raised_def)
  have "\<not> r \<le> 0" "\<not> r < cf_Open5mRangePctMin (cfg_Filters y)" "\<not> v < cf_Open5mVolMin (cfg_Filters y)"
    "\<not> p < cf_EntryPriceMin (cfg_Filters y)"
    using assms(1) g(2-4) by (auto simp: validate_None_iff applyDefaults_def Let_def)
  with assms(1) show "validate (applyDefaults (y\<lparr>cfg_Filters := g\<rparr>)) = None"
    by (simp add: validate_None_iff applyDefaults_def g(1) Let_def)
  show "unlimited (Filters (New now (applyDefaults (y\<lparr>cfg_Filters := g\<rparr>)) wl))"
    using g(5) by (simp add: unlimited_def Filters_def New_def runtimeFiltersFromConfig_def applyDefaults_def g(1) Let_def)
qed

lemma unlimited_blank:
  assumes "unlimited (Filters s)" and "rq_Method r = ''GET''"
  shows "rs_Body (snd (handleState h sv now ord r s)) = NoBody \<and> rs_Status (snd (handleState h sv now ord r s)) = 200
    \<and> snd (handleFilters h r s) = \<lparr>rs_Status = 200, rs_Type = ''application/json'', rs_Body = NoBody\<rparr>"
proof -
  have "\<not> list_all is_fin (filter_floats (Filters s))" using assms(1) by (auto simp: unlimited_def filter_floats_def)
  moreover have "sn_Filters (Snapshot loc ord now' s') = Filters s'" for loc now' s'
    by (simp add: Snapshot_def Filters_def)
  moreover have "Filters (SetTimes a b c x s) = Filters s" for a b c x by (simp add: Filters_def SetTimes_def)
  ultimately show ?thesis
    using assms(2) by (auto simp: handleState_def handleFilters_def write_json_def Encode_def Let_def split: prod.splits)
qed

lemma unlimited_patch:
  assumes "unlimited (Filters s)" and "p_Open5mRangePctMax p = None" "p_Open5mVolMax p = None" "p_Open5mTodayPctMax p = None"
    "p_EntryPriceMax p = None"
  shows "unlimited (Filters (fst (UpdateFilters (apply_patch p) s)))"
  using assms by (auto simp: unlimited_def UpdateFilters_def apply_patch_def Filters_def Let_def split: option.splits)

text \<open>C40. An infinite upper limit blanks the server. Take a configuration file that loads and write \<open>.inf\<close> for one or more of
  the maxima of range, volume, today-percentage and entry price: it still loads, and the process starts with the
  infinite limit. No JSON can hold that, so while one of these maxima is infinite every GET of \<open>/api/state\<close>
  and \<open>/api/filters\<close> is answered with status 200 and an empty body; and a change of the filters that sets none of
  the four leaves it so.\<close>

theorem infinite_limit_blanks_replies:
  assumes "Load ReadFile (\<lambda>_ _. (y, None)) path = (c, None)" and "raised (cfg_Filters y) g"
  shows "\<exists>c'. Load ReadFile (\<lambda>_ _. (y\<lparr>cfg_Filters := g\<rparr>, None)) path = (c', None)
    \<and> unlimited (Filters (SetMode m (New now c' wl)))
    \<and> (\<forall>s h sv now ord r. unlimited (Filters s) \<and> rq_Method r = ''GET'' \<longrightarrow>
         rs_Status (snd (handleState h sv now ord r s)) = 200 \<and> rs_Body (snd (handleState h sv now ord r s)) = NoBody
         \<and> rs_Status (snd (handleFilters h r s)) = 200 \<and> rs_Body (snd (handleFilters h r s)) = NoBody)
    \<and> (\<forall>s p. unlimited (Filters s) \<and> p_Open5mRangePctMax p = None \<and> p_Open5mVolMax p = None
         \<and> p_Open5mTodayPctMax p = None \<and> p_EntryPriceMax p = None \<longrightarrow>
         unlimited (Filters (fst (UpdateFilters (apply_patch p) s))))"
proof -
  let ?c = "applyDefaults (y\<lparr>cfg_Filters := g\<rparr>)"
  have v: "validate (applyDefaults y) = None" and f: "\<exists>b. ReadFile path = Inr b"
    using assms(1) by (auto simp: Load_def Let_def split: sum.splits)
  note r = raised_validates [OF v assms(2)]
  have "Load ReadFile (\<lambda>_ _. (y\<lparr>cfg_Filters := g\<rparr>, None)) path = (?c, None)"
    using f r(1) by (auto simp: Load_def Let_def)
  moreover have "unlimited (Filters (SetMode m (New now ?c wl)))"
    using r(2) by (simp add: SetMode_def Filters_def)
  ultimately show ?thesis
    using unlimited_blank unlimited_patch by (intro exI [of _ ?c]) simp
qed

theorem infinite_limit_blanks_replies_witness:
  "\<exists>c. Load (\<lambda>_. Inr []) (\<lambda>_ _. ((sample_yaml zero_config)\<lparr>cfg_Filters :=
        (cfg_Filters (sample_yaml zero_config))\<lparr>cf_Open5mVolMax := PInf\<rparr>\<rparr>, None)) ''config.yaml'' = (c, None)
    \<and> rs_Body (snd (handleFilters sample_host (sample_request ''GET'' ''/api/filters'') (SetMode ModeRealtime (New 0 c [''A''])))) = NoBody"
proof -
  let ?f = "cfg_Filters (sample_yaml zero_config)"
  have "Load (\<lambda>_. Inr []) (\<lambda>_ _. (sample_yaml zero_config, None)) ''config.yaml'' = (loaded_config, None)"
    using loaded_ok(1) by (simp add: Load_def loaded_config_def Let_def)
  moreover have "raised ?f (?f\<lparr>cf_Open5mVolMax := PInf\<rparr>)"
    unfolding raised_def
    by (rule exI [of _ "cf_Open5mRangePctMax ?f"], rule exI [of _ PInf], rule exI [of _ "cf_Open5mTodayPctMax ?f"],
        rule exI [of _ "cf_EntryPriceMax ?f"]) simp
  moreover have "rq_Method (sample_request ''GET'' ''/api/filters'') = ''GET''" by (simp add: sample_request_def)
  ultimately show ?thesis
    using infinite_limit_blanks_replies [of "\<lambda>_. Inr []" "sample_yaml zero_config" "''config.yaml''" loaded_config
        "?f\<lparr>cf_Open5mVolMax := PInf\<rparr>" ModeRealtime 0 "[''A'']"] by blast
qed

section \<open>The chart\<close>

lemma listBars_times:
  assumes "listBars r symb a b = Inr bars"
  shows "sorted_wrt (<) (map cb_Time bars)" and "\<forall>x \<in> set bars. Unix a \<le> cb_Time x"
proof -
  obtain items where "bars = bar_loop a 0 items"
    using assms by (auto simp: listBars_def Let_def split: prod.splits option.splits)
  with bar_loop_times(1,2) [of a 0 items] show "sorted_wrt (<) (map cb_Time bars)"
    and "\<forall>x \<in> set bars. Unix a \<le> cb_Time x" by auto
qed

lemma Unix_minute_before: "Unix (t + - 1 * minute_ns) = Unix t - 60"
proof -
  have "t + - 1 * minute_ns + int 1 * minute_ns = t" by simp
  with Unix_minutes [of "t + - 1 * minute_ns" 1] show ?thesis by simp
qed

lemma request_day_midnight:
  assumes "full_days (sv_loc h sv)" and "request_day h sv now r = Some dayNY"
  shows "dayNY = midnight (sv_loc h sv) (local_day (sv_loc h sv) dayNY)"
proof -
  obtain t where "dayNY = dateOnlyInLoc (sv_loc h sv) t" using assms(2) by (auto simp: request_day_def Let_def)
  then show ?thesis by (simp add: dateOnlyInLoc_midnight midnight_local(1) [OF assms(1)])
qed

text \<open>
  What the bars of a chart are, for the day \<open>n\<close>: the bars of the session, preceded by at most one bar, the
  last one of the closing minute of an earlier day that is no Sunday, drawn one minute before the open; no
  weekday between that day and the session has one, at least of the fifteen days before; and there is none only when
  no weekday of those fifteen days has one.
\<close>

definition chart_of :: "rest \<Rightarrow> string \<Rightarrow> zone \<Rightarrow> int \<Rightarrow> gotime \<Rightarrow> chartBar list \<Rightarrow> chartBarsResp \<Rightarrow> bool" where
  "chart_of rc symb z n openNY bars resp \<longleftrightarrow>
     (cr_Bars resp = bars \<and> cr_PrevCloseDateNY resp = []
        \<and> (\<forall>k. weekday k \<and> n - 15 \<le> k \<and> k < n \<longrightarrow> close_day rc symb z k = []))
     \<or> (\<exists>m < n. Weekday m \<noteq> Sunday \<and> close_day rc symb z m \<noteq> [] \<and> cr_PrevCloseDateNY resp = fmt_ymd z (midnight z m)
          \<and> cr_Bars resp = (last (close_day rc symb z m))\<lparr>cb_Time := Unix openNY - 60\<rparr> # bars
          \<and> (\<forall>k. weekday k \<and> m < k \<and> k < n \<and> n - 15 \<le> k \<longrightarrow> close_day rc symb z k = []))"

text \<open>From a Sunday the loops that skip the weekend stop at the Saturday, which is probed first on a Monday.\<close>

lemma saturday_probed:
  assumes "Weekday n = 1"
  shows "hd (prev_days 15 (n - 1)) = n - 2" and "Weekday (n - 2) = Saturday"
proof -
  have "(n + 4) mod 7 = 1" using assms by (simp add: Weekday_def)
  then have d: "(n - 1 + 4) mod 7 = 0" "(n - 2 + 4) mod 7 = 6" by presburger+
  then show "Weekday (n - 2) = Saturday" by (simp add: Weekday_def Saturday_def)
  have "probed (n - 1) = n - 2" using d(1) by (simp add: probed_def Weekday_def Sunday_def)
  then show "hd (prev_days 15 (n - 1)) = n - 2" by (simp add: numeral_eq_Suc)
qed

lemma chart_of_sorted:
  assumes "chart_of rc symb z n openNY bars resp" and "listBars rc symb openNY endNY = Inr bars"
  shows "sorted_wrt (<) (map cb_Time (cr_Bars resp))"
proof -
  note t = listBars_times [OF assms(2)]
  consider "cr_Bars resp = bars" | b where "cr_Bars resp = b\<lparr>cb_Time := Unix openNY - 60\<rparr> # bars"
    using assms(1) by (auto simp: chart_of_def)
  then show ?thesis using t by cases auto
qed

text \<open>C23. The chart of a day, on a server with an API key, in a zone that has every midnight, when the bars of the
  session can be fetched: the handler returns, and the bars are those of the session, preceded, one minute before the
  open, by the last bar of the closing minute of an earlier day: one such that no weekday after it and before the
  session has bars in its closing minute. The search tries at most fifteen days, so it covers the weekdays of
  the fifteen days before the session; a day whose bars cannot be fetched counts as one without; and the
  day found is no Sunday, but may be a Saturday, which is tried where the search reaches a Sunday. The times are
  strictly increasing.\<close>

theorem chart_bars_spec:
  assumes "full_days (sv_loc h sv)" and "rq_Method r = ''GET''" and "h_apiKey h \<noteq> []"
    and "normalize (h_unicode h) (Query_Get r ''symbol'') = symb" and "symb \<noteq> []"
    and "request_day h sv now r = Some dayNY"
    and "listBars (h_rest h (h_apiKey h)) symb (atTimeInLoc dayNY (OpenTime (cfg_Market (sv_cfg sv))) (sv_loc h sv))
      (atTimeInLoc dayNY (ForceExitTime (cfg_Market (sv_cfg sv))) (sv_loc h sv)) = Inr bars"
  shows "\<exists>resp. handleChartBars h sv now r = Some (write_json 200 (PChart resp)) \<and> cr_OK resp \<and> cr_Symbol resp = symb
    \<and> chart_of (h_rest h (h_apiKey h)) symb (sv_loc h sv) (local_day (sv_loc h sv) dayNY)
        (atTimeInLoc dayNY (OpenTime (cfg_Market (sv_cfg sv))) (sv_loc h sv)) bars resp
    \<and> sorted_wrt (<) (map cb_Time (cr_Bars resp))"
proof -
  let ?z = "sv_loc h sv" and ?m = "cfg_Market (sv_cfg sv)" and ?rc = "h_rest h (h_apiKey h)"
  let ?n = "local_day ?z dayNY" and ?open = "atTimeInLoc dayNY (OpenTime ?m) ?z"
  note day = request_day_midnight [OF assms(1,6)]
  obtain prev where p: "prev_loop ?rc symb ?z 15 (AddDays ?z (midnight ?z ?n) (- 1)) = Some prev"
    and some: "\<And>b date. prev = Some (b, date) \<Longrightarrow>
      \<exists>m < ?n. Weekday m \<noteq> Sunday \<and> close_day ?rc symb ?z m \<noteq> [] \<and> b = last (close_day ?rc symb ?z m) \<and> date = fmt_ymd ?z (midnight ?z m)
        \<and> (\<forall>k. weekday k \<and> m < k \<and> k < ?n \<and> ?n - 15 \<le> k \<longrightarrow> close_day ?rc symb ?z k = [])"
    and none: "prev = None \<Longrightarrow> \<forall>k. weekday k \<and> ?n - 15 \<le> k \<and> k < ?n \<longrightarrow> close_day ?rc symb ?z k = []"
    using chart_prev [OF assms(1)] by blast
  define resp where "resp = \<lparr>cr_OK = True, cr_Symbol = symb, cr_DateNY = fmt_ymd ?z dayNY,
    cr_Timezone = Timezone ?m, cr_OpenUnix = Unix ?open, cr_ExitUnix = Unix (atTimeInLoc dayNY (ForceExitTime ?m) ?z),
    cr_PrevCloseDateNY = (case prev of None \<Rightarrow> [] | Some (_, date) \<Rightarrow> date),
    cr_Bars = (case prev of None \<Rightarrow> bars | Some (b, _) \<Rightarrow> b\<lparr>cb_Time := Unix (?open + - 1 * minute_ns)\<rparr> # bars),
    cr_Error = []\<rparr>"
  have "handleChartBars h sv now r = chart_response h sv symb dayNY ?rc"
    using assms(2-6) by (simp add: handleChartBars_def Let_def)
  also have "\<dots> = Some (write_json 200 (PChart resp))"
    using p unfolding chart_response_def Let_def day [symmetric] assms(7) by (simp add: resp_def)
  finally have h: "handleChartBars h sv now r = Some (write_json 200 (PChart resp))" .
  have c: "chart_of ?rc symb ?z ?n ?open bars resp"
  proof (cases prev)
    case None
    with none show ?thesis by (simp add: chart_of_def resp_def)
  next
    case (Some bd)
    obtain b date where bd: "prev = Some (b, date)" using Some by (cases bd) simp
    then have "cr_Bars resp = b\<lparr>cb_Time := Unix ?open - 60\<rparr> # bars" "cr_PrevCloseDateNY resp = date"
      unfolding Unix_minute_before [symmetric] by (simp_all add: resp_def)
    with some [OF bd] show ?thesis unfolding chart_of_def by blast
  qed
  from h c chart_of_sorted [OF c assms(7)] show ?thesis by (auto simp: resp_def)
qed

theorem chart_bars_spec_witness:
  "\<exists>resp. handleChartBars sample_host sample_server 0 (sample_request ''GET'' ''/api/chart/bars'') =
     Some (write_json 200 (PChart resp)) \<and> cr_Symbol resp = ''A''"
proof -
  let ?r = "sample_request ''GET'' ''/api/chart/bars''"
  have loc: "sv_loc sample_host sample_server = fixed_zone 0"
    by (simp add: sv_loc_def mustLoc_def sample_host_def)
  have symb: "normalize (h_unicode sample_host) (Query_Get ?r ''symbol'') = ''A''"
    by (simp add: sample_host_def sample_request_def Query_Get_def) code_simp
  have day: "request_day sample_host sample_server 0 ?r = Some (dateOnlyInLoc (fixed_zone 0) 0)"
    by (simp add: request_day_def loc Query_Get_def sample_request_def TrimSpace_def Let_def)
  obtain bars where "listBars (h_rest sample_host (h_apiKey sample_host)) ''A''
      (atTimeInLoc (dateOnlyInLoc (fixed_zone 0) 0) (OpenTime (cfg_Market (sv_cfg sample_server))) (fixed_zone 0))
      (atTimeInLoc (dateOnlyInLoc (fixed_zone 0) 0) (ForceExitTime (cfg_Market (sv_cfg sample_server))) (fixed_zone 0))
      = Inr bars"
    by (simp add: listBars_def sample_host_def probe_rest_def)
  from chart_bars_spec [OF _ _ _ symb _ day, unfolded loc, OF _ _ _ _ this]
  show ?thesis by (auto simp: sample_request_def sample_host_def)
qed

end
