(* ===== verification/Atomic.thy ===== *)
theory Atomic
  imports LiveRun Server_Properties
begin

text \<open>
  The program as calls of the store's methods. Every goroutine of the program, the engine's and the
  handlers', reaches the shared state only through methods that hold the store's mutex for their whole
  body; \<open>store_step\<close> is one such call that writes, with what its callers guarantee: an update of a ticker
  keeps its symbol, tracked states are filed under their symbols. A \<open>silent\<close> step stores no audio, a \<open>steady\<close>
  one does not start a new session. Any interleaving of the goroutines is a path of
  this relation.

  The lemmas show that each operation of the engine and each handler is a path of such calls, so the
  well-formedness they keep holds at every moment of every interleaving.
\<close>

inductive store_step :: "bool \<Rightarrow> bool \<Rightarrow> store \<Rightarrow> store \<Rightarrow> bool" for silent steady :: bool where
  call_UpdateFilters: "store_step silent steady s (fst (UpdateFilters (apply_patch p) s))"
| call_SetHistoricReport: "store_step silent steady s (SetHistoricReport r s)"
| call_Reset: "\<not> steady \<Longrightarrow> store_step silent steady s (fst (ResetForHistoricRun now tgt res msg s))"
| call_SetTimes: "store_step silent steady s (SetTimes a b c x s)"
| call_SetPhase: "store_step silent steady s (SetPhase p s)"
| call_Upsert: "(\<And>t. Symbol t = k \<Longrightarrow> Symbol (f t) = k) \<Longrightarrow> store_step silent steady s (UpsertTicker k f s)"
| call_SetTracked: "distinct (map fst ts) \<Longrightarrow> (\<forall>(k, t) \<in> set ts. Symbol t = k) \<Longrightarrow> store_step silent steady s (SetTrackedTickers ts s)"
| call_StoreAudio: "\<not> silent \<Longrightarrow> store_step silent steady s (StoreAudio i b s)"
| call_AddEvent: "(silent \<Longrightarrow> ev_AudioID ev = []) \<Longrightarrow> store_step silent steady s (AddEvent ev s)"

abbreviation store_steps :: "bool \<Rightarrow> bool \<Rightarrow> store \<Rightarrow> store \<Rightarrow> bool" where
  "store_steps silent steady \<equiv> (store_step silent steady)\<^sup>*\<^sup>*"

section \<open>What every call keeps\<close>

definition wf_store :: "store \<Rightarrow> bool" where
  "wf_store s \<longleftrightarrow> wf_tickers s \<and> wf_events s \<and> watchset s = set (watchlist s)"

lemma wf_store_step: "store_step silent steady s s' \<Longrightarrow> wf_store s \<Longrightarrow> wf_store s' \<and> st_cfg s' = st_cfg s \<and> mode s' = mode s
    \<and> watchlist s' = watchlist s"
proof (induction rule: store_step.induct)
  case (call_UpdateFilters s p)
  from UpdateFilters_cases [of "apply_patch p" s]
  have "\<exists>f. fst (UpdateFilters (apply_patch p) s) = s\<lparr>filters := f\<rparr>" by (metis fst_conv store.surjective store.update_convs(4) Filters_def)
  then show ?case using call_UpdateFilters
    by (auto simp: wf_store_def wf_tickers_def wf_events_def event_cap_def)
next
  case (call_Upsert k f s)
  then show ?case by (simp add: wf_store_def wf_tickers_Upsert frame_simps)
next
  case (call_AddEvent ev s)
  then show ?case by (simp add: wf_store_def wf_events_AddEvent frame_simps)
qed (auto simp: wf_store_def wf_tickers_def wf_events_def event_cap_def frame_simps SetHistoricReport_def
    ResetForHistoricRun_def SetTimes_def SetTrackedTickers_def Let_def)

text \<open>The filters only ever change to valid ones.\<close>

lemma filters_step:
  "store_step silent steady s s' \<Longrightarrow> Filters s' = Filters s \<or> validateRuntimeFilters (Filters s') = None"
proof (induction rule: store_step.induct)
  case (call_UpdateFilters s p)
  from UpdateFilters_cases [of "apply_patch p" s] show ?case by (auto simp: Filters_def)
qed (simp_all add: frame_simps SetHistoricReport_def ResetForHistoricRun_def SetTimes_def SetTrackedTickers_def
    SetPhase_def UpsertTicker_def StoreAudio_def AddEvent_def Filters_def Let_def)

lemma filters_steps:
  "store_steps silent steady s s' \<Longrightarrow> Filters s' = Filters s \<or> validateRuntimeFilters (Filters s') = None"
  by (induction rule: rtranclp_induct) (auto dest: filters_step)

lemma wf_store_steps:
  "store_steps silent steady s s' \<Longrightarrow> wf_store s \<Longrightarrow> wf_store s' \<and> st_cfg s' = st_cfg s \<and> mode s' = mode s \<and> watchlist s' = watchlist s"
  by (induction rule: rtranclp_induct) (auto dest: wf_store_step)

lemma steps_wf_tickers: "store_steps silent steady s s' \<Longrightarrow> wf_store s \<Longrightarrow> wf_tickers s'"
  using wf_store_steps by (auto simp: wf_store_def)

text \<open>Which session the store is in: only the reset of a historic run changes it.\<close>

definition session_tag :: "store \<Rightarrow> string \<times> gotime \<times> gotime \<times> string" where
  "session_tag s = (sessionID s, historicTargetDateNY s, historicResolvedDateNY s, historicNote s)"

lemma session_tag_step: "store_step silent True s s' \<Longrightarrow> session_tag s' = session_tag s"
proof (induction rule: store_step.induct)
  case (call_UpdateFilters s p)
  from UpdateFilters_cases [of "apply_patch p" s] show ?case by (auto simp: session_tag_def)
qed (simp_all add: session_tag_def SetHistoricReport_def SetTimes_def SetPhase_def UpsertTicker_def SetTrackedTickers_def
    StoreAudio_def AddEvent_def Let_def)

lemma session_tag_steps: "store_steps silent True s s' \<Longrightarrow> session_tag s' = session_tag s"
  by (induction rule: rtranclp_induct) (auto dest: session_tag_step)

section \<open>Paths, one call at a time\<close>

text \<open>
  What an operation of an engine contributes to a path is proved for every engine and, where the engine has
  no speech client, for silent paths too. The interface of that client is what the locale assumes of it: a
  silent path needs an engine without one.
\<close>

named_theorems calls \<open>operations that are paths of store calls\<close>

locale quiet_engine =
  fixes silent steady :: bool and e :: engine
  assumes quiet: "silent \<Longrightarrow> e_tts e = None"
begin

lemma ext_call: "store_steps silent steady s a \<Longrightarrow> store_step silent steady a b \<Longrightarrow> store_steps silent steady s b"
  by (rule rtranclp.rtrancl_into_rtrancl)

lemma ext_simple [calls]:
  "store_steps silent steady s a \<Longrightarrow> store_steps silent steady s (SetPhase p a)" "store_steps silent steady s a \<Longrightarrow> store_steps silent steady s (SetTimes t1 t2 t3 t4 a)"
  "store_steps silent steady s a \<Longrightarrow> store_steps silent steady s (SetHistoricReport r a)"
  "store_steps silent steady s a \<Longrightarrow> store_steps silent steady s (fst (UpdateFilters (apply_patch fp) a))"
  by (blast intro: ext_call store_step.intros)+

lemma ext_Reset: "store_steps silent steady s a \<Longrightarrow> \<not> steady
    \<Longrightarrow> store_steps silent steady s (fst (ResetForHistoricRun now tgt res msg a))"
  by (blast intro: ext_call store_step.intros)

lemma ext_upsert: "store_steps silent steady s a \<Longrightarrow> (\<And>t. Symbol t = k \<Longrightarrow> Symbol (f t) = k) \<Longrightarrow> store_steps silent steady s (UpsertTicker k f a)"
  by (blast intro: ext_call store_step.intros)

lemma ext_AddEvent [calls]:
  "store_steps silent steady s a \<Longrightarrow> (silent \<Longrightarrow> ev_AudioID ev = []) \<Longrightarrow> store_steps silent steady s (AddEvent ev a)"
  by (blast intro: ext_call store_step.intros)

lemma ext_StoreAudio: "store_steps silent steady s a \<Longrightarrow> \<not> silent \<Longrightarrow> store_steps silent steady s (StoreAudio i b a)"
  by (blast intro: ext_call store_step.intros)

lemma ext_tracked: "store_steps silent steady s a \<Longrightarrow> distinct (map fst ts) \<Longrightarrow> (\<forall>(k, t) \<in> set ts. Symbol t = k)
    \<Longrightarrow> store_steps silent steady s (SetTrackedTickers ts a)"
  by (blast intro: ext_call store_step.intros)

lemma ext_emit [calls]:
  "store_steps silent steady s a \<Longrightarrow> (silent \<Longrightarrow> i = []) \<Longrightarrow> store_steps silent steady s (emit e t typ k msg i l a)"
  by (simp add: emit_def calls)

lemma ext_info [calls]: "store_steps silent steady s a \<Longrightarrow> store_steps silent steady s (info e t msg a)"
  by (simp add: info_def calls)

lemma say_quiet: "silent \<Longrightarrow> fst (say e t txt a) = []"
  using say_silent quiet by simp

lemma ext_say [calls]: "store_steps silent steady s a \<Longrightarrow> store_steps silent steady s (snd (say e t txt a))"
  using quiet by (auto simp: say_def split: option.splits sum.splits prod.splits intro: ext_StoreAudio)

lemma ext_fold:
  assumes "\<And>x a. store_steps silent steady s a \<Longrightarrow> store_steps silent steady s (f x a)" and "store_steps silent steady s a"
  shows "store_steps silent steady s (fold f xs a)"
  using assms(2) by (induction xs arbitrary: a) (simp_all add: assms(1))

lemma ext_fold_fst:
  assumes "\<And>x p. store_steps silent steady s (fst p) \<Longrightarrow> store_steps silent steady s (fst (f x p))" and "store_steps silent steady s (fst p)"
  shows "store_steps silent steady s (fst (fold f xs p))"
  using assms(2) by (induction xs arbitrary: p) (simp_all add: assms(1))

section \<open>Trades and bars\<close>

lemma Symbol_kept [simp]:
  "Symbol (entered e u m p t) = Symbol t" "Symbol (exited u m r p t) = Symbol t"
  "Symbol (trade_update u m p z t) = Symbol t"
  "Symbol (onMinuteBar h b t) = Symbol t" "Symbol (select_cell t) = Symbol t"
  "Symbol (collect_cell x t) = Symbol t" "Symbol (correct_cell x t) = Symbol t"
  by (simp_all add: entered_def exited_def mark_cross_def trade_update_def vwap_update_def track_excursion_def
      onMinuteBar_def select_cell_def collect_cell_def correct_cell_def Let_def)

lemma ext_openPosition [calls]: "store_steps silent steady s a \<Longrightarrow> store_steps silent steady s (openPosition e u k p a)"
  by (simp add: openPosition_def Let_def case_prod_unfold calls ext_upsert say_quiet)

lemma ext_closePosition [calls]: "store_steps silent steady s a \<Longrightarrow> store_steps silent steady s (closePosition e u k r txt p a)"
  by (simp add: closePosition_def Let_def case_prod_unfold calls ext_upsert say_quiet)

lemma ext_act_on_trade [calls]: "store_steps silent steady s a \<Longrightarrow> store_steps silent steady s (act_on_trade e o9 se cu u m k p al ts a)"
  by (simp add: act_on_trade_def manage_position_def Let_def calls ext_upsert)

lemma ext_processTrade [calls]: "store_steps silent steady s a \<Longrightarrow> store_steps silent steady s (processTrade e o9 se cu ex k ms p z al a)"
  by (simp add: processTrade_def Let_def calls ext_upsert split: option.splits)

lemma ext_onTrade [calls]: "store_steps silent steady s a \<Longrightarrow> store_steps silent steady s (onTrade e o9 se cu ex tr a)"
  by (simp add: onTrade_def calls)

lemma ext_close_if_open [calls]: "store_steps silent steady s a \<Longrightarrow> store_steps silent steady s (close_if_open e u l k a)"
  by (simp add: close_if_open_def calls split: option.splits)

lemma ext_onElevenAM [calls]: "store_steps silent steady s a \<Longrightarrow> store_steps silent steady s (onElevenAM e u a)"
  by (simp add: onElevenAM_def Let_def case_prod_unfold) (rule ext_fold; simp add: calls say_quiet)

lemma ext_closeAll [calls]: "store_steps silent steady s a \<Longrightarrow> store_steps silent steady s (closeAllOpenPositionsAt e u a)"
  by (simp add: closeAllOpenPositionsAt_def) (rule ext_fold; simp add: calls)

lemma ext_onMinuteAgg [calls]: "store_steps silent steady s a \<Longrightarrow> store_steps silent steady s (onMinuteAgg e o9 se b a)"
  by (simp add: onMinuteAgg_eq ext_upsert)

lemma ext_collect_bars [calls]: "store_steps silent steady s a \<Longrightarrow> store_steps silent steady s (collect_bars e now o9 se ms a)"
  by (induction ms arbitrary: a) (simp_all add: calls split: ws_msg.splits option.splits)

lemma ext_track_msgs [calls]: "store_steps silent steady s a \<Longrightarrow> store_steps silent steady s (fst (track_msgs e w evs a))"
proof (cases w)
  case (fields o9 se cu ex)
  show "store_steps silent steady s a \<Longrightarrow> store_steps silent steady s (fst (track_msgs e w evs a))"
    unfolding fields by (induction evs arbitrary: a) (simp_all add: calls split: live_event.splits ws_msg.splits option.splits)
qed

lemma ext_select [calls]: "store_steps silent steady s a \<Longrightarrow> store_steps silent steady s (fst (selectCandidatesAt0935 e now a))"
proof -
  have one: "store_steps silent steady s (fst (select_one f k p))" if "store_steps silent steady s (fst p)" for f k p
    using that by (cases p) (simp add: select_one_eq ext_upsert)
  assume "store_steps silent steady s a"
  then show ?thesis
    by (simp add: selectCandidatesAt0935_def Let_def case_prod_unfold) (rule ext_fold_fst; simp add: one calls)
qed

section \<open>Historic collection and tracked states\<close>

lemma ext_collect_rest [calls]: "store_steps silent steady s a \<Longrightarrow> store_steps silent steady s (collectOpen5mViaREST arr r o9 se a)"
  unfolding collectOpen5mViaREST_def
proof (rule ext_fold)
  fix x :: "string \<times> metrics fetch" and a
  assume "store_steps silent steady s a"
  then show "store_steps silent steady s (collect_result x a)"
    by (cases x) (simp add: collect_result_eq ext_upsert split: option.splits)
qed

lemma ext_correct [calls]: "store_steps silent steady s a \<Longrightarrow> store_steps silent steady s (fst (correctCandidatesOpen5mViaREST arr r o9 se cs a))"
proof -
  assume a: "store_steps silent steady s a"
  have one: "store_steps silent steady s (fst (correct_result f x p))" if "store_steps silent steady s (fst p)" for f x p
    using that by (cases x; cases p) (simp add: correct_result_eq ext_upsert split: option.splits)
  show ?thesis
    using a by (simp add: correctCandidatesOpen5mViaREST_def case_prod_unfold) (intro impI ext_fold_fst; simp add: one)
qed

definition good_states :: "(string \<times> ticker_state) list \<Rightarrow> bool" where
  "good_states ts \<longleftrightarrow> distinct (map fst ts) \<and> (\<forall>k t. map_of ts k = Some t \<longrightarrow> Symbol t = k)"

lemma good_statesD: "good_states ts \<Longrightarrow> distinct (map fst ts) \<and> (\<forall>(k, t) \<in> set ts. Symbol t = k)"
  by (auto simp: good_states_def)

lemma good_update: "good_states ts \<Longrightarrow> Symbol t = k \<Longrightarrow> good_states (AList.update k t ts)"
  by (auto simp: good_states_def distinct_update update_conv')

lemma good_symbol: "good_states ts \<Longrightarrow> map_of ts k = Some t \<Longrightarrow> Symbol t = k"
  by (simp add: good_states_def)

lemma Symbol_seed_trade [simp]: "Symbol (seed_trade c tr t) = Symbol t"
  by (simp add: seed_trade_def vwap_update_def Let_def)

lemma Symbol_seed_loop: "Symbol (fst (seed_loop cancel c i trs t)) = Symbol t"
  by (induction trs arbitrary: i t) (simp_all split: option.splits)

lemma Symbol_seed [simp]: "Symbol (fst (seedVWAPFromTrades cancel r k a b t)) = Symbol t"
proof -
  obtain items err where l: "ListTrades r k a b = (items, err)" by fastforce
  obtain t' e' where "seed_loop cancel (a + 1 * minute_ns) 0 items t = (t', e')" by fastforce
  with Symbol_seed_loop [of cancel "a + 1 * minute_ns" 0 items t] l show ?thesis
    by (simp add: seedVWAPFromTrades_def split: option.splits)
qed

lemma good_shallow: "wf_tickers s \<Longrightarrow> good_states (shallow_states cs s)"
proof -
  assume wf: "wf_tickers s"
  have "Symbol t = k" if "GetTicker s k = Some t" for k t
    using wf that by (auto simp: wf_tickers_def GetTicker_def dest: map_of_SomeD)
  then have "good_states tr \<Longrightarrow> good_states (fold (\<lambda>symb tracked. case GetTicker s symb of None \<Rightarrow> tracked
      | Some t \<Rightarrow> AList.update symb (t\<lparr>Status := ''tracking''\<rparr>) tracked) cs tr)" for tr
    by (induction cs arbitrary: tr) (simp_all add: good_update split: option.splits)
  from this [of "[]"] show ?thesis by (simp add: shallow_states_def good_states_def)
qed

lemma history_steps:
  "good_states (fst p) \<Longrightarrow> store_steps silent steady s (snd p)
    \<Longrightarrow> good_states (fst (apply_history e now x p)) \<and> store_steps silent steady s (snd (apply_history e now x p))"
  by (cases "(e, now, x, p)" rule: apply_history.cases)
    (simp_all add: calls good_update good_symbol split: option.splits)

lemma seed_steps:
  assumes "good_states (fst p)" and "store_steps silent steady s (snd p)"
  shows "good_states (fst (seed_one e now cancel r o9 se k p)) \<and> store_steps silent steady s (snd (seed_one e now cancel r o9 se k p))"
proof (cases "map_of (fst p) k")
  case None
  with assms show ?thesis by (cases p) simp
next
  case (Some t)
  with assms(1) have "Symbol (fst (seedVWAPFromTrades (cancel k) r k o9 se t)) = k" by (simp add: good_states_def)
  with Some assms show ?thesis
    by (cases p; cases "seedVWAPFromTrades (cancel k) r k o9 se t")
      (simp add: calls good_update split: option.splits)
qed

lemma put_back_steps:
  assumes "good_states tracked" and "store_steps silent steady s a"
  shows "store_steps silent steady s (put_back ord tracked a)"
  unfolding put_back_def using _ assms(2)
proof (rule ext_fold)
  fix k a assume "store_steps silent steady s a"
  then show "store_steps silent steady s (case map_of tracked k of None \<Rightarrow> a | Some ts \<Rightarrow> UpsertTicker k (\<lambda>t. ts) a)"
    using assms(1) by (auto simp: good_states_def intro: ext_upsert split: option.splits)
qed

lemma build_steps:
  assumes "wf_tickers a" and "store_steps silent steady s a"
  shows "good_states (fst (buildTrackedStates e now cH cS arr ord r o9 se cs a))
    \<and> store_steps silent steady s (snd (buildTrackedStates e now cH cS arr ord r o9 se cs a))"
proof -
  define p1 where "p1 = fold (apply_history e now)
    (map (\<lambda>k. (k, history_job e (cH k) r o9 a k)) (arr cs)) (shallow_states cs a, a)"
  define p2 where "p2 = fold (seed_one e now cS r o9 se) cs p1"
  have "good_states (fst (fold (apply_history e now) xs p)) \<and> store_steps silent steady s (snd (fold (apply_history e now) xs p))"
    if "good_states (fst p)" "store_steps silent steady s (snd p)" for xs p
    using that by (induction xs arbitrary: p) (simp_all add: history_steps)
  with assms good_shallow have 1: "good_states (fst p1)" "store_steps silent steady s (snd p1)" by (auto simp: p1_def)
  have "good_states (fst (fold (seed_one e now cS r o9 se) xs p)) \<and> store_steps silent steady s (snd (fold (seed_one e now cS r o9 se) xs p))"
    if "good_states (fst p)" "store_steps silent steady s (snd p)" for xs p
    using that by (induction xs arbitrary: p) (simp_all add: seed_steps)
  with 1 have 2: "good_states (fst p2)" "store_steps silent steady s (snd p2)" by (auto simp: p2_def)
  have "buildTrackedStates e now cH cS arr ord r o9 se cs a = (fst p2, put_back ord (fst p2) (snd p2))"
    by (simp add: buildTrackedStates_def Let_def case_prod_unfold p1_def p2_def)
  with 2 put_back_steps show ?thesis by simp
qed

lemma run_tracked_steps:
  assumes "wf_store s" and "store_steps silent steady s a"
  shows "store_steps silent steady s (snd (run_tracked e env o9 se cs a))"
proof -
  obtain tr b where b: "buildTrackedStates e (env_now env) (env_cancel env) (env_cancel env) (env_arrive env)
      (env_ord env) (env_rest env) o9 se cs a = (tr, b)" by fastforce
  from build_steps [OF steps_wf_tickers [OF assms(2,1)] assms(2)] b
  have "good_states tr" "store_steps silent steady s b" by (metis fst_conv, metis snd_conv)
  with good_statesD [of tr] show ?thesis
    by (auto simp: run_tracked_def b intro!: ext_simple(1) ext_tracked)
qed

section \<open>Whole runs\<close>

lemma ext_scan [calls]: "store_steps silent steady s a \<Longrightarrow> store_steps silent steady s (snd (run_scan e env dayNY o9 en ms a))"
  by (simp add: run_scan_def scanSoldOff_def Let_def calls)

lemma ext_replay_trades [calls]: "store_steps silent steady s a \<Longrightarrow> store_steps silent steady s (fst (replay_trades e w act dn i k trs a))"
proof (cases w)
  case (fields o9 se cu ex)
  show "store_steps silent steady s a \<Longrightarrow> store_steps silent steady s (fst (replay_trades e w act dn i k trs a))"
    unfolding fields by (induction trs arbitrary: i a) (simp_all add: calls Let_def)
qed

lemma ext_replay_symbols [calls]: "store_steps silent steady s a \<Longrightarrow> store_steps silent steady s (fst (replay_symbols e env w ks a))"
proof (induction ks arbitrary: a)
  case (Cons k ks)
  obtain o9 se cu en where w: "w = (o9, se, cu, en)" by (cases w)
  obtain items err where l: "ListTrades (env_rest env) k se en = (items, err)" by fastforce
  obtain b dn where r: "replay_trades e w True (env_done env k) 1 k items a = (b, dn)" by fastforce
  have "store_steps silent steady s b" using ext_replay_trades [OF Cons.prems, of w True "env_done env k" 1 k items] r by simp
  with Cons l r w show ?case by (cases dn; cases err) (simp_all add: calls)
qed simp

lemma ext_catch_up [calls]: "store_steps silent steady s a \<Longrightarrow> store_steps silent steady s (fst (catch_up e env w ks a))"
proof (induction ks arbitrary: a)
  case (Cons k ks)
  obtain o9 se cu en where w: "w = (o9, se, cu, en)" by (cases w)
  obtain items err where l: "ListTrades (env_rest env) k se (lv_catchup env) = (items, err)" by fastforce
  obtain b dn where r: "replay_trades e w False (env_done env k) 1 k items a = (b, dn)" by fastforce
  have "store_steps silent steady s b" using ext_replay_trades [OF Cons.prems, of w False "env_done env k" 1 k items] r by simp
  with Cons l r w show ?case by (cases dn) simp_all
qed simp

lemma ext_reports [calls]:
  "store_steps silent steady s a \<Longrightarrow> store_steps silent steady s (replay_report e env dayNY w en ms a)"
  "store_steps silent steady s a \<Longrightarrow> store_steps silent steady s (live_report e env dayNY w en ms a)"
  by (simp_all add: replay_report_def live_report_def Let_def case_prod_unfold calls)

lemma ext_close_session [calls]: "store_steps silent steady s a \<Longrightarrow> store_steps silent steady s (close_session e ex en a)"
  by (simp add: close_session_def Let_def calls)

lemma ext_intros [calls]:
  "store_steps silent steady s a \<Longrightarrow> store_steps silent steady s (replay_intro e env dayNY msg w en a)"
  "store_steps silent steady s a \<Longrightarrow> store_steps silent steady s (run_intro e now w a)"
  "store_steps silent steady s a \<Longrightarrow> store_steps silent steady s (live_none e env txt dayNY w ms a)"
  by (simp_all add: replay_intro_def run_intro_def live_none_def Let_def case_prod_unfold calls)

lemma replay_track_steps:
  assumes "wf_store s" and "store_steps silent steady s a"
  shows "store_steps silent steady s (fst (replay_track e env dayNY w en ms cs a))"
proof -
  obtain o9 se cu ex where w: "w = (o9, se, cu, ex)" by (cases w)
  define a1 where "a1 = info e (env_now env) (''09:35 selection: '' @ show_int (int (length cs))
      @ '' tickers matched opening filters (REST replay continues)'') a"
  obtain tr a2 where t: "run_tracked e env o9 se cs a1 = (tr, a2)" by fastforce
  have "store_steps silent steady s a1" using assms(2) by (simp add: a1_def calls)
  from run_tracked_steps [OF assms(1) this] t have a2: "store_steps silent steady s a2" by (metis snd_conv)
  define ks where "ks = sort (env_ord env (map fst tr))"
  define a3 where "a3 = info e (env_now env)
      (''Replaying trades via REST ('' @ fmt_hms (e_loc e) se @ '' '' @ utf8_arrow @ '' ''
       @ fmt_hms (e_loc e) en @ '') for '' @ show_int (int (length ks)) @ '' tickers...'') a2"
  obtain a4 dn where r: "replay_symbols e env (o9, se, cu, en) ks a3 = (a4, dn)" by fastforce
  have "store_steps silent steady s a3" using a2 by (simp add: a3_def calls)
  from ext_replay_symbols [OF this] r have "store_steps silent steady s a4" by (metis fst_conv)
  then show ?thesis
    unfolding replay_track_def w prod.case Let_def a1_def [symmetric] t ks_def [symmetric] a3_def [symmetric] r
    by (cases dn) (simp_all add: calls)
qed

lemma replay_session_steps:
  assumes "wf_store s" and "store_steps silent steady s a"
  shows "store_steps silent steady s (fst (replay_session e env dayNY msg w en a))"
proof -
  obtain o9 se cu ex where w: "w = (o9, se, cu, ex)" by (cases w)
  define a1 where "a1 = collectOpen5mViaREST (env_arrive env) (env_rest env) o9 se (replay_intro e env dayNY msg (o9, se, cu, ex) en a)"
  obtain a2 cs where sel: "selectCandidatesAt0935 e (env_now env) (SetPhase PhaseSelecting0935 a1) = (a2, cs)" by fastforce
  have "store_steps silent steady s (SetPhase PhaseSelecting0935 a1)" using assms(2) by (simp add: a1_def calls)
  from ext_select [OF this] sel have "store_steps silent steady s a2" by (metis fst_conv)
  then show ?thesis
    unfolding replay_session_def w prod.case Let_def a1_def [symmetric] sel
    by (simp add: calls replay_track_steps [OF assms(1)])
qed

lemma live_track_steps:
  assumes "store_steps silent steady s a"
  shows "store_steps silent steady s (fst (live_track e env dayNY w ms ks a))"
proof -
  obtain o9 se cu ex where w: "w = (o9, se, cu, ex)" by (cases w)
  define a1 where "a1 = info e (env_now env) (''HISTORIC-LIVE: tracking live trades (VWAP cross logic active)'' @ utf8_ellipsis) a"
  obtain a2 r where t: "track_msgs e (o9, se, cu, ex) (lv_events env) a1 = (a2, r)" by fastforce
  have "store_steps silent steady s a1" using assms by (simp add: a1_def calls)
  from ext_track_msgs [OF this] t have "store_steps silent steady s a2" by (metis fst_conv)
  with assms show ?thesis
    unfolding live_track_def w prod.case Let_def a1_def [symmetric] t
    by (cases r) (simp_all add: calls split: option.splits)
qed

lemma live_selected_steps:
  assumes "wf_store s" and "store_steps silent steady s a"
  shows "store_steps silent steady s (fst (live_selected e env dayNY w ms cs a))"
proof -
  obtain o9 se cu ex where w: "w = (o9, se, cu, ex)" by (cases w)
  obtain a1 co where c: "correctCandidatesOpen5mViaREST (env_arrive env) (env_rest env) o9 se cs a = (a1, co)" by fastforce
  from ext_correct [OF assms(2)] c have a1: "store_steps silent steady s a1" by (metis fst_conv)
  define a2 where "a2 = info e (env_now env) (''09:35 selection: '' @ show_int (int (length co))
      @ '' tickers matched (live tracking to 11:00).'') a1"
  obtain tr a3 where t: "run_tracked e env o9 se co a2 = (tr, a3)" by fastforce
  have "store_steps silent steady s a2" using a1 by (simp add: a2_def calls)
  from run_tracked_steps [OF assms(1) this] t have a3: "store_steps silent steady s a3" by (metis snd_conv)
  define ks where "ks = sort (env_ord env (map fst tr))"
  define a4 where "a4 = info e (lv_catchup env)
      (''Catch-up (no actions): replaying trades via REST ('' @ fmt_hms (e_loc e) se
       @ '' '' @ utf8_arrow @ '' '' @ fmt_hms (e_loc e) (lv_catchup env) @ '') for ''
       @ show_int (int (length ks)) @ '' tickers'' @ utf8_ellipsis) a3"
  obtain a5 dn where k: "catch_up e env (o9, se, cu, ex) ks a4 = (a5, dn)" by fastforce
  have "store_steps silent steady s a4" using a3 by (simp add: a4_def calls)
  from ext_catch_up [OF this] k have a5: "store_steps silent steady s a5" by (metis fst_conv)
  show ?thesis
  proof (cases "co = []")
    case True
    then show ?thesis using a1 by (simp add: live_selected_def w c calls)
  next
    case False
    show ?thesis
      unfolding live_selected_def w prod.case Let_def c if_not_P [OF False] a2_def [symmetric] t ks_def [symmetric]
        a4_def [symmetric] k
      using a3 a5 by (cases dn) (simp_all add: live_track_steps)
  qed
qed

lemma live_collect_steps:
  assumes "store_steps silent steady s a" and "live_collect e env w a = Some r"
  shows "case r of Inl x \<Rightarrow> store_steps silent steady s (fst x) | Inr b \<Rightarrow> store_steps silent steady s b"
proof -
  obtain o9 se cu ex where w: "w = (o9, se, cu, ex)" by (cases w)
  show ?thesis
    using assms by (auto simp: live_collect_def w calls Let_def split: if_splits option.splits)
qed

lemma live_today_steps:
  assumes "wf_store s" and "store_steps silent steady s a" and "runHistoricLiveToday e env dayNY w a = Some (s', err)"
  shows "store_steps silent steady s s'"
proof -
  obtain o9 se cu ex where w: "w = (o9, se, cu, ex)" by (cases w)
  define a1 where "a1 = (if lv_start env < o9
      then info e (lv_start env) (''HISTORIC-LIVE: waiting for open at '' @ fmt_hms (e_loc e) o9) (SetPhase PhaseWaitingOpen a)
      else a)"
  have a1: "store_steps silent steady s a1" using assms(2) by (simp add: a1_def calls)
  show ?thesis
  proof (cases "lv_start env < o9 \<and> lv_done_open env")
    case True
    then have "s' = a1" using assms(3) by (simp add: runHistoricLiveToday_def w a1_def Let_def)
    with a1 show ?thesis by simp
  next
    case False
    then obtain r where r: "live_collect e env (o9, se, cu, ex) a1 = Some r"
      using assms(3) unfolding runHistoricLiveToday_def w prod.case Let_def a1_def [symmetric]
      by (auto split: option.splits)
    note c = live_collect_steps [OF a1 r]
    show ?thesis
    proof (cases r)
      case (Inl x)
      with assms(3) r False have "x = (s', err)"
        unfolding runHistoricLiveToday_def w prod.case Let_def a1_def [symmetric] by simp
      with c Inl show ?thesis by simp
    next
      case (Inr b)
      obtain a2 cs where sel: "selectCandidatesAt0935 e (env_now env) (SetPhase PhaseSelecting0935 b) = (a2, cs)"
        by fastforce
      have "store_steps silent steady s (SetPhase PhaseSelecting0935 b)" using c Inr by (simp add: calls)
      from ext_select [OF this] sel have a2: "store_steps silent steady s a2" by (metis fst_conv)
      from assms(3) have "s' = fst (if cs = []
          then (live_none e env ''No tickers matched open_5m filters at 09:35.'' dayNY w (snapshotOpen5mMetricsForWatchlist b) a2, None)
          else live_selected e env dayNY w (snapshotOpen5mMetricsForWatchlist b) cs a2)"
        unfolding runHistoricLiveToday_def w prod.case Let_def a1_def [symmetric] if_not_P [OF False] r Inr
          option.case sum.case sel by simp
      then show ?thesis using a2 live_selected_steps [OF assms(1) a2] by (cases "cs = []") (simp_all add: calls)
    qed
  qed
qed

lemma historic_steps:
  assumes "wf_store s" and "\<not> steady" and "RunHistoricForDate e env day s = Some (s', err)"
  shows "store_steps silent steady s s'"
proof -
  let ?z = "e_loc e"
  obtain r where r: "resolveHistoricSessionDate e (env_date_cancel env) (env_probe_cancel env) (env_rest env)
      (dateOnlyInLoc ?z day) (env_asOf env) s = Some r"
    using assms(3) by (auto simp: RunHistoricForDate_def Let_def split: option.splits)
  show ?thesis
  proof (cases r)
    case (Inl x)
    with assms(3) r show ?thesis by (auto simp: RunHistoricForDate_def Let_def intro!: calls)
  next
    case (Inr dn)
    obtain d msg where dn: "dn = (d, msg)" by (cases dn)
    obtain o9 se cu ex where w: "session_times e d = (o9, se, cu, ex)" by (cases "session_times e d")
    define a where "a = fst (ResetForHistoricRun (env_now env) (dateOnlyInLoc ?z day) d msg s)"
    have a: "store_steps silent steady s a" unfolding a_def by (rule ext_Reset [OF rtranclp.rtrancl_refl assms(2)])
    note run = assms(3) [unfolded RunHistoricForDate_def Let_def r Inr dn option.case sum.case prod.case
        a_def [symmetric] w]
    show ?thesis
    proof (cases "sameDayInLoc ?z d (env_asOf env) \<and> env_asOf env < ex")
      case True
      define a1 where "a1 = info e (env_asOf env)
          (''HISTORIC-LIVE mode: '' @ fmt_ymd ?z d @ '' (live until '' @ fmt_hms ?z ex @ '').'')
          (SetPhase PhaseCollecting5m (SetTimes o9 se cu ex a))"
      define a2 where "a2 = info e (env_asOf env) ''Audio alerts disabled in historic mode.''
          (if msg \<noteq> [] then info e (env_asOf env) msg a1 else a1)"
      have "store_steps silent steady s a2" using a by (simp add: a1_def a2_def calls)
      moreover have "runHistoricLiveToday e env d (o9, se, cu, ex) a2 = Some (s', err)"
        using run unfolding if_P [OF True] a1_def [symmetric] a2_def [symmetric] .
      ultimately show ?thesis by (rule live_today_steps [OF assms(1)])
    next
      case False
      from run [unfolded if_not_P [OF False]] replay_session_steps [OF assms(1) a] show ?thesis
        by (metis fst_conv option.inject)
    qed
  qed
qed

lemma goroutine_steps:
  assumes "wf_store s" and "\<not> steady" and "historic_goroutine loc e env cancelled now day s = Some s'"
  shows "store_steps silent steady s s'"
proof -
  obtain a err where r: "RunHistoricForDate e env (dateOnlyInLoc loc day) s = Some (a, err)"
    using assms(3) by (auto simp: historic_goroutine_def split: option.splits)
  from historic_steps [OF assms(1,2) r] assms(3) r show ?thesis
    by (cases err) (auto simp: historic_goroutine_def intro: calls split: if_splits)
qed

lemma run_selected_steps:
  assumes "wf_store s" and "store_steps silent steady s a"
  shows "store_steps silent steady s (fst (run_selected e env w a))"
proof -
  obtain o9 se cu ex where w: "w = (o9, se, cu, ex)" by (cases w)
  obtain a1 cs where sel: "selectCandidatesAt0935 e (env_now env) (SetPhase PhaseSelecting0935 a) = (a1, cs)" by fastforce
  have "store_steps silent steady s (SetPhase PhaseSelecting0935 a)" using assms(2) by (simp add: calls)
  from ext_select [OF this] sel have a1: "store_steps silent steady s a1" by (metis fst_conv)
  define a2 where "a2 = info e (env_now env) (''09:35 selection: '' @ show_int (int (length cs))
      @ '' tickers matched opening filters (switching to trades)'') a1"
  obtain tr a3 where t: "run_tracked e env o9 se cs a2 = (tr, a3)" by fastforce
  have "store_steps silent steady s a2" using a1 by (simp add: a2_def calls)
  from run_tracked_steps [OF assms(1) this] t have a3: "store_steps silent steady s a3" by (metis snd_conv)
  define a4 where "a4 = info e (env_now env) ''Tracking tick data (trades) for filtered tickers...'' a3"
  obtain a5 r where k: "track_msgs e (o9, se, cu, ex) (lv_events env) a4 = (a5, r)" by fastforce
  have "store_steps silent steady s a4" using a3 by (simp add: a4_def calls)
  from ext_track_msgs [OF this] k have a5: "store_steps silent steady s a5" by (metis fst_conv)
  have "store_steps silent steady s (fst (run_trades e env (o9, se, cu, ex) ks a3))" for ks
    unfolding run_trades_def Let_def a4_def [symmetric] k
    using a3 a5 by (cases r) (simp_all add: calls split: option.splits)
  then show ?thesis
    using a1 unfolding run_selected_def w prod.case Let_def sel a2_def [symmetric] t
    by (cases "cs = []") (simp_all add: calls)
qed

lemma Run_steps:
  assumes "wf_store s" and "Run e env s = Some (s', err)"
  shows "store_steps silent steady s s'"
proof -
  obtain o9 se cu ex where w: "session_times e (lv_start env) = (o9, se, cu, ex)" by (cases "session_times e (lv_start env)")
  define a where "a = run_intro e (lv_start env) (o9, se, cu, ex) s"
  have a: "store_steps silent steady s a" by (simp add: a_def calls)
  define a1 where "a1 = SetPhase PhaseCollecting5m a"
  define a2 where "a2 = collect_bars e (env_now env) o9 se (lv_bars env)
      (info e (env_now env) ''Collecting 09:30-09:34 minute bars for open-5m metrics...'' a1)"
  have a1: "store_steps silent steady s a1" and a2: "store_steps silent steady s a2" using a by (simp_all add: a1_def a2_def calls)
  note run = assms(2) [unfolded Run_def Let_def w prod.case a_def [symmetric] a1_def [symmetric] a2_def [symmetric]]
  show ?thesis
  proof (cases "lv_start env < o9 \<and> lv_done_open env")
    case True
    with run a show ?thesis by simp
  next
    case False
    note run = run [unfolded if_not_P [OF False]]
    obtain x where x: "open_aggs (lv_ToLower env) (lv_ws_aggs env) e (Watchlist a1) = Some x"
      using run by (cases "open_aggs (lv_ToLower env) (lv_ws_aggs env) e (Watchlist a1)") simp_all
    show ?thesis
    proof (cases x)
      case (Some er)
      with run x a1 show ?thesis by simp
    next
      case None
      then have "s' = a2 \<or> s' = fst (run_selected e env (o9, se, cu, ex) a2)"
        using run x by (auto split: if_splits)
      with a2 run_selected_steps [OF assms(1) a2] show ?thesis by auto
    qed
  qed
qed

lemma serve_steps:
  assumes "serve h sv now ord r s = Some (s', q, rep)"
  shows "store_steps silent steady s s'"
proof -
  have "store_steps silent steady s (fst (handleState h sv now ord r s))"
    by (rule handleState_store [of h sv now ord r s]) (simp_all add: calls)
  moreover have "store_steps silent steady s (fst (handleFilters h r s))"
  proof (cases "rq_Method r = ''POST'' \<and> Option.bind (scan_json (rq_Body r)) decode_patch \<noteq> None")
    case True
    then obtain p where p: "Option.bind (scan_json (rq_Body r)) decode_patch = Some p" by blast
    have "fst (handleFilters h r s) = fst (UpdateFilters (apply_patch p) s)"
      using True unfolding handleFilters_def p by (auto split: prod.splits option.splits)
    then show ?thesis by (simp add: calls)
  qed (auto simp: handleFilters_def)
  ultimately show ?thesis using assms by (auto simp: serve_def split: endpoint.splits prod.splits)
qed

end

end
