(* ===== verification/RunQueue.thy ===== *)
theory RunQueue
  imports GoTime "HOL-Library.Multiset"
begin

text \<open>
  The queue of historic runs and its loop (\<open>QueueHistoricRun\<close> and \<open>historicRunLoop\<close> of
  \<open>internal/server/api.go\<close>) as a transition system.

  The channel \<open>histReqC\<close> holds one date. A call of \<open>QueueHistoricRun\<close> makes up to three operations on it
  and any number of calls can be under way, so each operation is a step and the calls are a multiset of
  positions in the function. The loop is at one of five places: waiting in its \<open>select\<close>, waiting for the
  cancelled run, draining the channel, waiting for the run after the context is done, and returned. A run is
  its goroutine, known by the number of its start; \<open>q_cur\<close> is the one whose \<open>cancel\<close> and \<open>doneCh\<close> the loop
  holds. \<open>q_cancelled\<close> are the runs whose context is cancelled: by the loop's call of \<open>cancel\<close>, or with the
  context of the server, from which each is derived, so that a shutdown cancels every run there is and
  a run started after it is cancelled from its start. What a run does to the store is \<open>historic_goroutine\<close> of \<open>Server\<close>; here it is alive until it ends.
  \<open>q_started\<close> records the dates started, for the properties. The mode of the store, which the loop reads
  for each request, is fixed before the server starts, and is a parameter.

  \<open>sys_step\<close> are the steps of the program, \<open>env_step\<close> those of its users: a request begins, the context is
  done. The lemmas are an invariant of the reachable states, a measure that every step of the program
  decreases, and what the program keeps while it serves one request.
\<close>

section \<open>States and steps\<close>

datatype call = Sending gotime | Dropping gotime | Retrying gotime

datatype loop_pc = Ready | Waiting gotime | Draining gotime | Stopping | Stopped

record run_queue =
  q_chan :: "gotime option"
  q_calls :: "call multiset"
  q_pc :: loop_pc
  q_running :: bool
  q_cur :: nat
  q_next :: nat
  q_runs :: "(nat \<times> gotime) list"
  q_cancelled :: "nat set"
  q_started :: "gotime list"
  q_ctx_done :: bool

definition init_queue :: run_queue where
  "init_queue = \<lparr>q_chan = None, q_calls = {#}, q_pc = Ready, q_running = False, q_cur = 0, q_next = 1,
     q_runs = [], q_cancelled = {}, q_started = [], q_ctx_done = False\<rparr>"

definition startRun :: "gotime \<Rightarrow> run_queue \<Rightarrow> run_queue" where
  "startRun day s =
     s\<lparr>q_running := True, q_cur := q_next s, q_next := q_next s + 1,
       q_runs := q_runs s @ [(q_next s, day)], q_started := q_started s @ [day],
       q_cancelled := (if q_ctx_done s then insert (q_next s) (q_cancelled s) else q_cancelled s)\<rparr>"

definition alive :: "nat \<Rightarrow> run_queue \<Rightarrow> bool" where
  "alive i s \<longleftrightarrow> i \<in> fst ` set (q_runs s)"

text \<open>The operations of a call on the channel.\<close>

inductive call_step :: "run_queue \<Rightarrow> run_queue \<Rightarrow> bool" where
  send: "q_calls s = add_mset (Sending d) cs \<Longrightarrow> q_chan s = None
    \<Longrightarrow> call_step s (s\<lparr>q_chan := Some d, q_calls := cs\<rparr>)"
| full: "q_calls s = add_mset (Sending d) cs \<Longrightarrow> q_chan s = Some x
    \<Longrightarrow> call_step s (s\<lparr>q_calls := add_mset (Dropping d) cs\<rparr>)"
| dropped: "q_calls s = add_mset (Dropping d) cs
    \<Longrightarrow> call_step s (s\<lparr>q_chan := None, q_calls := add_mset (Retrying d) cs\<rparr>)"
| resend: "q_calls s = add_mset (Retrying d) cs \<Longrightarrow> q_chan s = None
    \<Longrightarrow> call_step s (s\<lparr>q_chan := Some d, q_calls := cs\<rparr>)"
| give_up: "q_calls s = add_mset (Retrying d) cs \<Longrightarrow> q_chan s = Some x
    \<Longrightarrow> call_step s (s\<lparr>q_calls := cs\<rparr>)"

inductive loop_step :: "bool \<Rightarrow> run_queue \<Rightarrow> run_queue \<Rightarrow> bool" for historic :: bool where
  ignore: "q_pc s = Ready \<Longrightarrow> q_chan s = Some d \<Longrightarrow> \<not> historic \<Longrightarrow> loop_step historic s (s\<lparr>q_chan := None\<rparr>)"
| start: "q_pc s = Ready \<Longrightarrow> q_chan s = Some d \<Longrightarrow> historic \<Longrightarrow> \<not> q_running s
    \<Longrightarrow> loop_step historic s (startRun d (s\<lparr>q_chan := None\<rparr>))"
| replace: "q_pc s = Ready \<Longrightarrow> q_chan s = Some d \<Longrightarrow> historic \<Longrightarrow> q_running s
    \<Longrightarrow> loop_step historic s (s\<lparr>q_chan := None, q_cancelled := insert (q_cur s) (q_cancelled s), q_pc := Waiting d\<rparr>)"
| joined: "q_pc s = Waiting d \<Longrightarrow> \<not> alive (q_cur s) s
    \<Longrightarrow> loop_step historic s (s\<lparr>q_running := False, q_pc := Draining d\<rparr>)"
| drain: "q_pc s = Draining d \<Longrightarrow> q_chan s = Some d' \<Longrightarrow> loop_step historic s (s\<lparr>q_chan := None, q_pc := Draining d'\<rparr>)"
| latest: "q_pc s = Draining d \<Longrightarrow> q_chan s = None \<Longrightarrow> loop_step historic s (startRun d (s\<lparr>q_pc := Ready\<rparr>))"
| stop_running: "q_pc s = Ready \<Longrightarrow> q_ctx_done s \<Longrightarrow> q_running s
    \<Longrightarrow> loop_step historic s (s\<lparr>q_cancelled := insert (q_cur s) (q_cancelled s), q_pc := Stopping\<rparr>)"
| stop_idle: "q_pc s = Ready \<Longrightarrow> q_ctx_done s \<Longrightarrow> \<not> q_running s \<Longrightarrow> loop_step historic s (s\<lparr>q_pc := Stopped\<rparr>)"
| stopped: "q_pc s = Stopping \<Longrightarrow> \<not> alive (q_cur s) s \<Longrightarrow> loop_step historic s (s\<lparr>q_pc := Stopped\<rparr>)"

inductive run_step :: "run_queue \<Rightarrow> run_queue \<Rightarrow> bool" where
  ends: "q_runs s = as @ (i, d) # bs \<Longrightarrow> run_step s (s\<lparr>q_runs := as @ bs\<rparr>)"

definition sys_step :: "bool \<Rightarrow> run_queue \<Rightarrow> run_queue \<Rightarrow> bool" where
  "sys_step historic s s' \<longleftrightarrow> call_step s s' \<or> loop_step historic s s' \<or> run_step s s'"

inductive env_step :: "run_queue \<Rightarrow> run_queue \<Rightarrow> bool" where
  request: "env_step s (s\<lparr>q_calls := add_mset (Sending d) (q_calls s)\<rparr>)"
| shutdown: "env_step s (s\<lparr>q_ctx_done := True, q_cancelled := {1..<q_next s}\<rparr>)"

inductive reachable :: "bool \<Rightarrow> run_queue \<Rightarrow> bool" for historic :: bool where
  init: "reachable historic init_queue"
| sys: "reachable historic s \<Longrightarrow> sys_step historic s s' \<Longrightarrow> reachable historic s'"
| env: "reachable historic s \<Longrightarrow> env_step s s' \<Longrightarrow> reachable historic s'"

inductive_cases call_stepE: "call_step s s'"
inductive_cases loop_stepE: "loop_step historic s s'"
inductive_cases run_stepE: "run_step s s'"
inductive_cases env_stepE: "env_step s s'"

section \<open>The invariant\<close>

text \<open>
  At most the run the loop holds is alive, the loop knows it, and it is the one started last; while the
  loop drains the channel none is alive; the numbers of cancelled runs have been given out, all of them
  once the context is done; until then the current run is cancelled only while the loop waits for it.
\<close>

definition queue_inv :: "run_queue \<Rightarrow> bool" where
  "queue_inv s \<longleftrightarrow>
     (q_runs s = [] \<or> (q_started s \<noteq> [] \<and> q_running s \<and> q_runs s = [(q_cur s, last (q_started s))]))
     \<and> (q_running s \<longrightarrow> q_started s \<noteq> [])
     \<and> (\<forall>d. q_pc s = Draining d \<longrightarrow> q_runs s = [] \<and> \<not> q_running s)
     \<and> (\<forall>d. q_pc s = Waiting d \<longrightarrow> q_running s)
     \<and> (q_pc s = Ready \<and> q_started s \<noteq> [] \<longrightarrow> q_running s)
     \<and> q_cancelled s \<subseteq> {1..<q_next s} \<and> q_cur s < q_next s \<and> (q_started s \<noteq> [] \<longrightarrow> 1 \<le> q_cur s)
     \<and> (q_pc s = Ready \<and> \<not> q_ctx_done s \<longrightarrow> q_cur s \<notin> q_cancelled s)
     \<and> (q_ctx_done s \<longrightarrow> q_cancelled s = {1..<q_next s})"

lemma inv_call: "call_step s s' \<Longrightarrow> queue_inv s \<Longrightarrow> queue_inv s'"
  by (erule call_stepE) (simp_all add: queue_inv_def)

lemma inv_loop: "loop_step historic s s' \<Longrightarrow> queue_inv s \<Longrightarrow> queue_inv s'"
  by (erule loop_stepE) (auto simp: queue_inv_def startRun_def alive_def)

lemma inv_run_step: "run_step s s' \<Longrightarrow> queue_inv s \<Longrightarrow> queue_inv s'"
  by (erule run_stepE) (auto simp: queue_inv_def Cons_eq_append_conv append_eq_Cons_conv)

lemma inv_env: "env_step s s' \<Longrightarrow> queue_inv s \<Longrightarrow> queue_inv s'"
  by (erule env_stepE) (auto simp: queue_inv_def)

lemma inv_sys: "sys_step historic s s' \<Longrightarrow> queue_inv s \<Longrightarrow> queue_inv s'"
  unfolding sys_step_def using inv_call inv_loop inv_run_step by blast

lemma reachable_inv: "reachable historic s \<Longrightarrow> queue_inv s"
proof (induction rule: reachable.induct)
  case init
  then show ?case by (simp add: queue_inv_def init_queue_def)
qed (blast intro: inv_sys inv_env)+

section \<open>Every run of the program ends\<close>

fun call_weight :: "call \<Rightarrow> nat" where
  "call_weight (Sending d) = 7"
| "call_weight (Dropping d) = 6"
| "call_weight (Retrying d) = 5"

fun pc_weight :: "loop_pc \<Rightarrow> nat" where
  "pc_weight Ready = 2"
| "pc_weight (Waiting d) = 5"
| "pc_weight (Draining d) = 4"
| "pc_weight Stopping = 1"
| "pc_weight Stopped = 0"

definition queue_measure :: "run_queue \<Rightarrow> nat" where
  "queue_measure s = (\<Sum>c \<in># q_calls s. call_weight c) + (case q_chan s of None \<Rightarrow> 0 | Some d \<Rightarrow> 4)
     + pc_weight (q_pc s) + length (q_runs s)"

lemma measure_call: "call_step s s' \<Longrightarrow> queue_measure s' < queue_measure s"
  by (erule call_stepE) (auto simp: queue_measure_def split: option.splits)

lemma measure_loop: "loop_step historic s s' \<Longrightarrow> queue_measure s' < queue_measure s"
  by (erule loop_stepE) (auto simp: queue_measure_def startRun_def split: option.splits)

lemma measure_run: "run_step s s' \<Longrightarrow> queue_measure s' < queue_measure s"
  by (erule run_stepE) (auto simp: queue_measure_def)

lemma measure_sys: "sys_step historic s s' \<Longrightarrow> queue_measure s' < queue_measure s"
  unfolding sys_step_def using measure_call measure_loop measure_run by blast

lemma no_infinite_run: "\<not> (\<exists>f. \<forall>i. sys_step historic (f i) (f (Suc i)))"
proof
  assume "\<exists>f. \<forall>i. sys_step historic (f i) (f (Suc i))"
  then obtain f where "\<forall>i. sys_step historic (f i) (f (Suc i))" by blast
  then have "\<forall>i. (f (Suc i), f i) \<in> measure queue_measure" using measure_sys by auto
  then show False using wf_measure [of queue_measure] unfolding wf_iff_no_infinite_down_chain by blast
qed

section \<open>Serving the latest request\<close>

text \<open>The date that will run next, or has run last, when no call is under way.\<close>

definition newest :: "run_queue \<Rightarrow> gotime option" where
  "newest s =
     (case q_chan s of
        Some d \<Rightarrow> Some d
      | None \<Rightarrow>
          (case q_pc s of
             Waiting d \<Rightarrow> Some d
           | Draining d \<Rightarrow> Some d
           | _ \<Rightarrow> if q_started s = [] then None else Some (last (q_started s))))"

text \<open>The call for \<open>d\<close> is the only one under way, or has ended and its date is the newest.\<close>

definition serving :: "gotime \<Rightarrow> run_queue \<Rightarrow> bool" where
  "serving d s \<longleftrightarrow> \<not> q_ctx_done s \<and> q_pc s \<noteq> Stopping \<and> q_pc s \<noteq> Stopped
     \<and> (q_calls s = {#Sending d#} \<or> q_calls s = {#Dropping d#} \<or> q_calls s = {#Retrying d#} \<and> q_chan s = None
        \<or> q_calls s = {#} \<and> newest s = Some d)"

lemma serving_call: "call_step s s' \<Longrightarrow> serving d s \<Longrightarrow> serving d s'"
  by (erule call_stepE) (auto simp: serving_def newest_def)

lemma serving_loop: "loop_step True s s' \<Longrightarrow> serving d s \<Longrightarrow> serving d s'"
  by (erule loop_stepE; cases "q_chan s") (auto simp: serving_def newest_def startRun_def)

lemma serving_run: "run_step s s' \<Longrightarrow> serving d s \<Longrightarrow> serving d s'"
  by (erule run_stepE) (auto simp: serving_def newest_def split: option.splits loop_pc.splits)

lemma serving_steps: "(sys_step True)\<^sup>*\<^sup>* s s' \<Longrightarrow> serving d s \<Longrightarrow> serving d s'"
  by (induction rule: rtranclp_induct) (auto simp: sys_step_def intro: serving_call serving_loop serving_run)

lemma steps_inv: "(sys_step historic)\<^sup>*\<^sup>* s s' \<Longrightarrow> queue_inv s \<Longrightarrow> queue_inv s'"
  by (induction rule: rtranclp_induct) (auto intro: inv_sys)

text \<open>Where the program cannot move, nothing is left to do.\<close>

lemma stuck_idle:
  assumes "\<nexists>s'. sys_step True s s'" and "serving d s"
  shows "q_calls s = {#}" and "q_runs s = []" and "q_pc s = Ready" and "q_chan s = None"
proof -
  have no: "\<not> call_step s s'" "\<not> loop_step True s s'" "\<not> run_step s s'" for s'
    using assms(1) by (auto simp: sys_step_def)
  show runs: "q_runs s = []"
  proof (cases "q_runs s")
    case (Cons r rs)
    then show ?thesis using no(3) run_step.ends [of s "[]" "fst r" "snd r" rs] by auto
  qed simp
  show calls: "q_calls s = {#}"
  proof (cases "q_calls s")
    case (add c cs)
    then show ?thesis
      using no(1) call_step.send [of s _ cs] call_step.full [of s _ cs] call_step.dropped [of s _ cs]
        call_step.resend [of s _ cs] call_step.give_up [of s _ cs]
      by (cases c; cases "q_chan s") blast+
  qed simp
  show pc: "q_pc s = Ready"
  proof (cases "q_pc s")
    case (Waiting x)
    then show ?thesis using no(2) loop_step.joined [of s x True] runs by (auto simp: alive_def)
  next
    case (Draining x)
    then show ?thesis using no(2) loop_step.drain [of s x] loop_step.latest [of s x] by (cases "q_chan s") auto
  qed (use assms(2) in \<open>auto simp: serving_def\<close>)
  show "q_chan s = None"
  proof (cases "q_chan s")
    case (Some x)
    then show ?thesis using no(2) pc loop_step.start [of s x True] loop_step.replace [of s x True] by blast
  qed
qed

section \<open>Properties\<close>

text \<open>C15. One historic run at a time: however calls, the loop, the runs and a shutdown interleave, at most one run
  is alive, it is the one started last and the loop knows it; no run is alive while the loop drains the
  queue; while the loop waits for requests the run it holds has been cancelled exactly when the server's
  context is done; and once that is done every run is cancelled, those started later too.\<close>

theorem one_run_at_a_time:
  assumes "reachable historic s"
  shows "length (q_runs s) \<le> 1
    \<and> (\<forall>i d. (i, d) \<in> set (q_runs s) \<longrightarrow> q_running s \<and> i = q_cur s \<and> d = last (q_started s))
    \<and> (\<forall>d. q_pc s = Draining d \<longrightarrow> q_runs s = [])
    \<and> (q_pc s = Ready \<and> q_running s \<longrightarrow> (q_cur s \<in> q_cancelled s \<longleftrightarrow> q_ctx_done s))
    \<and> (q_ctx_done s \<longrightarrow> (\<forall>i d. (i, d) \<in> set (q_runs s) \<longrightarrow> i \<in> q_cancelled s))"
  using reachable_inv [OF assms] unfolding queue_inv_def by auto

text \<open>C14. The latest request runs: from any reachable state of a server in historic mode that is not shutting
  down, with one request under way, the program cannot run for ever, and wherever it comes to rest it
  has started the requested date last, that run was not cancelled, and nothing is left in the queue.\<close>

theorem latest_request_runs:
  assumes "reachable True s" and "q_calls s = {#Sending d#}" and "\<not> q_ctx_done s"
    and "q_pc s \<noteq> Stopping" and "q_pc s \<noteq> Stopped"
  shows "\<not> (\<exists>f. f 0 = s \<and> (\<forall>i. sys_step True (f i) (f (Suc i))))
    \<and> (\<forall>s'. (sys_step True)\<^sup>*\<^sup>* s s' \<and> \<not> (\<exists>s''. sys_step True s' s'') \<longrightarrow>
         (\<exists>ds. q_started s' = ds @ [d]) \<and> q_cur s' \<notin> q_cancelled s'
         \<and> q_pc s' = Ready \<and> q_chan s' = None \<and> q_calls s' = {#} \<and> q_runs s' = [])"
proof (intro conjI allI impI)
  show "\<not> (\<exists>f. f 0 = s \<and> (\<forall>i. sys_step True (f i) (f (Suc i))))" using no_infinite_run [of True] by blast
next
  fix s' assume s': "(sys_step True)\<^sup>*\<^sup>* s s' \<and> \<not> (\<exists>s''. sys_step True s' s'')"
  have "serving d s" using assms(2-5) by (simp add: serving_def)
  then have srv: "serving d s'" using s' serving_steps by blast
  note idle = stuck_idle [OF conjunct2 [OF s'] srv]
  have inv: "queue_inv s'" using s' steps_inv reachable_inv [OF assms(1)] by blast
  show "q_pc s' = Ready" "q_chan s' = None" "q_calls s' = {#}" "q_runs s' = []" by (rule idle)+
  show "q_cur s' \<notin> q_cancelled s'" using inv idle(3) srv by (simp add: queue_inv_def serving_def)
  have "q_started s' \<noteq> [] \<and> last (q_started s') = d"
    using srv idle by (auto simp: serving_def newest_def split: if_splits)
  then show "\<exists>ds. q_started s' = ds @ [d]" by (metis append_butlast_last_id)
qed

definition requested :: "gotime \<Rightarrow> run_queue" where
  "requested d = init_queue\<lparr>q_calls := {#Sending d#}\<rparr>"

lemma reachable_requested: "reachable historic (requested d)"
  using reachable.env [OF reachable.init env_step.request [of init_queue d]]
  by (simp add: requested_def init_queue_def)

text \<open>A run that is alive, replaced by a second request, and a shutdown after that.\<close>

lemma sample_queue:
  "reachable True (startRun 9 ((startRun 7 (init_queue\<lparr>q_calls := {#Sending 9#}\<rparr>))
     \<lparr>q_calls := {#}, q_runs := [], q_cancelled := {1}, q_running := False, q_pc := Ready\<rparr>))"
proof -
  let ?s0 = "requested 7" and ?s1 = "init_queue\<lparr>q_chan := Some 7\<rparr>"
  let ?s2 = "startRun 7 init_queue" and ?s3 = "startRun 7 (init_queue\<lparr>q_calls := {#Sending 9#}\<rparr>)"
  let ?s4 = "?s3\<lparr>q_chan := Some 9, q_calls := {#}\<rparr>"
  let ?s5 = "?s3\<lparr>q_calls := {#}, q_cancelled := {1}, q_pc := Waiting 9\<rparr>"
  let ?s6 = "?s5\<lparr>q_runs := []\<rparr>" and ?s7 = "?s5\<lparr>q_runs := [], q_running := False, q_pc := Draining 9\<rparr>"
  let ?s8 = "startRun 9 (?s3\<lparr>q_calls := {#}, q_runs := [], q_cancelled := {1}, q_running := False, q_pc := Ready\<rparr>)"
  note defs = startRun_def requested_def init_queue_def alive_def
  have 1: "call_step ?s0 ?s1" using call_step.send [of ?s0 7 "{#}"] by (simp add: defs)
  have 2: "loop_step True ?s1 ?s2" using loop_step.start [of ?s1 7 True] by (simp add: defs)
  have 3: "env_step ?s2 ?s3" using env_step.request [of ?s2 9] by (simp add: defs)
  have 4: "call_step ?s3 ?s4" using call_step.send [of ?s3 9 "{#}"] by (simp add: defs)
  have 5: "loop_step True ?s4 ?s5" using loop_step.replace [of ?s4 9 True] by (simp add: defs)
  have 6: "run_step ?s5 ?s6" using run_step.ends [of ?s5 "[]" 1 7 "[]"] by (simp add: defs)
  have 7: "loop_step True ?s6 ?s7" using loop_step.joined [of ?s6 9 True] by (simp add: defs)
  have 8: "loop_step True ?s7 ?s8" using loop_step.latest [of ?s7 9 True] by (simp add: defs)
  show ?thesis
    using reachable_requested [of True 7] 1 2 3 4 5 6 7 8 by (meson reachable.sys reachable.env sys_step_def)
qed

theorem one_run_at_a_time_witness:
  "\<exists>s. reachable True s \<and> q_runs s = [(2, 9)] \<and> q_started s = [7, 9] \<and> q_ctx_done s \<and> q_pc s = Ready \<and> 2 \<in> q_cancelled s"
proof -
  let ?s = "startRun 9 ((startRun 7 (init_queue\<lparr>q_calls := {#Sending 9#}\<rparr>))
     \<lparr>q_calls := {#}, q_runs := [], q_cancelled := {1}, q_running := False, q_pc := Ready\<rparr>)"
  let ?t = "?s\<lparr>q_ctx_done := True, q_cancelled := {1..<q_next ?s}\<rparr>"
  have t: "reachable True ?t" by (rule reachable.env [OF sample_queue env_step.shutdown])
  have runs: "q_runs ?t = [(2, 9)]" "q_started ?t = [7, 9]" "q_ctx_done ?t" "q_pc ?t = Ready"
    by (simp_all add: startRun_def init_queue_def)
  from one_run_at_a_time [OF t] runs have "2 \<in> q_cancelled ?t" by auto
  with t runs show ?thesis by blast
qed

theorem latest_request_runs_witness:
  "\<not> (\<exists>f. f 0 = requested 7 \<and> (\<forall>i. sys_step True (f i) (f (Suc i))))
    \<and> (\<exists>s'. (sys_step True)\<^sup>*\<^sup>* (requested 7) s' \<and> q_started s' = [7] \<and> q_cur s' \<notin> q_cancelled s')"
proof -
  let ?s0 = "requested 7"
  let ?s1 = "?s0\<lparr>q_chan := Some 7, q_calls := {#}\<rparr>"
  let ?s2 = "startRun 7 (?s1\<lparr>q_chan := None\<rparr>)"
  let ?s3 = "?s2\<lparr>q_runs := []\<rparr>"
  have 1: "sys_step True ?s0 ?s1"
    using call_step.send [of ?s0 7 "{#}"] by (simp add: sys_step_def requested_def init_queue_def)
  have 2: "sys_step True ?s1 ?s2"
    using loop_step.start [of ?s1 7 True] by (simp add: sys_step_def requested_def init_queue_def)
  have 3: "sys_step True ?s2 ?s3"
    using run_step.ends [of ?s2 "[]" 1 7 "[]"] by (simp add: sys_step_def requested_def init_queue_def startRun_def)
  have steps: "(sys_step True)\<^sup>*\<^sup>* ?s0 ?s3" using 1 2 3 by (meson converse_rtranclp_into_rtranclp rtranclp.rtrancl_refl)
  have stuck: "\<not> (\<exists>s. sys_step True ?s3 s)"
    by (auto simp: sys_step_def requested_def init_queue_def startRun_def
        elim!: call_stepE loop_stepE run_stepE)
  have "q_calls ?s0 = {#Sending 7#}" "\<not> q_ctx_done ?s0" "q_pc ?s0 \<noteq> Stopping" "q_pc ?s0 \<noteq> Stopped"
    by (simp_all add: requested_def init_queue_def)
  note l = latest_request_runs [OF reachable_requested this]
  then have "q_cur ?s3 \<notin> q_cancelled ?s3" using steps stuck by blast
  moreover have "q_started ?s3 = [7]" by (simp add: startRun_def requested_def init_queue_def)
  ultimately show ?thesis using l steps by blast
qed

end
