(* ===== verification/Entry.thy ===== *)
theory Entry
  imports Atomic RunQueue
begin

text \<open>
  The entry point (\<open>cmd/orb/main.go\<close>): how the process is put together from the flags, the environment
  and the files.

  \<open>os\<close> collects what it asks of the host: files, the YAML parsers, the environment after the \<open>.env\<close> file
  has been read, the clock, and what the engine and the server take from the host. The result is the exit
  with a message, the panic of \<open>time.Now().In(nil)\<close> when the zone cannot be loaded, or the process: its store,
  engine, server and request queue, and whether the engine's goroutine runs a live day. A live engine without a
  zone panics as soon as it starts, so \<open>None\<close> for it is a panic too.

  The properties put the components together: what a process that has started guarantees, that every moment
  of every interleaving of its goroutines has a well-formed store, and that historic mode is silent.
\<close>

record flags =
  fl_config :: string
  fl_watchlist :: string
  fl_historic :: bool

record os =
  os_ReadFile :: "string \<Rightarrow> string + string"
  os_yaml_config :: "string \<Rightarrow> config \<Rightarrow> config \<times> string option"
  os_yaml_watchlist :: "string \<Rightarrow> string + string list"
  os_Getenv :: "string \<Rightarrow> string"
  os_now :: gotime
  os_LoadLocation :: "string \<Rightarrow> zone option"
  os_http :: transport
  os_rand :: "gotime \<Rightarrow> string \<Rightarrow> bytes"
  os_unicode :: unicode

record process =
  pr_store :: store
  pr_engine :: engine
  pr_server :: server
  pr_live :: bool
  pr_queue :: run_queue

datatype startup = Fatal string | Panic | Started process

definition NewTTSClient :: "string \<Rightarrow> string \<Rightarrow> string \<Rightarrow> string \<Rightarrow> tts_client" where
  "NewTTSClient key mdl vce fmt = \<lparr>apiKey = key, tts_model = mdl, tts_voice = vce, responseFormat = fmt\<rparr>"

definition NewServer :: "config \<Rightarrow> server" where
  "NewServer cfg = \<lparr>sv_cfg = cfg\<rparr>"

text \<open>From the loaded configuration and watchlist to the running process.\<close>

definition assemble :: "os \<Rightarrow> bool \<Rightarrow> config \<Rightarrow> string list \<Rightarrow> startup" where
  "assemble os historic cfg wl =
     (let openaiKey = os_Getenv os ''OPENAI_API_KEY'';
          st = New (os_now os) cfg wl;
          st = SetMode (if historic then ModeHistoric else ModeRealtime) st;
          tts = (if historic then None
                 else Some (NewTTSClient openaiKey (TTSModel (cfg_OpenAI cfg)) (Voice (cfg_OpenAI cfg))
                              (ResponseFormat (cfg_OpenAI cfg))))
      in case NewEngine (os_LoadLocation os) (os_http os) (os_rand os) (os_unicode os) cfg tts of
           None \<Rightarrow> Panic
         | Some eng \<Rightarrow>
             Started \<lparr>pr_store = st, pr_engine = eng, pr_server = NewServer cfg, pr_live = (\<not> historic),
               pr_queue = (if historic then requested (os_now os) else init_queue)\<rparr>)"

definition main :: "os \<Rightarrow> flags \<Rightarrow> startup" where
  "main os fl =
     (case Load (os_ReadFile os) (os_yaml_config os) (fl_config fl) of
        (cfg, Some err) \<Rightarrow> Fatal (''failed to load config: '' @ err)
      | (cfg, None) \<Rightarrow>
          (case Load_watchlist (os_unicode os) (os_ReadFile os) (os_yaml_watchlist os) (fl_watchlist fl) of
             Inl err \<Rightarrow> Fatal (''failed to load watchlist: '' @ err)
           | Inr wl \<Rightarrow>
               if wl = [] then Fatal ''watchlist is empty''
               else if os_Getenv os ''MASSIVE_API_KEY'' = [] then Fatal ''MASSIVE_API_KEY is missing''
               else assemble os (fl_historic fl) cfg wl))"

section \<open>Lemmas\<close>

interpretation loud: quiet_engine False False e for e
  by unfold_locales simp

interpretation muted: quiet_engine True False "e\<lparr>e_tts := None\<rparr>" for e
  by unfold_locales simp

lemma not_steady: "\<not> False"
  by simp

interpretation steady: quiet_engine False True e for e
  by unfold_locales simp

lemma main_Started:
  assumes "main os fl = Started p"
  obtains cfg wl where "Load (os_ReadFile os) (os_yaml_config os) (fl_config fl) = (cfg, None)"
    and "Load_watchlist (os_unicode os) (os_ReadFile os) (os_yaml_watchlist os) (fl_watchlist fl) = Inr wl"
    and "wl \<noteq> []" and "assemble os (fl_historic fl) cfg wl = Started p"
  using assms by (auto simp: main_def split: prod.splits option.splits sum.splits if_splits)

lemma assemble_Started:
  assumes "assemble os historic cfg wl = Started p"
  shows "pr_store p = SetMode (if historic then ModeHistoric else ModeRealtime) (New (os_now os) cfg wl)"
    and "e_cfg (pr_engine p) = cfg" and "sv_cfg (pr_server p) = cfg" and "pr_live p = (\<not> historic)"
    and "historic \<Longrightarrow> e_tts (pr_engine p) = None" and "reachable historic' (pr_queue p)"
    and "os_LoadLocation os (Timezone (cfg_Market cfg)) = Some (e_loc (pr_engine p))"
  using assms reachable_requested reachable.init
  by (auto simp: assemble_def NewEngine_def NewServer_def Let_def split: option.splits)

lemma wf_New:
  assumes "Load ReadFile Unmarshal path = (c, None)"
  shows "wf_store (SetMode m (New now c wl))"
    and "validateRuntimeFilters (Filters (SetMode m (New now c wl))) = None
      \<longleftrightarrow> \<not> cf_Open5mTodayPctMax (cfg_Filters c) < cf_Open5mTodayPctMin (cfg_Filters c)"
proof -
  from Load_None [OF assms(1)] obtain c0 where v: "validate c = None" "c = applyDefaults c0" by blast
  then have "wf_events (New now c wl)" using applyDefaults_capacity wf_events_New by blast
  then have "wf_events (SetMode m (New now c wl))" by (simp add: wf_events_def event_cap_def SetMode_def)
  moreover have "wf_tickers (SetMode m (New now c wl))" "watchset (SetMode m (New now c wl)) = set wl"
    "watchlist (SetMode m (New now c wl)) = wl"
    by (simp_all add: wf_tickers_def SetMode_def New_def)
  ultimately show "wf_store (SetMode m (New now c wl))" by (simp add: wf_store_def)
  show "validateRuntimeFilters (Filters (SetMode m (New now c wl))) = None
      \<longleftrightarrow> \<not> cf_Open5mTodayPctMax (cfg_Filters c) < cf_Open5mTodayPctMin (cfg_Filters c)"
    using validate_runtime_iff [OF v(1)] by (simp add: Filters_def SetMode_def New_def)
qed

lemma silent_steps:
  "store_steps True False s s' \<Longrightarrow> audio s = Map.empty \<Longrightarrow> \<forall>ev \<in> set (events s). ev_AudioID ev = []
    \<Longrightarrow> audio s' = Map.empty \<and> (\<forall>ev \<in> set (events s'). ev_AudioID ev = [])"
proof (induction rule: rtranclp_induct)
  case (step a b)
  then have a: "audio a = Map.empty" "\<forall>ev \<in> set (events a). ev_AudioID ev = []" by blast+
  from step.hyps(2) a show ?case
  proof (cases rule: store_step.cases)
    case (call_UpdateFilters fp)
    from UpdateFilters_cases [of "apply_patch fp" a] a show ?thesis
      unfolding call_UpdateFilters by (metis fst_conv store.select_convs store.surjective store.update_convs(4))
  next
    case (call_AddEvent ev)
    with a show ?thesis by (cases "events a") (auto simp: events_AddEvent frame_simps split: if_splits)
  qed (auto simp: SetHistoricReport_def ResetForHistoricRun_def SetTimes_def SetTrackedTickers_def
      frame_simps Let_def)
qed blast

section \<open>Properties\<close>

text \<open>C7. Every moment of the process has a well-typed store: from a process that has started, any interleaving
  of store calls of its goroutines keeps one entry per ticker filed under its symbol, the bounded event list, the
  watched set equal to the watchlist, the mode and the configuration; and a live run, a historic run and every
  request are such calls. The filters are at every moment either valid or still the ones the process started
  with, and those are valid exactly when the configured limits of the today-percentage are not inverted, which
  the validation of the configuration does not check.\<close>

theorem every_moment_well_formed:
  assumes "main os fl = Started p" and "store_steps False False (pr_store p) s"
  shows "wf_store s \<and> st_cfg s = e_cfg (pr_engine p) \<and> watchlist s = watchlist (pr_store p)
    \<and> Mode s = (if fl_historic fl then ModeHistoric else ModeRealtime)
    \<and> (validateRuntimeFilters (Filters s) = None \<or> Filters s = Filters (pr_store p))
    \<and> (validateRuntimeFilters (Filters (pr_store p)) = None \<longleftrightarrow>
        \<not> cf_Open5mTodayPctMax (cfg_Filters (e_cfg (pr_engine p))) < cf_Open5mTodayPctMin (cfg_Filters (e_cfg (pr_engine p))))
    \<and> (\<forall>env s' err. Run (pr_engine p) env s = Some (s', err) \<longrightarrow> store_steps False False s s')
    \<and> (\<forall>loc env cancelled now day s'. historic_goroutine loc (pr_engine p) env cancelled now day s = Some s'
         \<longrightarrow> store_steps False False s s')
    \<and> (\<forall>h now ord r s' q rep. serve h (pr_server p) now ord r s = Some (s', q, rep) \<longrightarrow> store_steps False False s s')"
proof -
  obtain cfg wl where l: "Load (os_ReadFile os) (os_yaml_config os) (fl_config fl) = (cfg, None)"
    and a: "assemble os (fl_historic fl) cfg wl = Started p" using main_Started [OF assms(1)] by metis
  note p = assemble_Started [OF a]
  note new = wf_New [OF l, of "if fl_historic fl then ModeHistoric else ModeRealtime" "os_now os" wl, folded p(1)]
  from wf_store_steps [OF assms(2) new(1)] have s: "wf_store s" "st_cfg s = st_cfg (pr_store p)" "mode s = mode (pr_store p)"
    "watchlist s = watchlist (pr_store p)" by blast+
  have "st_cfg s = e_cfg (pr_engine p)" "Mode s = (if fl_historic fl then ModeHistoric else ModeRealtime)"
    using s(2,3) p(1,2) by (simp_all add: SetMode_def New_def Mode_def)
  moreover have "validateRuntimeFilters (Filters s) = None \<or> Filters s = Filters (pr_store p)"
    using filters_steps [OF assms(2)] by blast
  ultimately show ?thesis using s new(2) [folded p(2)]
    by (intro conjI allI impI)
      (assumption | erule loud.Run_steps [OF s(1)] loud.goroutine_steps [OF s(1) not_steady] loud.serve_steps)+
qed

text \<open>C18. Historic mode is silent: whatever runs and requests interleave in a process started in historic mode, no
  audio is ever stored, no event refers to one, and every request for audio is refused.\<close>

theorem historic_mode_is_silent:
  assumes "main os fl = Started p" and "fl_historic fl" and "store_steps True False (pr_store p) s"
  shows "audio s = Map.empty \<and> (\<forall>ev \<in> set (events s). ev_AudioID ev = []) \<and> \<not> pr_live p
    \<and> (\<forall>h r. rs_Status (handleAudio h r s) \<noteq> 200)
    \<and> (\<forall>loc env cancelled now day s'. historic_goroutine loc (pr_engine p) env cancelled now day s = Some s'
         \<longrightarrow> store_steps True False s s')
    \<and> (\<forall>h now ord r s' q rep. serve h (pr_server p) now ord r s = Some (s', q, rep) \<longrightarrow> store_steps True False s s')"
proof -
  obtain cfg wl where l: "Load (os_ReadFile os) (os_yaml_config os) (fl_config fl) = (cfg, None)"
    and a: "assemble os (fl_historic fl) cfg wl = Started p" using main_Started [OF assms(1)] by metis
  note p = assemble_Started [OF a]
  have "wf_store (pr_store p)" using wf_New(1) [OF l] p(1) by simp
  with wf_store_steps [OF assms(3)] have wf: "wf_store s" by blast
  have "audio (pr_store p) = Map.empty" "events (pr_store p) = []" using p(1) by (simp_all add: SetMode_def New_def)
  with silent_steps [OF assms(3)] have q: "audio s = Map.empty" "\<forall>ev \<in> set (events s). ev_AudioID ev = []" by simp_all
  have "rs_Status (handleAudio h r s) \<noteq> 200" for h r
    using q(1) by (simp add: handleAudio_def http_Error_def GetAudio_def Let_def)
  note audio = this
  have eng: "(pr_engine p)\<lparr>e_tts := None\<rparr> = pr_engine p" using p(5) assms(2) by simp
  note run = muted.goroutine_steps [OF wf not_steady, where e = "pr_engine p", unfolded eng]
  have "\<not> pr_live p" using p(4) assms(2) by simp
  with q audio show ?thesis
    by (intro conjI allI impI) (assumption | erule run muted.serve_steps | blast)+
qed

section \<open>Instances\<close>

definition sample_os :: os where
  "sample_os = \<lparr>os_ReadFile = (\<lambda>_. Inr []), os_yaml_config = (\<lambda>_ c. (sample_yaml c, None)),
     os_yaml_watchlist = (\<lambda>_. Inr [''A'']), os_Getenv = (\<lambda>_. ''key''), os_now = 0,
     os_LoadLocation = (\<lambda>_. Some (fixed_zone 0)), os_http = (\<lambda>_. Inl []), os_rand = (\<lambda>_ _. []),
     os_unicode = \<lparr>uni_ToUpper = id, uni_TrimFunc = id, uni_TrimRightFunc = id\<rparr>\<rparr>"

definition sample_flags :: "bool \<Rightarrow> flags" where
  "sample_flags historic = \<lparr>fl_config = ''config.yaml'', fl_watchlist = ''watchlist.yaml'', fl_historic = historic\<rparr>"

lemma sample_starts: "\<exists>p. main sample_os (sample_flags historic) = Started p \<and> e_cfg (pr_engine p) = loaded_config
    \<and> pr_store p = SetMode (if historic then ModeHistoric else ModeRealtime) (New 0 loaded_config [''A''])"
proof -
  have "normalize \<lparr>uni_ToUpper = id, uni_TrimFunc = id, uni_TrimRightFunc = id\<rparr> ''A'' = ''A''" by code_simp
  then show ?thesis
    using loaded_ok(2) by (simp add: main_def sample_os_def sample_flags_def Load_watchlist_def assemble_def
        NewEngine_def Let_def)
qed

theorem every_moment_well_formed_witness:
  "wf_store (AddEvent \<lparr>ev_ID = ''1-BUY-A'', ev_TimeNY = ''09:36:00'', ev_Type = ''BUY'', ev_Symbol = ''A'',
     ev_Message = ''buy A'', ev_AudioID = [], ev_Level = ''info''\<rparr> (SetMode ModeRealtime (New 0 loaded_config [''A''])))"
proof -
  obtain p where p: "main sample_os (sample_flags False) = Started p" "e_cfg (pr_engine p) = loaded_config"
    "pr_store p = SetMode ModeRealtime (New 0 loaded_config [''A''])" using sample_starts [of False] by auto
  have "store_steps False False (pr_store p) (AddEvent \<lparr>ev_ID = ''1-BUY-A'', ev_TimeNY = ''09:36:00'', ev_Type = ''BUY'',
      ev_Symbol = ''A'', ev_Message = ''buy A'', ev_AudioID = [], ev_Level = ''info''\<rparr> (pr_store p))"
    by (rule r_into_rtranclp, rule call_AddEvent) simp
  from every_moment_well_formed [OF p(1) this] show ?thesis by (simp add: p(2,3))
qed

theorem historic_mode_is_silent_witness:
  "rs_Status (handleAudio sample_host (sample_request ''GET'' ''/api/audio/1.mp3'')
     (SetMode ModeHistoric (New 0 loaded_config [''A'']))) \<noteq> 200"
proof -
  obtain p where p: "main sample_os (sample_flags True) = Started p" "e_cfg (pr_engine p) = loaded_config"
    "pr_store p = SetMode ModeHistoric (New 0 loaded_config [''A''])" using sample_starts [of True] by auto
  have "fl_historic (sample_flags True)" by (simp add: sample_flags_def)
  from historic_mode_is_silent [OF p(1) this rtranclp.rtrancl_refl] show ?thesis by (simp add: p(2,3))
qed

end
