(* ===== verification/Calls.thy ===== *)
theory Calls
  imports HistoricRun_Properties Server_Properties
begin

text \<open>
  The two goroutines of a live tracking phase (\<open>Run\<close> of \<open>internal/engine/engine.go\<close>), store call by store call.

  While the loop of \<open>Run\<close> handles trades, the goroutine of the 11 o'clock timer runs \<open>onElevenAM\<close>; both reach
  the tickers only through the store's methods, which hold its mutex. \<open>prog\<close> is what is left of a
  goroutine: nothing, or a call, which is its effect on the store and how the goroutine goes on with what
  the call returned. \<open>run\<close> runs a goroutine alone; the lemmas \<open>run_trade_prog\<close> and \<open>run_eleven_prog\<close> show that the
  programs below, alone, are the handlers of \<open>Trading\<close>.

  \<open>par_step\<close> interleaves two goroutines and other steps on the store. \<open>rg\<close> is what a goroutine promises of its calls
  while others keep to what it relies on; the locale \<open>rely_guarantee\<close> puts two such promises together.
\<close>

section \<open>Goroutines\<close>

datatype prog = Ret | Call "store \<Rightarrow> store" "store \<Rightarrow> prog"

primrec run :: "prog \<Rightarrow> store \<Rightarrow> store" where
  "run Ret = (\<lambda>s. s)"
| "run (Call u c) = (\<lambda>s. run (c s) (u s))"

primrec then_prog :: "prog \<Rightarrow> prog \<Rightarrow> prog" where
  "then_prog Ret q = q"
| "then_prog (Call u c) q = Call u (\<lambda>s. then_prog (c s) q)"

inductive par_step ::
  "(store \<Rightarrow> store \<Rightarrow> bool) \<Rightarrow> store \<times> prog \<times> prog \<Rightarrow> store \<times> prog \<times> prog \<Rightarrow> bool"
  for env :: "store \<Rightarrow> store \<Rightarrow> bool" where
  first: "par_step env (s, Call u c, q) (u s, c s, q)"
| second: "par_step env (s, p, Call u c) (u s, p, c s)"
| other: "env s s' \<Longrightarrow> par_step env (s, p, q) (s', p, q)"

inductive_cases par_stepE: "par_step env (s, p, q) x"

text \<open>A request served by another goroutine; the handlers' calls that write are one call each.\<close>

definition request_step :: "store \<Rightarrow> store \<Rightarrow> bool" where
  "request_step s s' \<longleftrightarrow> (\<exists>h sv now ord r q rep. serve h sv now ord r s = Some (s', q, rep))"

section \<open>The handlers as calls\<close>

definition say_call :: "engine \<Rightarrow> gotime \<Rightarrow> string \<Rightarrow> (string \<Rightarrow> prog) \<Rightarrow> prog" where
  "say_call e tsNY txt k =
     (case e_tts e of
        None \<Rightarrow> k []
      | Some c \<Rightarrow>
          if \<not> Enabled c then k []
          else (case Synthesize c (e_http e) (e_rand e tsNY txt) txt of
                  Inl err \<Rightarrow> k []
                | Inr (audioID, audioBytes) \<Rightarrow> Call (StoreAudio audioID audioBytes) (\<lambda>_. k audioID)))"

definition emit_call ::
  "engine \<Rightarrow> gotime \<Rightarrow> string \<Rightarrow> string \<Rightarrow> string \<Rightarrow> string \<Rightarrow> string \<Rightarrow> prog \<Rightarrow> prog" where
  "emit_call e tsNY typ symb msg audioID level k = Call (emit e tsNY typ symb msg audioID level) (\<lambda>_. k)"

definition open_prog :: "engine \<Rightarrow> gotime \<Rightarrow> string \<Rightarrow> float64 \<Rightarrow> prog" where
  "open_prog e tsNY symb entry =
     Call id (\<lambda>s.
       let minAfterOpen = minutes_after (fst (Times s)) tsNY;
           msg = ''BUY '' @ symb @ '' ('' @ SpellNATO (e_unicode e) symb @ '')''
       in Call (UpsertTicker symb (entered e tsNY minAfterOpen entry)) (\<lambda>_.
            say_call e tsNY (''Buy. '' @ SpellNATO (e_unicode e) symb) (\<lambda>audioID.
              emit_call e tsNY ''BUY'' symb msg audioID ''signal'' Ret)))"

definition close_prog ::
  "engine \<Rightarrow> gotime \<Rightarrow> string \<Rightarrow> string \<Rightarrow> string \<Rightarrow> float64 \<Rightarrow> prog \<Rightarrow> prog" where
  "close_prog e tsNY symb reason ttsText exitPrice k =
     Call id (\<lambda>s.
       let minAfterOpen = minutes_after (fst (Times s)) tsNY
       in Call (UpsertTicker symb (exited tsNY minAfterOpen reason exitPrice)) (\<lambda>_.
            say_call e tsNY ttsText (\<lambda>audioID.
              emit_call e tsNY reason symb ttsText audioID ''signal'' k)))"

definition manage_prog :: "engine \<Rightarrow> gotime \<Rightarrow> string \<Rightarrow> float64 \<Rightarrow> ticker_state \<Rightarrow> prog" where
  "manage_prog e trNY symb price ts =
     (if TakeProfitPrice ts \<le> price \<and> 0 < TakeProfitPrice ts
      then close_prog e trNY symb ''PROFIT'' (''PROFIT! '' @ symb) price Ret
      else if price \<le> StopPrice ts \<and> 0 < StopPrice ts
      then close_prog e trNY symb ''STOP'' (''STOP LOSS HIT! '' @ symb) price Ret
      else Ret)"

definition decide_prog ::
  "engine \<Rightarrow> runtime_filters \<Rightarrow> gotime \<Rightarrow> gotime \<Rightarrow> gotime \<Rightarrow> float64 \<Rightarrow> string \<Rightarrow> float64 \<Rightarrow> bool \<Rightarrow> ticker_state
     \<Rightarrow> bool \<Rightarrow> prog" where
  "decide_prog e f selNY cutoffNY trNY minAfterOpen symb price allowActions ts sawCross =
     (if allowActions \<and> \<not> HasPosition ts \<and> \<not> Exited ts
      then if entry_rejected f selNY cutoffNY trNY minAfterOpen ts price then Ret
           else if sawCross then open_prog e trNY symb price else Ret
      else if allowActions \<and> HasPosition ts \<and> \<not> Exited ts then manage_prog e trNY symb price ts
      else Ret)"

definition first_cross :: "gotime \<Rightarrow> gotime \<Rightarrow> gotime \<Rightarrow> float64 \<Rightarrow> ticker_state \<Rightarrow> bool" where
  "first_cross openNY cutoffNY trNY price ts \<longleftrightarrow>
     \<not> HasPosition ts \<and> \<not> Exited ts \<and> \<not> SawCrossInWindow ts \<and> cross_now ts price
     \<and> \<not> trNY < openNY + 1 * minute_ns \<and> trNY < cutoffNY"

definition act_prog ::
  "engine \<Rightarrow> gotime \<Rightarrow> gotime \<Rightarrow> gotime \<Rightarrow> gotime \<Rightarrow> float64 \<Rightarrow> string \<Rightarrow> float64 \<Rightarrow> bool \<Rightarrow> ticker_state \<Rightarrow> prog" where
  "act_prog e openNY selNY cutoffNY trNY minAfterOpen symb price allowActions ts =
     Call id (\<lambda>s.
       let f = Filters s;
           mark = first_cross openNY cutoffNY trNY price ts;
           rest = decide_prog e f selNY cutoffNY trNY minAfterOpen symb price allowActions ts (SawCrossInWindow ts \<or> mark)
       in if mark then Call (UpsertTicker symb (mark_cross trNY price)) (\<lambda>_. rest) else rest)"

definition trade_prog ::
  "engine \<Rightarrow> gotime \<Rightarrow> gotime \<Rightarrow> gotime \<Rightarrow> gotime \<Rightarrow> string \<Rightarrow> int \<Rightarrow> float64 \<Rightarrow> float64 \<Rightarrow> bool \<Rightarrow> prog" where
  "trade_prog e openNY selNY cutoffNY exitNY symb tsMillis price sz allowActions =
     (if symb = [] then Ret
      else Call id (\<lambda>s.
        if GetTicker s symb = None then Ret
        else let trNY = UnixMilli tsMillis
             in if trNY < openNY \<or> exitNY + 5 * minute_ns < trNY then Ret
                else if price \<le> 0 \<or> sz \<le> 0 then Ret
                else let minAfterOpen = minutes_after openNY trNY
                     in Call (UpsertTicker symb (trade_update trNY minAfterOpen price sz)) (\<lambda>_.
                          Call id (\<lambda>s.
                            case GetTicker s symb of
                              None \<Rightarrow> Ret
                            | Some ts \<Rightarrow>
                                act_prog e openNY selNY cutoffNY trNY minAfterOpen symb price allowActions ts))))"

fun loop_prog :: "engine \<Rightarrow> gotime \<times> gotime \<times> gotime \<times> gotime \<Rightarrow> equity_trade list \<Rightarrow> prog" where
  "loop_prog e w [] = Ret"
| "loop_prog e (a, b, c, d) (tr # trs) =
     then_prog (trade_prog e a b c d (et_Symbol tr) (et_Timestamp tr) (et_Price tr) (of_int64 (et_Size tr)) True)
       (loop_prog e (a, b, c, d) trs)"

primrec close_list :: "engine \<Rightarrow> gotime \<Rightarrow> string list \<Rightarrow> prog" where
  "close_list e tsNY [] = Ret"
| "close_list e tsNY (symb # wl) =
     Call id (\<lambda>s.
       case GetTicker s symb of
         None \<Rightarrow> close_list e tsNY wl
       | Some t \<Rightarrow>
           if HasPosition t \<and> \<not> Exited t
           then close_prog e tsNY symb ''TIME_EXIT'' (''11am close. '' @ symb) (close_price t) (close_list e tsNY wl)
           else close_list e tsNY wl)"

definition eleven_prog :: "engine \<Rightarrow> gotime \<Rightarrow> prog" where
  "eleven_prog e tsNY =
     say_call e tsNY ''Eleven a.m. close'' (\<lambda>audioID.
       emit_call e tsNY ''11AM'' [] ''11am close'' audioID ''info'' (Call id (\<lambda>s. close_list e tsNY (Watchlist s))))"

section \<open>Alone, they are the handlers\<close>

named_theorems runs \<open>what a program does when it runs alone\<close>

lemma run_then [runs]: "run (then_prog p q) s = run q (run p s)"
  by (induction p arbitrary: s) simp_all

lemma run_say [runs]: "run (say_call e t txt k) s = run (k (fst (say e t txt s))) (snd (say e t txt s))"
  by (simp add: say_call_def say_def split: option.splits sum.splits prod.splits)

lemma run_emit [runs]: "run (emit_call e t typ symb msg i l k) s = run k (emit e t typ symb msg i l s)"
  by (simp add: emit_call_def)

lemma run_open [runs]: "run (open_prog e t symb p) s = openPosition e t symb p s"
  by (simp add: open_prog_def openPosition_def Let_def case_prod_unfold runs)

lemma run_close [runs]: "run (close_prog e t symb r txt p k) s = run k (closePosition e t symb r txt p s)"
  by (simp add: close_prog_def closePosition_def Let_def case_prod_unfold runs)

lemma run_manage [runs]: "run (manage_prog e t symb p ts) s = manage_position e t symb p ts s"
  by (simp add: manage_prog_def manage_position_def runs)

lemma run_decide: "run (decide_prog e f b c u m symb p al ts saw) s =
    (if al \<and> \<not> HasPosition ts \<and> \<not> Exited ts
     then if entry_rejected f b c u m ts p then s else if saw then openPosition e u symb p s else s
     else if al \<and> HasPosition ts \<and> \<not> Exited ts then manage_position e u symb p ts s else s)"
  by (simp add: decide_prog_def runs)

lemma run_act [runs]:
  "run (act_prog e a b c u m symb p al ts) s = act_on_trade e a b c u m symb p al ts s"
proof -
  have "run (act_prog e a b c u m symb p al ts) s =
      run (decide_prog e (Filters s) b c u m symb p al ts (SawCrossInWindow ts \<or> first_cross a c u p ts))
        (if first_cross a c u p ts then UpsertTicker symb (mark_cross u p) s else s)"
    by (cases "first_cross a c u p ts") (simp_all only: act_prog_def Let_def run.simps if_True if_False id_apply)
  then show ?thesis
    unfolding run_decide act_on_trade_def Let_def first_cross_def [symmetric] by (simp add: frame_simps)
qed

lemma run_trade_prog [runs]:
  "run (trade_prog e a b c d symb ms p z al) s = processTrade e a b c d symb ms p z al s"
  by (simp add: trade_prog_def processTrade_def Let_def runs split: option.splits)

lemma run_loop_prog [runs]:
  "run (loop_prog e (a, b, c, d) trs) s = fold (onTrade e a b c d) trs s"
  by (induction trs arbitrary: s) (simp_all add: runs onTrade_def)

lemma run_close_list [runs]: "run (close_list e t wl) s = fold (close_if_open e t ''11am close. '') wl s"
  by (induction wl arbitrary: s) (simp_all add: runs close_if_open_def split: option.splits)

lemma run_eleven_prog [runs]: "run (eleven_prog e t) s = onElevenAM e t s"
  by (simp add: eleven_prog_def onElevenAM_def Let_def case_prod_unfold runs)

section \<open>Every program ends\<close>

lemma par_step_accp:
  "Wellfounded.accp (\<lambda>y x. par_step (\<lambda>_ _. False) x y) (s, p, q)"
proof (induction p arbitrary: s q)
  case Ret
  show ?case
  proof (induction q arbitrary: s)
    case Ret
    show ?case by (rule accpI) (auto elim: par_stepE)
  next
    case (Call u c)
    show ?case by (rule accpI) (auto elim!: par_stepE intro: Call.IH [OF rangeI])
  qed
next
  case (Call u c)
  note ih = Call.IH
  show ?case
  proof (induction q arbitrary: s)
    case Ret
    show ?case by (rule accpI) (auto elim!: par_stepE intro: ih)
  next
    case (Call v d)
    show ?case by (rule accpI) (auto elim!: par_stepE intro: ih Call.IH [OF rangeI])
  qed
qed

lemma no_infinite_interleaving: "\<not> (\<exists>f. \<forall>i. par_step (\<lambda>_ _. False) (f i) (f (Suc i)))"
proof -
  have "wfP (\<lambda>y x. par_step (\<lambda>_ _. False) x y)"
  proof (rule accp_wfpI)
    show "\<forall>x. Wellfounded.accp (\<lambda>y x. par_step (\<lambda>_ _. False) x y) x" using par_step_accp by auto
  qed
  then show ?thesis unfolding wfp_def wf_iff_no_infinite_down_chain by simp
qed

lemma stuck_done: "\<not> (\<exists>y. par_step env (s, p, q) y) \<Longrightarrow> p = Ret \<and> q = Ret"
  by (cases p; cases q) (auto intro: par_step.intros)

section \<open>Rely and guarantee\<close>

primrec rg ::
  "(store \<Rightarrow> store \<Rightarrow> bool) \<Rightarrow> (store \<Rightarrow> store \<Rightarrow> bool) \<Rightarrow> (store \<Rightarrow> bool) \<Rightarrow> prog \<Rightarrow> store \<Rightarrow> bool" where
  "rg R G Q Ret = (\<lambda>s. \<forall>s'. R s s' \<longrightarrow> Q s')"
| "rg R G Q (Call u c) = (\<lambda>s. \<forall>s'. R s s' \<longrightarrow> G s' (u s') \<and> rg R G Q (c s') (u s'))"

lemma rg_stable:
  assumes "\<And>a b c. R a b \<Longrightarrow> R b c \<Longrightarrow> R a c" and "rg R G Q p s" and "R s s'"
  shows "rg R G Q p s'"
  using assms(2,3) by (cases p) (simp_all, (meson assms(1))+)

locale rely_guarantee =
  fixes R1 G1 R2 G2 env :: "store \<Rightarrow> store \<Rightarrow> bool"
  assumes trans1: "\<And>a b c. R1 a b \<Longrightarrow> R1 b c \<Longrightarrow> R1 a c" and refl1: "\<And>a. R1 a a"
    and trans2: "\<And>a b c. R2 a b \<Longrightarrow> R2 b c \<Longrightarrow> R2 a c" and refl2: "\<And>a. R2 a a"
    and first_keeps: "\<And>a b. G1 a b \<Longrightarrow> R2 a b" and second_keeps: "\<And>a b. G2 a b \<Longrightarrow> R1 a b"
    and env_keeps: "\<And>a b. env a b \<Longrightarrow> R1 a b \<and> R2 a b"
begin

lemma par_step_keeps:
  assumes "par_step env (s, p, q) (s', p', q')" and "rg R1 G1 Q1 p s" and "rg R2 G2 Q2 q s"
  shows "rg R1 G1 Q1 p' s' \<and> rg R2 G2 Q2 q' s' \<and> (G1 s s' \<or> G2 s s' \<or> env s s')"
  using assms(1)
proof (cases rule: par_step.cases)
  case (first u c)
  with assms(2) refl1 have "G1 s (u s)" "rg R1 G1 Q1 (c s) (u s)" by auto
  then show ?thesis using first rg_stable [of R2, OF trans2 assms(3)] first_keeps by auto
next
  case (second u c)
  with assms(3) refl2 have "G2 s (u s)" "rg R2 G2 Q2 (c s) (u s)" by auto
  then show ?thesis using second rg_stable [of R1, OF trans1 assms(2)] second_keeps by auto
next
  case other
  then show ?thesis
    using rg_stable [of R1, OF trans1 assms(2)] rg_stable [of R2, OF trans2 assms(3)] env_keeps by auto
qed

lemma par_steps_keep:
  assumes "(par_step env)\<^sup>*\<^sup>* (s, p, q) (s', p', q')" and "rg R1 G1 Q1 p s" and "rg R2 G2 Q2 q s"
  shows "rg R1 G1 Q1 p' s' \<and> rg R2 G2 Q2 q' s' \<and> (\<lambda>a b. G1 a b \<or> G2 a b \<or> env a b)\<^sup>*\<^sup>* s s'"
  using assms(1)
proof (induction "(s', p', q')" arbitrary: s' p' q' rule: rtranclp_induct)
  case base
  then show ?case using assms(2,3) by simp
next
  case (step y)
  obtain s1 p1 q1 where y: "y = (s1, p1, q1)" by (cases y)
  note ih = step.hyps(3) [OF y]
  have k: "rg R1 G1 Q1 p' s' \<and> rg R2 G2 Q2 q' s' \<and> (G1 s1 s' \<or> G2 s1 s' \<or> env s1 s')"
    using par_step_keeps [OF step.hyps(2) [unfolded y]] ih by blast
  then have "(\<lambda>a b. G1 a b \<or> G2 a b \<or> env a b)\<^sup>*\<^sup>* s s'"
    using rtranclp.rtrancl_into_rtrancl [of "\<lambda>a b. G1 a b \<or> G2 a b \<or> env a b" s s1 s'] ih by blast
  with k show ?case by blast
qed

lemma par_steps_end:
  assumes "(par_step env)\<^sup>*\<^sup>* (s, p, q) (s', p', Ret)" and "rg R1 G1 Q1 p s" and "rg R2 G2 Q2 q s"
  shows "Q2 s'"
  using par_steps_keep [OF assms] refl2 by auto

end

lemma rg_then:
  assumes "rg R G Q' p s" and "\<And>s. Q' s \<Longrightarrow> rg R G Q q s" and "\<And>s. R s s"
  shows "rg R G Q (then_prog p q) s"
  using assms(1)
proof (induction p arbitrary: s)
  case Ret
  then have "Q' s" using assms(3) by simp
  then show ?case using assms(2) by simp
next
  case (Call u c)
  show ?case
    unfolding then_prog.simps rg.simps
  proof (intro allI impI conjI)
    fix s' assume "R s s'"
    with Call.prems have "G s' (u s')" "rg R G Q' (c s') (u s')" by simp_all
    then show "G s' (u s')" "rg R G Q (then_prog (c s') q) (u s')" using Call.IH [OF rangeI] by blast+
  qed
qed

lemma rg_Call:
  assumes "\<And>s'. R s s' \<Longrightarrow> G s' (u s')" and "\<And>s'. R s s' \<Longrightarrow> rg R G Q (c s') (u s')"
  shows "rg R G Q (Call u c) s"
  using assms by simp

lemma rg_if: "(b \<Longrightarrow> rg R G Q p s) \<Longrightarrow> (\<not> b \<Longrightarrow> rg R G Q q s) \<Longrightarrow> rg R G Q (if b then p else q) s"
  by simp

lemma rg_say:
  assumes "\<And>i. rg R G Q (k i) s"
    and "\<And>i b s'. R s s' \<Longrightarrow> G s' (StoreAudio i b s')" and "\<And>i b s'. R s s' \<Longrightarrow> rg R G Q (k i) (StoreAudio i b s')"
  shows "rg R G Q (say_call e t txt k) s"
proof (cases "\<exists>c i b. e_tts e = Some c \<and> Enabled c \<and> Synthesize c (e_http e) (e_rand e t txt) txt = Inr (i, b)")
  case True
  then obtain c i b where "e_tts e = Some c" "Enabled c" "Synthesize c (e_http e) (e_rand e t txt) txt = Inr (i, b)" by blast
  then have "say_call e t txt k = Call (StoreAudio i b) (\<lambda>_. k i)" by (simp add: say_call_def)
  with rg_Call [of R s G "StoreAudio i b" Q "\<lambda>_. k i"] assms(2,3) show ?thesis by simp
next
  case False
  then have "say_call e t txt k = k []"
    by (auto simp: say_call_def split: option.splits sum.splits)
  with assms(1) show ?thesis by simp
qed

end
