(* ===== verification/Trading_Properties.thy ===== *)
theory Trading_Properties
  imports Interleaving
begin

text \<open>
  What the trade handler promises: when it enters and when it leaves a position, what it announces,
  what a run of trades and the time exit keep of a ticker, and the reference computations of the
  running VWAP and price extremes. Each property is derived from the refinement
  \<open>get_processTrade\<close> and from the interpretations of \<open>Trading\<close>. The last section has a small engine
  and store on which the properties are instantiated.
\<close>

section \<open>Entry conditions in positive form\<close>

definition in_range :: "float64 \<Rightarrow> float64 \<Rightarrow> float64 \<Rightarrow> bool" where
  "in_range x lo hi \<longleftrightarrow> \<not> x < lo \<and> \<not> hi < x"

text \<open>What the entry logic asks of a ticker \<open>t\<close> as it was before the trade.\<close>

definition entry_ok ::
  "runtime_filters \<Rightarrow> gotime \<Rightarrow> gotime \<Rightarrow> gotime \<Rightarrow> gotime \<Rightarrow> float64 \<Rightarrow> float64 \<Rightarrow> ticker_state \<Rightarrow> bool" where
  "entry_ok f openNY selNY cutoffNY trNY p z t \<longleftrightarrow>
     (let vwap = (if 0 < CumV t + z then (CumPV t + p * z) / (CumV t + z) else VWAP t);
          crossing = (0 < LastPrice t \<and> 0 < VWAP t \<and> LastPrice t < VWAP t \<and> vwap \<le> p
                      \<and> openNY + minute_ns \<le> trNY \<and> trNY < cutoffNY)
      in selNY \<le> trNY \<and> trNY < cutoffNY
         \<and> in_range (minutes_after openNY trNY) (of_int64 (EntryMinAfterOpen f))
             (of_int64 (EntryMaxAfterOpen f) + rnd (999 / 1000))
         \<and> in_range (Open5mRangePct t) (Open5mRangePctMin f) (Open5mRangePctMax f)
         \<and> in_range (Open5mVol t) (Open5mVolMin f) (Open5mVolMax f)
         \<and> in_range (Open5mTodayPct t) (Open5mTodayPctMin f) (Open5mTodayPctMax f)
         \<and> in_range p (EntryPriceMin f) (EntryPriceMax f)
         \<and> 0 < vwap \<and> vwap \<le> p
         \<and> (SawCrossInWindow t \<or> crossing))"

lemma not_entry_rejected:
  "\<not> entry_rejected f selNY cutoffNY trNY m t p \<longleftrightarrow>
     selNY \<le> trNY \<and> trNY < cutoffNY
     \<and> in_range m (of_int64 (EntryMinAfterOpen f)) (of_int64 (EntryMaxAfterOpen f) + rnd (999 / 1000))
     \<and> in_range (Open5mRangePct t) (Open5mRangePctMin f) (Open5mRangePctMax f)
     \<and> in_range (Open5mVol t) (Open5mVolMin f) (Open5mVolMax f)
     \<and> in_range (Open5mTodayPct t) (Open5mTodayPctMin f) (Open5mTodayPctMax f)
     \<and> in_range p (EntryPriceMin f) (EntryPriceMax f) \<and> 0 < VWAP t \<and> VWAP t \<le> p"
  unfolding entry_rejected_def in_range_def
  by (simp only: de_Morgan_disj not_not not_less [of trNY selNY] conj_assoc)

lemma entry_ok_iff:
  assumes "\<not> HasPosition t" and "\<not> Exited t"
  shows "entry_ok f a b c u p z t \<longleftrightarrow>
    \<not> entry_rejected f b c u (minutes_after a u) (trade_update u (minutes_after a u) p z t) p
    \<and> SawCrossInWindow (crossed_cell a c u p (trade_update u (minutes_after a u) p z t))"
proof -
  have "SawCrossInWindow (crossed_cell a c u p (trade_update u (minutes_after a u) p z t)) \<longleftrightarrow>
    SawCrossInWindow t \<or> cross_now (trade_update u (minutes_after a u) p z t) p
      \<and> a + minute_ns \<le> u \<and> u < c"
    using assms by (auto simp: crossed_cell_def)
  then show ?thesis
    unfolding not_entry_rejected entry_ok_def Let_def cross_now_def
    by (simp only: trade_update_fields conj_assoc)
qed

lemma HasPosition_entered [simp]: "HasPosition (entered e u m p t)" "Exited (entered e u m p t) = Exited t"
  by (simp_all add: entered_def)

lemma trade_cell_entry:
  assumes "\<not> HasPosition t" and "\<not> Exited t"
  shows "trade_cell e f so a b c d ms p z al t =
    (let u = UnixMilli ms;
         t1 = crossed_cell a c u p (trade_update u (minutes_after a u) p z t)
     in if accepted a d u p z
        then if al \<and> entry_ok f a b c u p z t then entered e u (minutes_after so u) p t1 else t1
        else t)"
  using assms by (simp add: trade_cell_def Let_def act_cell_def entry_ok_iff)

lemma trade_cell_exit:
  assumes "HasPosition t" and "\<not> Exited t"
  shows "trade_cell e f so a b c d ms p z al t =
    (let u = UnixMilli ms;
         t1 = trade_update u (minutes_after a u) p z t
     in if accepted a d u p z
        then if al then manage_cell u (minutes_after so u) p t1 else t1
        else t)"
  using assms by (simp add: trade_cell_def Let_def act_cell_def crossed_cell_def)

lemma trade_cell_done:
  assumes "Exited t"
  shows "trade_cell e f so a b c d ms p z al t =
    (let u = UnixMilli ms
     in if accepted a d u p z then trade_update u (minutes_after a u) p z t else t)"
  using assms by (simp add: trade_cell_def Let_def act_cell_def crossed_cell_def)

section \<open>What a trade announces\<close>

text \<open>The text events of an entry and of an exit, up to the identifier of their audio.\<close>

definition buy_event :: "engine \<Rightarrow> gotime \<Rightarrow> string \<Rightarrow> string \<Rightarrow> event" where
  "buy_event e u symb audioID =
     \<lparr>ev_ID = show_int u @ ''-BUY-'' @ symb, ev_TimeNY = fmt_hms (e_loc e) u, ev_Type = ''BUY'',
      ev_Symbol = symb, ev_Message = ''BUY '' @ symb @ '' ('' @ SpellNATO (e_unicode e) symb @ '')'',
      ev_AudioID = audioID, ev_Level = ''signal''\<rparr>"

definition exit_event :: "engine \<Rightarrow> gotime \<Rightarrow> string \<Rightarrow> string \<Rightarrow> string \<Rightarrow> string \<Rightarrow> event" where
  "exit_event e u symb reason txt audioID =
     \<lparr>ev_ID = show_int u @ ''-'' @ reason @ ''-'' @ symb, ev_TimeNY = fmt_hms (e_loc e) u, ev_Type = reason,
      ev_Symbol = symb, ev_Message = txt, ev_AudioID = audioID, ev_Level = ''signal''\<rparr>"

lemma events_AddEvent_cong:
  "st_cfg s = st_cfg s' \<Longrightarrow> events s = events s' \<Longrightarrow> events (AddEvent ev s) = events (AddEvent ev s')"
  by (simp add: events_AddEvent)

lemma events_openPosition:
  "\<exists>aid. events (openPosition e u symb p s) = events (AddEvent (buy_event e u symb aid) s)"
proof -
  let ?s1 = "UpsertTicker symb (entered e u (minutes_after (fst (Times s)) u) p) s"
  let ?r = "say e u (''Buy. '' @ SpellNATO (e_unicode e) symb) ?s1"
  have "openPosition e u symb p s = AddEvent (buy_event e u symb (fst ?r)) (snd ?r)"
    by (simp add: openPosition_def Let_def case_prod_unfold emit_def buy_event_def)
  then have "events (openPosition e u symb p s) = events (AddEvent (buy_event e u symb (fst ?r)) s)"
    by (simp add: events_AddEvent frame_simps)
  then show ?thesis by blast
qed

lemma events_closePosition:
  "\<exists>aid. events (closePosition e u symb r txt p s) = events (AddEvent (exit_event e u symb r txt aid) s)"
proof -
  let ?s1 = "UpsertTicker symb (exited u (minutes_after (fst (Times s)) u) r p) s"
  let ?r = "say e u txt ?s1"
  have "closePosition e u symb r txt p s = AddEvent (exit_event e u symb r txt (fst ?r)) (snd ?r)"
    by (simp add: closePosition_def Let_def case_prod_unfold emit_def exit_event_def)
  then have "events (closePosition e u symb r txt p s)
      = events (AddEvent (exit_event e u symb r txt (fst ?r)) s)"
    by (simp add: events_AddEvent frame_simps)
  then show ?thesis by blast
qed

definition exit_text :: "string \<Rightarrow> string \<Rightarrow> string" where
  "exit_text reason symb = (if reason = ''PROFIT'' then ''PROFIT! '' @ symb else ''STOP LOSS HIT! '' @ symb)"

text \<open>The event a change of the position's state announces, if it announces one.\<close>

definition announces ::
  "engine \<Rightarrow> gotime \<Rightarrow> string \<Rightarrow> ticker_state \<Rightarrow> ticker_state \<Rightarrow> event list \<Rightarrow> store \<Rightarrow> bool" where
  "announces e u symb t t' evs s \<longleftrightarrow>
     (\<exists>aid. evs =
        (if \<not> HasPosition t \<and> HasPosition t' then events (AddEvent (buy_event e u symb aid) s)
         else if \<not> Exited t \<and> Exited t'
         then events (AddEvent (exit_event e u symb (ExitReason t') (exit_text (ExitReason t') symb) aid) s)
         else events s))"

lemma announces_open:
  "\<not> HasPosition t \<Longrightarrow> HasPosition t' \<Longrightarrow> events s1 = events s \<Longrightarrow> st_cfg s1 = st_cfg s
    \<Longrightarrow> announces e u symb t t' (events (openPosition e u symb p s1)) s"
  using events_openPosition [of e u symb p s1] events_AddEvent_cong [of s1 s]
  by (auto simp: announces_def)

lemma announces_close:
  "HasPosition t = HasPosition t' \<Longrightarrow> \<not> Exited t \<Longrightarrow> Exited t' \<Longrightarrow> ExitReason t' = r
    \<Longrightarrow> events s1 = events s \<Longrightarrow> st_cfg s1 = st_cfg s
    \<Longrightarrow> announces e u symb t t' (events (closePosition e u symb r (exit_text r symb) p s1)) s"
  using events_closePosition [of e u symb r "exit_text r symb" p s1] events_AddEvent_cong [of s1 s]
  by (auto simp: announces_def)

lemma announces_nothing:
  "HasPosition t = HasPosition t' \<Longrightarrow> Exited t = Exited t' \<Longrightarrow> announces e u symb t t' (events s) s"
  by (auto simp: announces_def)

lemma announces_manage:
  assumes "HasPosition t" "\<not> Exited t" and "t' = manage_cell u m p ts"
    and "HasPosition ts = HasPosition t" "Exited ts = Exited t" "events s1 = events s" "st_cfg s1 = st_cfg s"
  shows "announces e u symb t t' (events (manage_position e u symb p ts s1)) s"
proof -
  have tx: "''PROFIT! '' @ symb = exit_text ''PROFIT'' symb" "''STOP LOSS HIT! '' @ symb = exit_text ''STOP'' symb"
    by (simp_all add: exit_text_def)
  consider "TakeProfitPrice ts \<le> p \<and> 0 < TakeProfitPrice ts"
    | "\<not> (TakeProfitPrice ts \<le> p \<and> 0 < TakeProfitPrice ts)" "p \<le> StopPrice ts \<and> 0 < StopPrice ts"
    | "\<not> (TakeProfitPrice ts \<le> p \<and> 0 < TakeProfitPrice ts)" "\<not> (p \<le> StopPrice ts \<and> 0 < StopPrice ts)"
    by blast
  then show ?thesis
  proof cases
    case 1
    show ?thesis unfolding manage_position_def if_P [OF 1] tx
      using assms 1 by (intro announces_close) (simp_all add: manage_cell_def exited_def)
  next
    case 2
    show ?thesis unfolding manage_position_def if_not_P [OF 2(1)] if_P [OF 2(2)] tx
      using assms 2 by (intro announces_close) (auto simp add: manage_cell_def exited_def)
  next
    case 3
    have "t' = ts" "manage_position e u symb p ts s1 = s1"
      using assms(3) 3 unfolding manage_cell_def manage_position_def if_not_P [OF 3(1)] if_not_P [OF 3(2)]
      by simp_all
    then show ?thesis using assms by (simp add: announces_nothing)
  qed
qed

lemma announces_act:
  assumes g: "GetTicker s symb = Some ts"
    and t': "GetTicker (act_on_trade e a b c u m symb p al ts s) symb = Some t'"
  shows "announces e u symb ts t' (events (act_on_trade e a b c u m symb p al ts s)) s"
proof -
  define mark where "mark \<longleftrightarrow> \<not> HasPosition ts \<and> \<not> Exited ts \<and> \<not> SawCrossInWindow ts \<and> cross_now ts p
     \<and> \<not> u < a + 1 * minute_ns \<and> u < c"
  define s2 where "s2 = (if mark then UpsertTicker symb (mark_cross u p) s else s)"
  have s2: "events s2 = events s" "st_cfg s2 = st_cfg s"
    by (simp_all add: s2_def frame_simps)
  have g2: "GetTicker s2 symb = Some (if mark then mark_cross u p ts else ts)"
    using g by (simp add: s2_def cells.get_upd)
  let ?enter = "al \<and> \<not> HasPosition ts \<and> \<not> Exited ts \<and> \<not> entry_rejected (Filters s) b c u m ts p
    \<and> (SawCrossInWindow ts \<or> mark)"
  have act0: "act_on_trade e a b c u m symb p al ts s =
     (if al \<and> \<not> HasPosition ts \<and> \<not> Exited ts
      then if entry_rejected (Filters s) b c u m ts p then s2
           else if SawCrossInWindow ts \<or> mark then openPosition e u symb p s2 else s2
      else if al \<and> HasPosition ts \<and> \<not> Exited ts then manage_position e u symb p ts s2
      else s2)"
    unfolding act_on_trade_def Let_def s2_def mark_def by (rule refl)
  have act: "act_on_trade e a b c u m symb p al ts s =
     (if ?enter then openPosition e u symb p s2
      else if al \<and> HasPosition ts \<and> \<not> Exited ts then manage_position e u symb p ts s2
      else s2)"
    unfolding act0 by (cases al; cases "HasPosition ts"; cases "Exited ts"; simp)
  show ?thesis
  proof (cases ?enter)
    case True
    note eq = act [unfolded if_P [OF True]]
    have "HasPosition t'" using t' unfolding eq by (auto simp: get_openPosition)
    then show ?thesis unfolding eq using True s2 by (intro announces_open) simp_all
  next
    case False
    note eq = act [unfolded if_not_P [OF False]]
    show ?thesis
    proof (cases "al \<and> HasPosition ts \<and> \<not> Exited ts")
      case True
      then have "\<not> mark" by (simp add: mark_def)
      then have "t' = manage_cell u (minutes_after (fst (Times s2)) u) p ts"
        using t' g2 True get_manage_position [of s2 symb ts ts e u p symb] unfolding eq by simp
      then show ?thesis unfolding eq if_P [OF True] using True s2 by (intro announces_manage) simp_all
    next
      case no: False
      have "t' = (if mark then mark_cross u p ts else ts)"
        using t' g2 unfolding eq if_not_P [OF no] by simp
      then have "HasPosition ts = HasPosition t'" "Exited ts = Exited t'" by simp_all
      then show ?thesis unfolding eq if_not_P [OF no] s2(1) by (rule announces_nothing)
    qed
  qed
qed

lemma announces_trade:
  assumes t: "GetTicker s symb = Some t"
    and t': "GetTicker (processTrade e a b c d symb ms p z al s) symb = Some t'"
  shows "announces e (UnixMilli ms) symb t t' (events (processTrade e a b c d symb ms p z al s)) s"
proof (cases "symb \<noteq> [] \<and> accepted a d (UnixMilli ms) p z")
  case False
  then have "processTrade e a b c d symb ms p z al s = s"
    using t by (auto simp: processTrade_def accepted_def Let_def)
  with t t' show ?thesis by (simp add: announces_nothing)
next
  case True
  let ?u = "UnixMilli ms"
  let ?s1 = "UpsertTicker symb (trade_update ?u (minutes_after a ?u) p z) s"
  let ?ts = "trade_update ?u (minutes_after a ?u) p z t"
  have g1: "GetTicker ?s1 symb = Some ?ts" using t by (simp add: cells.get_upd)
  have eq: "processTrade e a b c d symb ms p z al s =
      act_on_trade e a b c ?u (minutes_after a ?u) symb p al ?ts ?s1"
    using True t g1 by (simp add: processTrade_def accepted_def Let_def)
  have ev: "events (AddEvent ev ?s1) = events (AddEvent ev s)" "events ?s1 = events s" for ev
    using events_AddEvent_cong [of ?s1 s] by (simp_all add: frame_simps)
  show ?thesis
    using announces_act [OF g1 t' [unfolded eq]] unfolding eq announces_def trade_update_fields ev .
qed

section \<open>A small engine and store\<close>

text \<open>
  A constant UTC-4 zone, no speech client, the default configuration with open filters, and one
  ticker that has crossed its VWAP; the session times are those of the defaults on 1970-01-02. The
  properties below are instantiated on it.
\<close>

definition sample_unicode :: unicode where
  "sample_unicode = \<lparr>uni_ToUpper = (\<lambda>s. s), uni_TrimFunc = (\<lambda>s. s), uni_TrimRightFunc = (\<lambda>s. s)\<rparr>"

definition sample_config :: config where
  "sample_config = applyDefaults zero_config"

definition sample_engine :: engine where
  "sample_engine =
     \<lparr>e_cfg = sample_config, e_tts = None, e_loc = fixed_zone (- 14400), e_http = (\<lambda>_. Inl []),
      e_rand = (\<lambda>_ _. []), e_unicode = sample_unicode\<rparr>"

definition sample_filters :: runtime_filters where
  "sample_filters =
     \<lparr>Open5mRangePctMin = Fin (1 / 16), Open5mRangePctMax = 1, Open5mVolMin = 0, Open5mVolMax = Fin 1000000,
      Open5mTodayPctMin = Fin 100, Open5mTodayPctMax = Fin 10000, EntryMinAfterOpen = 5,
      EntryMaxAfterOpen = 12, EntryPriceMin = 1, EntryPriceMax = Fin 50,
      SoldOffFromOpenPctMin = Fin (1 / 4), SoldOffOpen5mRangePctMin = Fin (1 / 64),
      SoldOffOpen5mTodayPctMin = Fin 50\<rparr>"

definition ny :: "int \<Rightarrow> int \<Rightarrow> gotime" where
  "ny h m = (86400 + (h + 4) * 3600 + m * 60) * 1000000000"

definition sample_ticker :: ticker_state where
  "sample_ticker =
     (new_ticker ''ABC'')\<lparr>Open0930 := Fin 8, ORHigh := Fin 9, ORLow := Fin 8, Open5mVol := Fin 100000,
       Open5mRangePct := Fin (1 / 8), Open5mTodayPct := Fin 200, CumPV := Fin 800, CumV := Fin 100,
       VWAP := Fin 8, LastPrice := Fin 8, SawCrossInWindow := True, Status := ''tracking''\<rparr>"

definition long_ticker :: ticker_state where
  "long_ticker = sample_ticker\<lparr>HasPosition := True, EntryPrice := Fin 10, EntryTime := ny 9 36,
     TakeProfitPrice := Fin 12, StopPrice := Fin 9, MaxPriceSinceEntry := Fin 10,
     MinPriceSinceEntry := Fin 10, Status := ''LONG''\<rparr>"

definition sample_store :: "ticker_state \<Rightarrow> store" where
  "sample_store t =
     (SetTimes (ny 9 30) (ny 9 35) (ny 9 43) (ny 11 0) (New 0 sample_config [''ABC'', ''XYZ'']))
       \<lparr>filters := sample_filters, tickers := [(''ABC'', t), (''XYZ'', new_ticker ''XYZ'')]\<rparr>"

lemmas sample_defs = sample_store_def sample_filters_def sample_engine_def sample_config_def
  SetTimes_def New_def GetTicker_def Filters_def Times_def

lemma get_sample [simp]:
  "GetTicker (sample_store t) ''ABC'' = Some t" "Filters (sample_store t) = sample_filters"
  "fst (Times (sample_store t)) = ny 9 30" "watchlist (sample_store t) = [''ABC'', ''XYZ'']"
  "st_cfg (sample_store t) = sample_config" "events (sample_store t) = []"
  by (simp_all add: sample_store_def SetTimes_def New_def GetTicker_def Filters_def Times_def)

lemma risk_ok_sample [simp]: "risk_ok sample_engine"
proof -
  have "(0 :: float64) \<le> rnd (1 / 20)" "(0 :: float64) \<le> rnd (1 / 50)" by (rule flt_imp_fle, simp)+
  moreover have "(0 :: float64) \<le> 0" by (simp add: fle_refl_iff)
  ultimately show ?thesis
    by (simp add: risk_ok_def sample_engine_def sample_config_def applyDefaults_def zero_config_def
        or_pos_float_def Let_def)
qed

lemma wf_events_sample [simp]: "wf_events (sample_store t)"
  by (simp add: wf_events_def event_cap_def sample_config_def applyDefaults_def zero_config_def
      or_pos_int_def)

section \<open>Properties\<close>

text \<open>C1. Entry: on a ticker without position, a trade opens one exactly when it is accepted, actions are
  allowed and every condition of the strategy holds (time window, minutes window, opening range,
  volume, today-percentage and price filters, price at or above the VWAP the trade itself moves, and
  a cross seen now or before). The position then has the trade's price and time.\<close>

theorem entry_iff:
  assumes t: "GetTicker s symb = Some t" and "symb \<noteq> []" and no: "\<not> HasPosition t" "\<not> Exited t"
  shows "\<exists>t'. GetTicker (processTrade e openNY selNY cutoffNY exitNY symb ms p z al s) symb = Some t'
    \<and> (HasPosition t' \<longleftrightarrow> accepted openNY exitNY (UnixMilli ms) p z \<and> al
          \<and> entry_ok (Filters s) openNY selNY cutoffNY (UnixMilli ms) p z t)
    \<and> (HasPosition t' \<longrightarrow> EntryPrice t' = p \<and> EntryTime t' = UnixMilli ms
          \<and> TakeProfitPrice t' = p * (rnd 1 + TakeProfitPct (cfg_Risk (e_cfg e)))
          \<and> StopPrice t' = p * (rnd 1 - StopLossPct (cfg_Risk (e_cfg e))) \<and> \<not> Exited t')"
proof (intro exI conjI)
  let ?t' = "trade_cell e (Filters s) (fst (Times s)) openNY selNY cutoffNY exitNY ms p z al t"
  show "GetTicker (processTrade e openNY selNY cutoffNY exitNY symb ms p z al s) symb = Some ?t'"
    using assms by (simp add: get_processTrade)
  note eq = trade_cell_entry [OF no, of e "Filters s" "fst (Times s)" openNY selNY cutoffNY exitNY ms p z al]
  show "HasPosition ?t' \<longleftrightarrow> accepted openNY exitNY (UnixMilli ms) p z \<and> al
          \<and> entry_ok (Filters s) openNY selNY cutoffNY (UnixMilli ms) p z t"
    unfolding eq using no by (simp add: Let_def)
  show "HasPosition ?t' \<longrightarrow> EntryPrice ?t' = p \<and> EntryTime ?t' = UnixMilli ms
          \<and> TakeProfitPrice ?t' = p * (rnd 1 + TakeProfitPct (cfg_Risk (e_cfg e)))
          \<and> StopPrice ?t' = p * (rnd 1 - StopLossPct (cfg_Risk (e_cfg e))) \<and> \<not> Exited ?t'"
    unfolding eq using no by (simp add: Let_def entered_def)
qed

lemma minutes_six: "minutes_after (ny 9 30) (ny 9 36) = Fin 6"
  by (simp add: minutes_after_def ny_def Sub_def Seconds_def tquot_def trem_def sec_ns_def of_int64_def
      zero_float64_def)

lemma sample_entry_ok: "entry_ok sample_filters (ny 9 30) (ny 9 35) (ny 9 43) (ny 9 36) (Fin 10) (Fin 100) sample_ticker"
proof -
  have "Fin 12 \<le> Fin 12 + rnd (999 / 1000)"
    using default_pos rnd_mono [of 0 "999 / 1000"] by (intro fplus_ge_left) (simp_all add: zero_float64_def)
  then have "\<not> Fin 12 + rnd (999 / 1000) < Fin 6"
    using fle_flt_trans flt_not_fle by fastforce
  then show ?thesis
    unfolding entry_ok_def minutes_six Let_def in_range_def
    by (simp add: sample_filters_def sample_ticker_def new_ticker_def ny_def of_int64_def
        zero_float64_def one_float64_def rnd_dyadic [of 9 0])
qed

lemma sample_accepted:
  "accepted (ny 9 30) (ny 11 0) (ny 9 36) (Fin 10) (Fin 100)" "UnixMilli (ny 9 36 div 1000000) = ny 9 36"
  by (simp_all add: accepted_def ny_def minute_ns_def sec_ns_def UnixMilli_def)

theorem entry_iff_witness:
  "\<exists>t'. GetTicker (processTrade sample_engine (ny 9 30) (ny 9 35) (ny 9 43) (ny 11 0) ''ABC''
        (ny 9 36 div 1000000) (Fin 10) (Fin 100) True (sample_store sample_ticker)) ''ABC'' = Some t'
    \<and> HasPosition t' \<and> EntryPrice t' = Fin 10"
proof -
  have "\<not> HasPosition sample_ticker" "\<not> Exited sample_ticker"
    by (simp_all add: sample_ticker_def new_ticker_def)
  from entry_iff [OF get_sample(1) _ this, of sample_engine "ny 9 30" "ny 9 35" "ny 9 43" "ny 11 0"
      "ny 9 36 div 1000000" "Fin 10" "Fin 100" True]
  show ?thesis by (auto simp: sample_accepted sample_entry_ok)
qed

text \<open>C2. Exit: an open position is left on a trade exactly when the trade is accepted, actions are allowed
  and the price has reached the target or the stop; the exit then has the trade's price and time, and
  the reason says which of the two it was, the target first.\<close>

theorem exit_iff:
  assumes t: "GetTicker s symb = Some t" and "symb \<noteq> []" and pos: "HasPosition t" "\<not> Exited t"
  shows "\<exists>t'. GetTicker (processTrade e openNY selNY cutoffNY exitNY symb ms p z al s) symb = Some t'
    \<and> (Exited t' \<longleftrightarrow> accepted openNY exitNY (UnixMilli ms) p z \<and> al
          \<and> (TakeProfitPrice t \<le> p \<and> 0 < TakeProfitPrice t \<or> p \<le> StopPrice t \<and> 0 < StopPrice t))
    \<and> (Exited t' \<longrightarrow> ExitPrice t' = p \<and> ExitTime t' = UnixMilli ms
          \<and> ExitReason t' = (if TakeProfitPrice t \<le> p \<and> 0 < TakeProfitPrice t then ''PROFIT'' else ''STOP''))"
proof (intro exI conjI)
  let ?t' = "trade_cell e (Filters s) (fst (Times s)) openNY selNY cutoffNY exitNY ms p z al t"
  show "GetTicker (processTrade e openNY selNY cutoffNY exitNY symb ms p z al s) symb = Some ?t'"
    using assms by (simp add: get_processTrade)
  note eq = trade_cell_exit [OF pos, of e "Filters s" "fst (Times s)" openNY selNY cutoffNY exitNY ms p z al]
  show "Exited ?t' \<longleftrightarrow> accepted openNY exitNY (UnixMilli ms) p z \<and> al
          \<and> (TakeProfitPrice t \<le> p \<and> 0 < TakeProfitPrice t \<or> p \<le> StopPrice t \<and> 0 < StopPrice t)"
    unfolding eq using pos by (simp add: Let_def Exited_manage_iff)
  show "Exited ?t' \<longrightarrow> ExitPrice ?t' = p \<and> ExitTime ?t' = UnixMilli ms
          \<and> ExitReason ?t' = (if TakeProfitPrice t \<le> p \<and> 0 < TakeProfitPrice t then ''PROFIT'' else ''STOP'')"
    unfolding eq using pos by (simp add: Let_def manage_cell_def exited_def)
qed

theorem exit_iff_witness:
  "\<exists>t'. GetTicker (processTrade sample_engine (ny 9 30) (ny 9 35) (ny 9 43) (ny 11 0) ''ABC''
        (ny 9 36 div 1000000) (Fin 8) (Fin 100) True (sample_store long_ticker)) ''ABC'' = Some t'
    \<and> Exited t' \<and> ExitReason t' = ''STOP'' \<and> ExitPrice t' = Fin 8"
proof -
  have "HasPosition long_ticker" "\<not> Exited long_ticker" "StopPrice long_ticker = Fin 9"
    "TakeProfitPrice long_ticker = Fin 12"
    by (simp_all add: long_ticker_def sample_ticker_def new_ticker_def)
  moreover have "accepted (ny 9 30) (ny 11 0) (ny 9 36) (Fin 8) (Fin 100)"
    by (simp add: accepted_def ny_def minute_ns_def sec_ns_def)
  ultimately show ?thesis
    using exit_iff [OF get_sample(1) [of long_ticker], of sample_engine "ny 9 30" "ny 9 35" "ny 9 43"
        "ny 11 0" "ny 9 36 div 1000000" "Fin 8" "Fin 100" True]
    by (auto simp: sample_accepted(2) zero_float64_def)
qed

text \<open>C24. Announcements: a trade adds the BUY event of its symbol when it opens the position, the event named
  by the exit reason when it closes it, and no event otherwise.\<close>

theorem trade_events:
  assumes "GetTicker s symb = Some t"
    and "GetTicker (processTrade e openNY selNY cutoffNY exitNY symb ms p z al s) symb = Some t'"
  shows "\<exists>aid. events (processTrade e openNY selNY cutoffNY exitNY symb ms p z al s) =
    (if \<not> HasPosition t \<and> HasPosition t'
     then events (AddEvent (buy_event e (UnixMilli ms) symb aid) s)
     else if \<not> Exited t \<and> Exited t'
     then events (AddEvent (exit_event e (UnixMilli ms) symb (ExitReason t')
                              (exit_text (ExitReason t') symb) aid) s)
     else events s)"
  using announces_trade [OF assms] unfolding announces_def .

theorem trade_events_witness:
  "\<exists>s' t' aid. s' = processTrade sample_engine (ny 9 30) (ny 9 35) (ny 9 43) (ny 11 0) ''ABC''
        (ny 9 36 div 1000000) (Fin 10) (Fin 100) True (sample_store sample_ticker)
    \<and> GetTicker s' ''ABC'' = Some t' \<and> HasPosition t'
    \<and> events s' = [buy_event sample_engine (ny 9 36) ''ABC'' aid]"
proof -
  let ?s' = "processTrade sample_engine (ny 9 30) (ny 9 35) (ny 9 43) (ny 11 0) ''ABC''
        (ny 9 36 div 1000000) (Fin 10) (Fin 100) True (sample_store sample_ticker)"
  have no: "\<not> HasPosition sample_ticker" "\<not> Exited sample_ticker"
    by (simp_all add: sample_ticker_def new_ticker_def)
  define t' where "t' = trade_cell sample_engine sample_filters (ny 9 30) (ny 9 30) (ny 9 35) (ny 9 43)
      (ny 11 0) (ny 9 36 div 1000000) (Fin 10) (Fin 100) True sample_ticker"
  have t': "GetTicker ?s' ''ABC'' = Some t'" by (simp add: get_processTrade t'_def)
  have ex: "HasPosition t'"
    unfolding t'_def trade_cell_entry [OF no] using no by (simp add: Let_def sample_accepted sample_entry_ok)
  have cap: "MaxEvents (cfg_UI sample_config) = 250"
    by (simp add: sample_config_def applyDefaults_def zero_config_def or_pos_int_def)
  show ?thesis
    using trade_events [OF get_sample(1) t'] t' ex no
    by (auto simp: sample_accepted(2) events_AddEvent cap)
qed

text \<open>Replay without actions: when actions are not allowed (the catch-up of a live historic run), a trade
  adds no event and no audio and changes the position of no ticker.\<close>

theorem no_actions_without_permission:
  "events (processTrade e openNY selNY cutoffNY exitNY symb ms p z False s) = events s
   \<and> audio (processTrade e openNY selNY cutoffNY exitNY symb ms p z False s) = audio s
   \<and> map_option (\<lambda>t. (HasPosition t, Exited t, EntryPrice t, ExitPrice t, ExitReason t))
       (GetTicker (processTrade e openNY selNY cutoffNY exitNY symb ms p z False s) k)
     = map_option (\<lambda>t. (HasPosition t, Exited t, EntryPrice t, ExitPrice t, ExitReason t)) (GetTicker s k)"
  by (rule no_action_trade)

text \<open>Isolation: a trade touches the state of its own symbol only, creates no ticker, and leaves the
  configuration, mode, filters, watchlist, session times and phase as they are; the ticker it
  touches is the specified function of the ticker before.\<close>

theorem trade_isolated:
  "GetTicker (processTrade e openNY selNY cutoffNY exitNY symb ms p z al s) k =
     (if k = symb \<and> symb \<noteq> []
      then map_option (trade_cell e (Filters s) (fst (Times s)) openNY selNY cutoffNY exitNY ms p z al)
             (GetTicker s k)
      else GetTicker s k)
   \<and> settings (processTrade e openNY selNY cutoffNY exitNY symb ms p z al s) = settings s
   \<and> Times (processTrade e openNY selNY cutoffNY exitNY symb ms p z al s) = Times s
   \<and> phase (processTrade e openNY selNY cutoffNY exitNY symb ms p z al s) = phase s"
  by (cases "symb = []")
    (auto simp: frame_simps get_processTrade get_processTrade_other processTrade_no_symbol)

lemma lc_storeD: "lc_store s s' \<Longrightarrow> GetTicker s k = Some t \<Longrightarrow> \<exists>t'. GetTicker s' k = Some t' \<and> lc t t'"
  by (simp add: lc_store_def)

text \<open>C3. Lifecycle: over any sequence of trades and time exits no ticker disappears, a position keeps its
  entry, target and stop, an exit is final with its reason, time and price, the first cross stays the
  first, and the opening metrics stay.\<close>

theorem session_lifecycle:
  assumes "GetTicker s k = Some t"
  shows "\<exists>t'. GetTicker (fold (session_step e w) evs s) k = Some t' \<and> lc t t'"
  by (rule lc_storeD [OF session.rel_run assms])

theorem session_lifecycle_witness:
  "\<exists>t'. GetTicker (fold (session_step sample_engine (ny 9 30, ny 9 35, ny 9 43, ny 11 0))
        [Trade ''ABC'' 0 1 1 True, TimeExit (ny 11 0)] (sample_store long_ticker)) ''ABC'' = Some t'
    \<and> HasPosition t' \<and> EntryPrice t' = Fin 10"
proof -
  have "HasPosition long_ticker" "EntryPrice long_ticker = Fin 10" by (simp_all add: long_ticker_def)
  moreover obtain t' where t': "GetTicker (fold (session_step sample_engine (ny 9 30, ny 9 35, ny 9 43, ny 11 0))
      [Trade ''ABC'' 0 1 1 True, TimeExit (ny 11 0)] (sample_store long_ticker)) ''ABC'' = Some t'"
    "lc long_ticker t'"
    using session_lifecycle [OF get_sample(1) [of long_ticker]] by blast
  ultimately have "HasPosition t' \<and> EntryPrice t' = Fin 10" by (simp add: lc_def)
  with t'(1) show ?thesis by blast
qed

text \<open>C4. Position invariant: with risk percentages that are not negative and finite trade prices, over any
  sequence of trades and time exits every position has a positive entry between stop and target and
  between the extremes seen since, a PROFIT exit is not below the entry and a STOP exit not above it,
  rounding included.\<close>

theorem session_position_invariant:
  assumes "risk_ok e" and "\<forall>ev \<in> set evs. data_event ev"
    and "inv_store s"
    and "GetTicker (fold (session_step e w) evs s) k = Some t"
  shows "pos_inv t"
proof -
  have "inv_store (fold (session_step e w) evs s)"
    using assms(1-3) by (intro positions.inv_run) auto
  then show ?thesis using assms(4) by (simp add: inv_store_def)
qed

lemma sample_lookup: "GetTicker (sample_store t) k = Some t' \<Longrightarrow> t' = t \<or> t' = new_ticker ''XYZ''"
  by (auto simp: sample_store_def GetTicker_def split: if_splits)

theorem session_position_invariant_witness:
  "\<exists>t. GetTicker (fold (session_step sample_engine (ny 9 30, ny 9 35, ny 9 43, ny 11 0))
        [Trade ''ABC'' (ny 9 36 div 1000000) (Fin 10) (Fin 100) True, TimeExit (ny 11 0)]
        (sample_store sample_ticker)) ''ABC'' = Some t \<and> pos_inv t"
proof -
  let ?evs = "[Trade ''ABC'' (ny 9 36 div 1000000) (Fin 10) (Fin 100) True, TimeExit (ny 11 0)]"
  let ?w = "(ny 9 30, ny 9 35, ny 9 43, ny 11 0)"
  have init: "inv_store (sample_store sample_ticker)"
    using sample_lookup by (fastforce simp: inv_store_def sample_ticker_def pos_inv_def new_ticker_def)
  have data: "\<forall>ev \<in> set ?evs. data_event ev" by (simp add: data_price_def)
  obtain t where t: "GetTicker (fold (session_step sample_engine ?w) ?evs (sample_store sample_ticker)) ''ABC'' = Some t"
    using lc_storeD [OF session.rel_run get_sample(1)] by blast
  from session_position_invariant [OF risk_ok_sample data init t] t show ?thesis by blast
qed

text \<open>C25. VWAP: over any session the running VWAP of a ticker is the quotient of the price-volume and volume
  sums of the trades that counted for it, as soon as the volume is positive.\<close>

theorem session_vwap:
  assumes "GetTicker s k = Some t" and "vwap_inv t" and "k \<noteq> []"
  shows "\<exists>t'. GetTicker (fold (session_step e w) evs s) k = Some t'
    \<and> (0 < sum_v (CumV t) (counted w k evs) \<longrightarrow>
        VWAP t' = sum_pv (CumPV t) (counted w k evs) / sum_v (CumV t) (counted w k evs))"
  using vwap_run [OF assms, of e w evs] by (auto simp: vwap_inv_def)

theorem session_vwap_witness:
  "\<exists>t'. GetTicker (fold (session_step sample_engine (ny 9 30, ny 9 35, ny 9 43, ny 11 0))
        [Trade ''ABC'' (ny 9 36 div 1000000) (Fin 10) (Fin 100) True, Trade ''ABC'' 0 (Fin 99) (Fin 1) True]
        (sample_store sample_ticker)) ''ABC'' = Some t' \<and> VWAP t' = Fin 9"
proof -
  let ?evs = "[Trade ''ABC'' (ny 9 36 div 1000000) (Fin 10) (Fin 100) True, Trade ''ABC'' 0 (Fin 99) (Fin 1) True]"
  let ?w = "(ny 9 30, ny 9 35, ny 9 43, ny 11 0)"
  have c: "counted ?w ''ABC'' ?evs = [(Fin 10, Fin 100)]"
    using sample_accepted by (simp add: accepted_def [of _ _ 0] ny_def UnixMilli_def [of 0])
  have cum: "CumPV sample_ticker = Fin 800" "CumV sample_ticker = Fin 100" "VWAP sample_ticker = Fin 8"
    by (simp_all add: sample_ticker_def)
  have "vwap_inv sample_ticker" by (simp add: vwap_inv_def cum rnd_dyadic [of 8 0])
  from session_vwap [OF get_sample(1) this, of sample_engine ?w ?evs]
  show ?thesis
    unfolding c cum by (auto simp: sum_pv_def sum_v_def zero_float64_def rnd_dyadic [of 9 0])
qed

text \<open>C21. Time exit: after the 11 o'clock close no watchlist ticker holds an open position; the ones that did
  left with reason TIME_EXIT at the last price (or at the entry when there is none), every other
  ticker is unchanged, and closing a second time changes no ticker.\<close>

theorem eleven_am_flat:
  "GetTicker (onElevenAM e u s) k =
     (case GetTicker s k of
        None \<Rightarrow> None
      | Some t \<Rightarrow>
          Some (if k \<in> set (watchlist s) \<and> HasPosition t \<and> \<not> Exited t
                then t\<lparr>Exited := True, ExitReason := ''TIME_EXIT'', ExitTime := u,
                       ExitPrice := (if LastPrice t \<le> 0 then EntryPrice t else LastPrice t),
                       ExitMinutesAfterOpen := minutes_after (fst (Times s)) u,
                       Status := ''TIME_EXIT''\<rparr>
                else t))
   \<and> GetTicker (onElevenAM e u (onElevenAM e u s)) k = GetTicker (onElevenAM e u s) k"
proof -
  have "watchlist (onElevenAM e u s) = watchlist s \<and> Times (onElevenAM e u s) = Times s"
    using onElevenAM_frame [of e u s] by (simp add: settings_def)
  then show ?thesis
    by (cases "GetTicker s k")
      (auto simp: get_onElevenAM timed_out_def exited_def close_price_def)
qed

text \<open>The running extremes as a batch computation over the counted prices of a session.\<close>

fun held_prices ::
  "gotime \<times> gotime \<times> gotime \<times> gotime \<Rightarrow> string \<Rightarrow> gotime \<Rightarrow> session_event list \<Rightarrow> float64 list" where
  "held_prices w k entry [] = []"
| "held_prices (a, b, c, d) k entry (Trade symb ms p z al # es) =
     (if symb = k \<and> accepted a d (UnixMilli ms) p z \<and> entry \<le> UnixMilli ms then [p] else [])
       @ held_prices (a, b, c, d) k entry es"
| "held_prices w k entry (TimeExit u # es) = held_prices w k entry es"

definition fmax :: "float64 \<Rightarrow> float64 \<Rightarrow> float64" where
  "fmax m p = (if m < p then p else m)"

definition fmin :: "float64 \<Rightarrow> float64 \<Rightarrow> float64" where
  "fmin m p = (if p < m then p else m)"

definition held :: "ticker_state \<Rightarrow> bool" where
  "held t \<longleftrightarrow> HasPosition t \<and> \<not> IsZero (EntryTime t) \<and> 0 < MinPriceSinceEntry t \<and> 0 < MaxPriceSinceEntry t"

lemma track_after_update:
  "MaxPriceSinceEntry (trade_update u m p z t) = MaxPriceSinceEntry (track_excursion u p t)"
  "MinPriceSinceEntry (trade_update u m p z t) = MinPriceSinceEntry (track_excursion u p t)"
  by (auto simp: trade_update_def Let_def track_excursion_def vwap_update_def)

lemma held_step:
  assumes g: "GetTicker s k = Some t" and h: "held t" and k: "k \<noteq> []"
  shows "\<exists>t1. GetTicker (session_step e w ev s) k = Some t1 \<and> held t1 \<and> EntryTime t1 = EntryTime t
    \<and> MaxPriceSinceEntry t1 = foldl fmax (MaxPriceSinceEntry t) (held_prices w k (EntryTime t) [ev])
    \<and> MinPriceSinceEntry t1 = foldl fmin (MinPriceSinceEntry t) (held_prices w k (EntryTime t) [ev])"
proof -
  obtain a b c d where w: "w = (a, b, c, d)" by (cases w)
  have pos: "HasPosition t" "0 < MinPriceSinceEntry t" "0 < MaxPriceSinceEntry t" "\<not> IsZero (EntryTime t)"
    using h by (simp_all add: held_def)
  show ?thesis
  proof (cases ev)
    case (TimeExit u)
    with g h w show ?thesis by (auto simp: get_onElevenAM timed_out_def exited_def held_def)
  next
    case (Trade symb ms p z al)
    show ?thesis
    proof (cases "symb = k")
      case False
      with g h Trade w show ?thesis by (auto simp: get_processTrade_other)
    next
      case True
      let ?u = "UnixMilli ms"
      let ?t1 = "trade_cell e (Filters s) (fst (Times s)) a b c d ms p z al t"
      have g1: "GetTicker (session_step e w ev s) k = Some ?t1"
        using g k True Trade w by (simp add: get_processTrade)
      have p: "0 < p" if "\<not> is_nan p" "accepted a d ?u p z"
        using that fnot_le [of p 0] by (simp add: accepted_def)
      have f: "HasPosition ?t1" "EntryTime ?t1 = EntryTime t"
        "MaxPriceSinceEntry ?t1 = (if accepted a d ?u p z then MaxPriceSinceEntry (track_excursion ?u p t)
           else MaxPriceSinceEntry t)"
        "MinPriceSinceEntry ?t1 = (if accepted a d ?u p z then MinPriceSinceEntry (track_excursion ?u p t)
           else MinPriceSinceEntry t)"
        using pos by (auto simp: trade_cell_def Let_def act_cell_def manage_cell_def exited_def
            crossed_cell_def track_after_update)
      have e: "MaxPriceSinceEntry ?t1 = foldl fmax (MaxPriceSinceEntry t) (held_prices w k (EntryTime t) [ev])"
        "MinPriceSinceEntry ?t1 = foldl fmin (MinPriceSinceEntry t) (held_prices w k (EntryTime t) [ev])"
        using pos track_excursion_extremes [OF pos(2,3), of ?u p] True Trade w
        by (auto simp: f fmax_def fmin_def)
      have "0 < MaxPriceSinceEntry ?t1" "0 < MinPriceSinceEntry ?t1"
        using pos track_excursion_extremes [OF pos(2,3), of ?u p] p flt_not_nan flt_trans
        by (auto simp: f)
      then have "held ?t1" using f(1,2) pos(4) by (simp add: held_def)
      with g1 f(2) e show ?thesis by blast
    qed
  qed
qed

lemma held_prices_Cons: "held_prices w k u (ev # es) = held_prices w k u [ev] @ held_prices w k u es"
  by (cases ev; cases w) simp_all

lemma held_run:
  assumes "GetTicker s k = Some t" and "held t" and "k \<noteq> []"
  shows "\<exists>t'. GetTicker (fold (session_step e w) evs s) k = Some t'
    \<and> MaxPriceSinceEntry t' = foldl fmax (MaxPriceSinceEntry t) (held_prices w k (EntryTime t) evs)
    \<and> MinPriceSinceEntry t' = foldl fmin (MinPriceSinceEntry t) (held_prices w k (EntryTime t) evs)"
  using assms
proof (induction evs arbitrary: s t)
  case Nil
  then show ?case by simp
next
  case (Cons ev evs)
  obtain t1 where t1: "GetTicker (session_step e w ev s) k = Some t1" "held t1" "EntryTime t1 = EntryTime t"
    "MaxPriceSinceEntry t1 = foldl fmax (MaxPriceSinceEntry t) (held_prices w k (EntryTime t) [ev])"
    "MinPriceSinceEntry t1 = foldl fmin (MinPriceSinceEntry t) (held_prices w k (EntryTime t) [ev])"
    using held_step [OF Cons.prems] by blast
  from Cons.IH [OF t1(1,2) Cons.prems(3)] t1(3-5) show ?case
    by (simp add: held_prices_Cons [of w k "EntryTime t" ev evs])
qed

text \<open>C26. Excursions: for a position with a time of entry and positive recorded extremes, as every entry at a
  positive price leaves it, the highest and lowest price recorded after any session are the maximum and the
  minimum of the recorded extreme and of the prices of the accepted trades since the entry, those after the exit
  included.\<close>

theorem session_extremes:
  assumes "GetTicker s k = Some t" and "k \<noteq> []" and "HasPosition t" and "\<not> IsZero (EntryTime t)"
    and "0 < MinPriceSinceEntry t" and "0 < MaxPriceSinceEntry t"
  shows "\<exists>t'. GetTicker (fold (session_step e w) evs s) k = Some t'
    \<and> MaxPriceSinceEntry t' = foldl fmax (MaxPriceSinceEntry t) (held_prices w k (EntryTime t) evs)
    \<and> MinPriceSinceEntry t' = foldl fmin (MinPriceSinceEntry t) (held_prices w k (EntryTime t) evs)"
  using assms by (intro held_run) (simp_all add: held_def)

theorem session_extremes_witness:
  "\<exists>t'. GetTicker (fold (session_step sample_engine (ny 9 30, ny 9 35, ny 9 43, ny 11 0))
        [Trade ''ABC'' (ny 9 36 div 1000000) (Fin 11) (Fin 100) True, TimeExit (ny 11 0)]
        (sample_store long_ticker)) ''ABC'' = Some t'
    \<and> MaxPriceSinceEntry t' = Fin 11 \<and> MinPriceSinceEntry t' = Fin 10"
proof -
  let ?evs = "[Trade ''ABC'' (ny 9 36 div 1000000) (Fin 11) (Fin 100) True, TimeExit (ny 11 0)]"
  let ?w = "(ny 9 30, ny 9 35, ny 9 43, ny 11 0)"
  have t: "HasPosition long_ticker" "EntryTime long_ticker = ny 9 36"
    "MinPriceSinceEntry long_ticker = Fin 10" "MaxPriceSinceEntry long_ticker = Fin 10"
    by (simp_all add: long_ticker_def)
  have acc: "accepted (ny 9 30) (ny 11 0) (ny 9 36) (Fin 11) (Fin 100)"
    by (simp add: accepted_def ny_def minute_ns_def sec_ns_def)
  have "held_prices ?w ''ABC'' (ny 9 36) ?evs = [Fin 11]" by (simp add: acc sample_accepted(2))
  moreover have "\<not> IsZero (ny 9 36)" by (simp add: IsZero_def ny_def zero_time_def sec_ns_def)
  ultimately show ?thesis
    using session_extremes [OF get_sample(1) [of long_ticker], of sample_engine ?w ?evs]
    by (simp add: t fmax_def fmin_def zero_float64_def)
qed

end
