(* ===== verification/Race.thy ===== *)
theory Race
  imports Calls Trading_Properties
begin

text \<open>
  The trade loop and the 11 o'clock goroutine at the same time, with requests being served.

  Two pairs of promises are put together with \<open>rely_guarantee\<close>. For the flat end: late trades open
  nothing, so what the timer has closed stays closed. For the life of a position: the timer changes no entry,
  so the loop's copy of a ticker without a position is still right when it opens one, and the loop never
  drops a position, so the timer closes only positions. What does not survive the interleaving is that an exit
  is final: both goroutines can close the same position.
\<close>

section \<open>Calls that leave the tickers alone\<close>

definition same :: "store \<Rightarrow> store \<Rightarrow> bool" where
  "same s s' \<longleftrightarrow> tickers s' = tickers s \<and> watchlist s' = watchlist s"

lemma same_get: "same s s' \<Longrightarrow> GetTicker s' k = GetTicker s k"
  by (simp add: same_def GetTicker_def)

lemma same_calls [simp]:
  "same s s" "same s (StoreAudio i b s)" "same s (emit e t typ k msg a l s)"
  by (simp_all add: same_def frame_simps)

lemma same_request: "request_step s s' \<Longrightarrow> same s s'"
  using serve_rest by (fastforce simp: request_step_def same_def rest_of_def)

text \<open>A predicate that the others keep, as do the calls that leave tickers and watchlist alone.\<close>

definition kept :: "(store \<Rightarrow> store \<Rightarrow> bool) \<Rightarrow> (store \<Rightarrow> bool) \<Rightarrow> bool" where
  "kept R J \<longleftrightarrow> (\<forall>a b. J a \<longrightarrow> R a b \<or> same a b \<longrightarrow> J b)"

lemma kept_True: "kept R (\<lambda>_. True)"
  by (simp add: kept_def)

lemma kept_rely: "kept R J \<Longrightarrow> J a \<Longrightarrow> R a b \<Longrightarrow> J b"
  and kept_same: "kept R J \<Longrightarrow> J a \<Longrightarrow> same a b \<Longrightarrow> J b"
  unfolding kept_def by blast+

text \<open>
  The interface between a promise and the handlers: what a goroutine guarantees must allow the calls that leave
  tickers and watchlist alone. The rules follow a handler through its calls with a predicate that the others
  keep.
\<close>

locale quiet_calls =
  fixes R G :: "store \<Rightarrow> store \<Rightarrow> bool"
  assumes quiet: "same a b \<Longrightarrow> G a b"
begin

lemma read_rule:
  assumes "kept R J" and "J s" and "\<And>a. J a \<Longrightarrow> rg R G Q (c a) a"
  shows "rg R G Q (Call id c) s"
proof (rule rg_Call)
  fix a assume "R s a"
  then have "J a" by (rule kept_rely [OF assms(1,2)])
  then show "rg R G Q (c a) (id a)" using assms(3) by simp
  show "G a (id a)" by (simp add: quiet)
qed

lemma write_rule:
  assumes "kept R J" and "J s" and "\<And>a. J a \<Longrightarrow> G a (u a)" and "\<And>a. J a \<Longrightarrow> rg R G Q k (u a)"
  shows "rg R G Q (Call u (\<lambda>_. k)) s"
proof (rule rg_Call)
  fix a assume "R s a"
  then have "J a" by (rule kept_rely [OF assms(1,2)])
  then show "G a (u a)" "rg R G Q k (u a)" using assms(3,4) by blast+
qed

lemma emit_rule:
  assumes "kept R J" and "J s" and "\<And>a. J a \<Longrightarrow> rg R G Q k a"
  shows "rg R G Q (emit_call e t typ symb msg i l k) s"
  unfolding emit_call_def
proof (rule write_rule [OF assms(1,2)])
  fix a assume "J a"
  then show "rg R G Q k (emit e t typ symb msg i l a)" using assms(3) kept_same [OF assms(1) _ same_calls(3)] by blast
qed (simp add: quiet)

lemma say_rule:
  assumes "kept R J" and "J s" and "\<And>i a. J a \<Longrightarrow> rg R G Q (k i) a"
  shows "rg R G Q (say_call e t txt k) s"
proof (rule rg_say)
  show "rg R G Q (k i) s" for i using assms(2,3) by blast
next
  fix i b s' assume "R s s'"
  then have "J s'" by (rule kept_rely [OF assms(1,2)])
  then show "rg R G Q (k i) (StoreAudio i b s')" using assms(3) kept_same [OF assms(1) _ same_calls(2)] by blast
qed (simp add: quiet)

lemma close_rule:
  assumes "kept R I" and "I s" and "kept R J"
    and "\<And>m a. I a \<Longrightarrow> G a (UpsertTicker symb (exited u m r p) a)"
    and "\<And>m a. I a \<Longrightarrow> J (UpsertTicker symb (exited u m r p) a)"
    and "\<And>a. J a \<Longrightarrow> rg R G Q k a"
  shows "rg R G Q (close_prog e u symb r txt p k) s"
  unfolding close_prog_def Let_def
  by (rule read_rule [OF assms(1,2)], rule write_rule [OF assms(1)], assumption, erule assms(4),
      rule say_rule [OF assms(3)], erule assms(5), rule emit_rule [OF assms(3)], assumption, erule assms(6))

lemma open_rule:
  assumes "kept R I" and "I s" and "\<And>m a. I a \<Longrightarrow> G a (UpsertTicker symb (entered e u m p) a)"
  shows "rg R G (\<lambda>_. True) (open_prog e u symb p) s"
  unfolding open_prog_def Let_def
  by (rule read_rule [OF assms(1,2)], rule write_rule [OF assms(1)], assumption, erule assms(3),
      rule say_rule [OF kept_True TrueI], rule emit_rule [OF kept_True TrueI]) simp

text \<open>A trade, where each of its updates of the ticker is allowed; \<open>I\<close> is what makes an entry allowed.\<close>

lemma trade_rule:
  assumes "\<And>m a. G a (UpsertTicker symb (trade_update (UnixMilli ms) m p z) a)"
    and "\<And>a. G a (UpsertTicker symb (mark_cross (UnixMilli ms) p) a)"
    and "\<And>m r a. G a (UpsertTicker symb (exited (UnixMilli ms) m r p) a)"
    and "kept R I" and "\<And>a. I a \<Longrightarrow> I (UpsertTicker symb (mark_cross (UnixMilli ms) p) a)"
    and "\<And>a ts. GetTicker a symb = Some ts \<Longrightarrow> \<not> HasPosition ts \<Longrightarrow> \<not> Exited ts \<Longrightarrow> UnixMilli ms < co \<Longrightarrow> I a"
    and "\<And>m a. I a \<Longrightarrow> UnixMilli ms < co \<Longrightarrow> G a (UpsertTicker symb (entered e (UnixMilli ms) m p) a)"
  shows "rg R G (\<lambda>_. True) (trade_prog e a b co d symb ms p z al) s"
proof -
  note T = kept_True [of R] TrueI
  have manage: "rg R G (\<lambda>_. True) (manage_prog e (UnixMilli ms) symb p ts) s" for ts s
    unfolding manage_prog_def by (auto intro!: close_rule [OF T kept_True] assms(3))
  have decide: "rg R G (\<lambda>_. True) (decide_prog e f b co (UnixMilli ms) m symb p al ts saw) s"
    if "\<not> HasPosition ts \<and> \<not> Exited ts \<and> UnixMilli ms < co \<Longrightarrow> I s" for f m ts saw s
  proof (cases "al \<and> \<not> HasPosition ts \<and> \<not> Exited ts \<and> UnixMilli ms < co")
    case True
    with that open_rule [OF assms(4), of s symb e "UnixMilli ms" p] assms(7) show ?thesis by (simp add: decide_prog_def)
  next
    case False
    then have rej: "al \<and> \<not> HasPosition ts \<and> \<not> Exited ts \<Longrightarrow> entry_rejected f b co (UnixMilli ms) m ts p"
      by (simp add: entry_rejected_def)
    have ret: "rg R G (\<lambda>_. True) Ret s" by simp
    show ?thesis
      unfolding decide_prog_def using rej manage ret by presburger
  qed
  have act: "rg R G (\<lambda>_. True) (act_prog e a b co (UnixMilli ms) m symb p al ts) s"
    if s: "GetTicker s symb = Some ts" for m ts s
  proof -
    let ?J = "\<lambda>a. \<not> HasPosition ts \<and> \<not> Exited ts \<and> UnixMilli ms < co \<longrightarrow> I a"
    have J: "kept R ?J" using assms(4) unfolding kept_def by meson
    have Js: "?J s" using assms(6) s by blast
    have dec: "?J y \<Longrightarrow> rg R G (\<lambda>_. True) (decide_prog e f b co (UnixMilli ms) m symb p al ts saw) y" for y f saw
      by (rule decide) blast
    have up: "?J y \<Longrightarrow> ?J (UpsertTicker symb (mark_cross (UnixMilli ms) p) y)" for y using assms(5) by blast
    show ?thesis
      unfolding act_prog_def Let_def
    proof (rule read_rule [OF J Js])
      fix x assume x: "?J x"
      let ?rest = "decide_prog e (Filters x) b co (UnixMilli ms) m symb p al ts
        (SawCrossInWindow ts \<or> first_cross a co (UnixMilli ms) p ts)"
      have "rg R G (\<lambda>_. True) (Call (UpsertTicker symb (mark_cross (UnixMilli ms) p)) (\<lambda>_. ?rest)) x"
        by (rule write_rule [OF J x], rule assms(2), rule dec, erule up)
      then show "rg R G (\<lambda>_. True) (if first_cross a co (UnixMilli ms) p ts
          then Call (UpsertTicker symb (mark_cross (UnixMilli ms) p)) (\<lambda>_. ?rest) else ?rest) x"
        by (rule rg_if) (rule dec [OF x])
    qed
  qed
  have tail: "rg R G (\<lambda>_. True) (Call (UpsertTicker symb (trade_update (UnixMilli ms) m p z)) (\<lambda>_. Call id (\<lambda>s.
      case GetTicker s symb of None \<Rightarrow> Ret | Some ts \<Rightarrow> act_prog e a b co (UnixMilli ms) m symb p al ts))) x" for m x
    by (rule write_rule [OF T], rule assms(1), rule read_rule [OF T]) (simp add: act split: option.split)
  show ?thesis
    unfolding trade_prog_def Let_def
  proof (cases "symb = []")
    case False
    show "rg R G (\<lambda>_. True) (if symb = [] then Ret else Call id (\<lambda>s. if GetTicker s symb = None then Ret
      else if UnixMilli ms < a \<or> d + 5 * minute_ns < UnixMilli ms then Ret else if p \<le> 0 \<or> z \<le> 0 then Ret
      else Call (UpsertTicker symb (trade_update (UnixMilli ms) (minutes_after a (UnixMilli ms)) p z)) (\<lambda>_. Call id (\<lambda>s.
        case GetTicker s symb of None \<Rightarrow> Ret
        | Some ts \<Rightarrow> act_prog e a b co (UnixMilli ms) (minutes_after a (UnixMilli ms)) symb p al ts)))) s"
      unfolding if_not_P [OF False] by (rule read_rule [OF T]) (use tail in simp)
  qed simp
qed

lemma loop_rule:
  assumes "\<And>a. R a a"
    and "\<And>tr s. tr \<in> set trs \<Longrightarrow> rg R G (\<lambda>_. True)
      (trade_prog e a b c d (et_Symbol tr) (et_Timestamp tr) (et_Price tr) (of_int64 (et_Size tr)) True) s"
  shows "rg R G (\<lambda>_. True) (loop_prog e (a, b, c, d) trs) s"
  using assms(2)
proof (induction trs arbitrary: s)
  case (Cons tr trs)
  show ?case
    unfolding loop_prog.simps by (rule rg_then [where Q' = "\<lambda>_. True"]) (use Cons assms(1) in auto)
qed simp

end

section \<open>What is open stays open or closes\<close>

definition open_in :: "store \<Rightarrow> string set" where
  "open_in s = {k. \<exists>t. GetTicker s k = Some t \<and> HasPosition t \<and> \<not> Exited t}"

definition no_entry :: "store \<Rightarrow> store \<Rightarrow> bool" where
  "no_entry s s' \<longleftrightarrow> open_in s' \<subseteq> open_in s \<and> watchlist s' = watchlist s"

lemma flat_open_in: "flat s \<longleftrightarrow> open_in s = {}"
  by (auto simp: flat_def open_in_def)

lemma open_in_same: "same s s' \<Longrightarrow> open_in s' = open_in s"
  by (simp add: open_in_def same_get)

lemma no_entry_same: "same s s' \<Longrightarrow> no_entry s s'"
  by (simp add: no_entry_def open_in_same) (simp add: same_def)

lemma open_in_Upsert:
  "open_in (UpsertTicker k f s) =
     (open_in s - {k}) \<union> (let t = f (case GetTicker s k of None \<Rightarrow> new_ticker k | Some t \<Rightarrow> t)
                        in if HasPosition t \<and> \<not> Exited t then {k} else {})"
  by (auto simp: open_in_def cells.get_upd Let_def split: option.splits if_splits)

lemma no_entry_Upsert:
  assumes "\<And>t. HasPosition (f t) \<and> \<not> Exited (f t) \<Longrightarrow> HasPosition t \<and> \<not> Exited t"
  shows "no_entry s (UpsertTicker k f s)"
proof -
  have "k \<in> open_in s" if "HasPosition (f t) \<and> \<not> Exited (f t)"
    "t = (case GetTicker s k of None \<Rightarrow> new_ticker k | Some t \<Rightarrow> t)" for t
    using assms [OF that(1)] that(2) by (auto simp: open_in_def new_ticker_def split: option.splits)
  then show ?thesis by (auto simp: no_entry_def open_in_Upsert Let_def frame_simps)
qed

interpretation late_trades: quiet_calls "\<lambda>_ _. True" no_entry
  by unfold_locales (rule no_entry_same)

interpretation closing: quiet_calls no_entry no_entry
  by unfold_locales (rule no_entry_same)

lemma late_loop:
  assumes "\<forall>tr \<in> set trs. \<not> UnixMilli (et_Timestamp tr) < c"
  shows "rg (\<lambda>_ _. True) no_entry (\<lambda>_. True) (loop_prog e (a, b, c, d) trs) s"
proof (rule late_trades.loop_rule)
  fix tr s assume "tr \<in> set trs"
  then have "\<not> UnixMilli (et_Timestamp tr) < c" using assms by blast
  then show "rg (\<lambda>_ _. True) no_entry (\<lambda>_. True)
      (trade_prog e a b c d (et_Symbol tr) (et_Timestamp tr) (et_Price tr) (of_int64 (et_Size tr)) True) s"
    by (intro late_trades.trade_rule [where I = "\<lambda>_. True"] no_entry_Upsert kept_True) (simp_all add: exited_def)
qed simp

lemma kept_closed: "kept no_entry (\<lambda>s. open_in s \<inter> D = {} \<and> watchlist s = wl)"
  unfolding kept_def
proof (intro allI impI)
  fix a b assume a: "open_in a \<inter> D = {} \<and> watchlist a = wl" and "no_entry a b \<or> same a b"
  then have "no_entry a b" using no_entry_same by blast
  then have "open_in b \<subseteq> open_in a" "watchlist b = watchlist a" by (simp_all add: no_entry_def)
  with a show "open_in b \<inter> D = {} \<and> watchlist b = wl" by blast
qed

lemma closing_list:
  assumes "open_in s \<inter> D = {} \<and> watchlist s = W"
  shows "rg no_entry no_entry (\<lambda>s. open_in s \<inter> (D \<union> set wl) = {} \<and> watchlist s = W) (close_list e u wl) s"
  using assms
proof (induction wl arbitrary: s D)
  case Nil
  then show ?case using kept_rely [OF kept_closed] by fastforce
next
  case (Cons k wl)
  let ?Q = "\<lambda>s. open_in s \<inter> (D \<union> set (k # wl)) = {} \<and> watchlist s = W"
  have rest: "rg no_entry no_entry ?Q (close_list e u wl) x" if "open_in x \<inter> insert k D = {} \<and> watchlist x = W" for x
    using Cons.IH [OF that] by simp
  have close: "rg no_entry no_entry ?Q (close_prog e u k r tx p (close_list e u wl)) x"
    if "open_in x \<inter> D = {} \<and> watchlist x = W" for r tx p x
    by (rule closing.close_rule [OF kept_closed that kept_closed [of "insert k D" W] _ _ rest])
      (auto simp: open_in_Upsert exited_def frame_simps Let_def intro: no_entry_Upsert)
  show ?case
    unfolding close_list.simps
  proof (rule closing.read_rule [OF kept_closed Cons.prems])
    fix x assume x: "open_in x \<inter> D = {} \<and> watchlist x = W"
    have shut: "open_in x \<inter> insert k D = {} \<and> watchlist x = W" if "k \<notin> open_in x" using x that by auto
    show "rg no_entry no_entry ?Q (case GetTicker x k of None \<Rightarrow> close_list e u wl
        | Some t \<Rightarrow> if HasPosition t \<and> \<not> Exited t
            then close_prog e u k ''TIME_EXIT'' (''11am close. '' @ k) (close_price t) (close_list e u wl)
            else close_list e u wl) x"
      using close [OF x] rest [OF shut] by (auto simp: open_in_def split: option.splits)
  qed
qed

lemma closing_eleven:
  "rg no_entry no_entry (\<lambda>x. open_in x \<inter> set (watchlist s) = {} \<and> watchlist x = watchlist s) (eleven_prog e u) s"
proof -
  let ?J = "\<lambda>x. open_in x \<inter> {} = {} \<and> watchlist x = watchlist s"
  note k = kept_closed [of "{}" "watchlist s"]
  show ?thesis
    unfolding eleven_prog_def
    by (rule closing.say_rule [OF k], simp, rule closing.emit_rule [OF k], assumption, rule closing.read_rule [OF k], assumption)
      (use closing_list [of _ "{}"] in \<open>auto simp: Watchlist_def\<close>)
qed

interpretation exit_race: rely_guarantee "\<lambda>_ _. True" no_entry no_entry no_entry request_step
proof unfold_locales
  fix a b c
  show "no_entry a b \<Longrightarrow> no_entry b c \<Longrightarrow> no_entry a c" and "no_entry a a" by (auto simp: no_entry_def)
  show "request_step a b \<Longrightarrow> True \<and> no_entry a b" using same_request no_entry_same by blast
qed simp_all

section \<open>The life of a position\<close>

definition cellwise :: "(ticker_state \<Rightarrow> ticker_state \<Rightarrow> bool) \<Rightarrow> store \<Rightarrow> store \<Rightarrow> bool" where
  "cellwise P s s' \<longleftrightarrow> (\<forall>k t. GetTicker s k = Some t \<longrightarrow> (\<exists>t'. GetTicker s' k = Some t' \<and> P t t'))"

definition entry_kept :: "ticker_state \<Rightarrow> ticker_state \<Rightarrow> bool" where
  "entry_kept t t' \<longleftrightarrow> EntryPrice t' = EntryPrice t \<and> EntryTime t' = EntryTime t
     \<and> TakeProfitPrice t' = TakeProfitPrice t \<and> StopPrice t' = StopPrice t
     \<and> EntryMinutesAfterOpen t' = EntryMinutesAfterOpen t"

definition life :: "ticker_state \<Rightarrow> ticker_state \<Rightarrow> bool" where
  "life t t' \<longleftrightarrow> (HasPosition t \<longrightarrow> HasPosition t' \<and> entry_kept t t')
     \<and> (Exited t \<longrightarrow> Exited t' \<and> HasPosition t' = HasPosition t)"

definition calm :: "ticker_state \<Rightarrow> ticker_state \<Rightarrow> bool" where
  "calm t t' \<longleftrightarrow> HasPosition t' = HasPosition t \<and> entry_kept t t' \<and> (Exited t \<longrightarrow> Exited t')
     \<and> (Exited t' \<longrightarrow> Exited t \<or> HasPosition t)"

lemma entry_kept_refl [simp]: "entry_kept t t"
  by (simp add: entry_kept_def)

lemma life_refl [simp]: "life t t" and calm_refl [simp]: "calm t t"
  by (simp_all add: life_def calm_def)

lemma life_trans: "life t u \<Longrightarrow> life u v \<Longrightarrow> life t v"
  by (auto simp: life_def entry_kept_def)

lemma calm_trans: "calm t u \<Longrightarrow> calm u v \<Longrightarrow> calm t v"
  by (auto simp: calm_def entry_kept_def)

lemma cellwiseD: "cellwise P s s' \<Longrightarrow> GetTicker s k = Some t \<Longrightarrow> \<exists>t'. GetTicker s' k = Some t' \<and> P t t'"
  by (simp add: cellwise_def)

lemma cellwise_same:
  assumes "\<And>t. P t t" and "same s s'"
  shows "cellwise P s s'"
  using assms(1) by (simp add: cellwise_def same_get [OF assms(2)])

lemma cellwise_trans:
  assumes "\<And>t u v. P t u \<Longrightarrow> P u v \<Longrightarrow> P t v" and "cellwise P a b" and "cellwise P b c"
  shows "cellwise P a c"
  unfolding cellwise_def
proof (intro allI impI)
  fix k t assume "GetTicker a k = Some t"
  from cellwiseD [OF assms(2) this] obtain u where u: "GetTicker b k = Some u" "P t u" by blast
  from cellwiseD [OF assms(3) u(1)] obtain v where "GetTicker c k = Some v" "P u v" by blast
  with u(2) assms(1) show "\<exists>t'. GetTicker c k = Some t' \<and> P t t'" by blast
qed

lemma cellwise_life_trans: "cellwise life a b \<Longrightarrow> cellwise life b c \<Longrightarrow> cellwise life a c"
  by (rule cellwise_trans [where P = life]) (rule life_trans)

lemma cellwise_Upsert:
  assumes "\<And>t. P t t" and "\<And>t. GetTicker s k = Some t \<Longrightarrow> P t (f t)"
  shows "cellwise P s (UpsertTicker k f s)"
  using assms by (simp add: cellwise_def cells.get_upd)

lemma cellwise_calm_life: "cellwise calm s s' \<Longrightarrow> cellwise life s s'"
  unfolding cellwise_def calm_def life_def by (metis (no_types))

interpretation trading: quiet_calls "cellwise calm" "cellwise life"
  by unfold_locales (rule cellwise_same [OF life_refl])

interpretation timing: quiet_calls "cellwise life" "cellwise calm"
  by unfold_locales (rule cellwise_same [OF calm_refl])

interpretation position_race: rely_guarantee "cellwise calm" "cellwise life" "cellwise life" "cellwise calm" request_step
proof unfold_locales
  fix a b c
  show "cellwise calm a b \<Longrightarrow> cellwise calm b c \<Longrightarrow> cellwise calm a c" by (rule cellwise_trans [OF calm_trans])
  show "cellwise life a b \<Longrightarrow> cellwise life b c \<Longrightarrow> cellwise life a c" by (rule cellwise_trans [OF life_trans])
  show "cellwise calm a a" "cellwise life a a" by (simp_all add: cellwise_def)
  show "request_step a b \<Longrightarrow> cellwise calm a b \<and> cellwise life a b"
    using same_request cellwise_same [of calm a b, OF calm_refl] cellwise_same [of life a b, OF life_refl] by blast
qed simp_all

lemma kept_vacant: "kept (cellwise calm) (\<lambda>s. \<exists>t. GetTicker s k = Some t \<and> \<not> HasPosition t \<and> \<not> Exited t)"
  unfolding kept_def using same_get by (fastforce dest: cellwiseD simp: calm_def)

lemma kept_holding: "kept (cellwise life) (\<lambda>s. \<exists>t. GetTicker s k = Some t \<and> HasPosition t)"
  unfolding kept_def using same_get by (fastforce dest: cellwiseD simp: life_def)

lemma life_cells:
  "life t (trade_update u m p z t)" "life t (mark_cross u p t)" "life t (exited u m r p t)"
  "\<not> HasPosition t \<Longrightarrow> \<not> Exited t \<Longrightarrow> life t (entered e u m p t)" "HasPosition t \<Longrightarrow> calm t (exited u m r p t)"
  by (simp_all add: life_def calm_def entry_kept_def exited_def mark_cross_def)

lemma trading_loop: "rg (cellwise calm) (cellwise life) (\<lambda>_. True) (loop_prog e (a, b, c, d) trs) s"
proof (rule trading.loop_rule)
  fix tr :: equity_trade and s
  let ?k = "et_Symbol tr"
  show "rg (cellwise calm) (cellwise life) (\<lambda>_. True)
      (trade_prog e a b c d ?k (et_Timestamp tr) (et_Price tr) (of_int64 (et_Size tr)) True) s"
    by (rule trading.trade_rule [OF _ _ _ kept_vacant [of ?k]])
      (auto intro!: cellwise_Upsert life_cells simp: cells.get_upd mark_cross_def)
qed (simp add: cellwise_def)

lemma timing_list: "rg (cellwise life) (cellwise calm) (\<lambda>_. True) (close_list e u wl) s"
proof (induction wl arbitrary: s)
  case (Cons k wl)
  have close: "rg (cellwise life) (cellwise calm) (\<lambda>_. True) (close_prog e u k r tx p (close_list e u wl)) x"
    if "\<exists>t. GetTicker x k = Some t \<and> HasPosition t" for r tx p x
    by (rule timing.close_rule [OF kept_holding that kept_True _ TrueI Cons.IH])
      (auto intro!: cellwise_Upsert life_cells)
  show ?case
    unfolding close_list.simps
    by (rule timing.read_rule [OF kept_True TrueI]) (auto split: option.split intro: close Cons.IH)
qed simp

lemma timing_eleven: "rg (cellwise life) (cellwise calm) (\<lambda>_. True) (eleven_prog e u) s"
  unfolding eleven_prog_def
  by (rule timing.say_rule [OF kept_True TrueI], rule timing.emit_rule [OF kept_True TrueI],
      rule timing.read_rule [OF kept_True TrueI], rule timing_list)

section \<open>Schedules\<close>

lemma run_first: "(par_step env)\<^sup>*\<^sup>* (s, p, q) (run p s, Ret, q)"
proof (induction p arbitrary: s)
  case (Call u c)
  have "par_step env (s, Call u c, q) (u s, c s, q)" by (rule par_step.first)
  then show ?case using Call.IH [OF rangeI] by (simp add: converse_rtranclp_into_rtranclp)
qed simp

lemma run_second: "(par_step env)\<^sup>*\<^sup>* (s, p, q) (run q s, p, Ret)"
proof (induction q arbitrary: s)
  case (Call u c)
  have "par_step env (s, p, Call u c) (u s, p, c s)" by (rule par_step.second)
  then show ?case using Call.IH [OF rangeI] by (simp add: converse_rtranclp_into_rtranclp)
qed simp

section \<open>Both close the same position\<close>

lemma say_id: "fst (say e u tx s) = fst (say e u tx s')"
  by (simp add: say_def split: option.split sum.split prod.split)

lemma snoc_snoc: "((xs @ [x]) @ [y]) @ [z] = xs @ [x, y, z]"
  by simp

text \<open>What the event list holds after \<open>L\<close> has been announced, with room for \<open>n\<close>.\<close>

definition logged :: "nat \<Rightarrow> event list \<Rightarrow> store \<Rightarrow> bool" where
  "logged n L s \<longleftrightarrow> wf_events s \<and> event_cap s = n \<and> events s = last_n n L"

lemma logged_cong: "events s' = events s \<Longrightarrow> st_cfg s' = st_cfg s \<Longrightarrow> logged n L s' = logged n L s"
  by (simp add: logged_def wf_events_def event_cap_def)

lemma last_n_snoc: "0 < n \<Longrightarrow> last_n n (last_n n xs @ [y]) = last_n n (xs @ [y])"
  by (cases "n \<le> length xs") (simp_all add: last_n_def Suc_diff_le)

lemma logged_AddEvent: "logged n L s \<Longrightarrow> logged n (L @ [ev]) (AddEvent ev s)"
  using event_log.log_adds [of s "[ev]"]
  by (auto simp: logged_def wf_events_AddEvent last_n_snoc) (simp_all add: wf_events_def last_n_snoc)

lemma logged_close:
  assumes "logged n L s"
  shows "logged n (L @ [exit_event e u k r tx (fst (say e u tx s'))]) (closePosition e u k r tx p s)"
proof -
  let ?s1 = "UpsertTicker k (exited u (minutes_after (fst (Times s)) u) r p) s"
  have "closePosition e u k r tx p s = AddEvent (exit_event e u k r tx (fst (say e u tx s'))) (snd (say e u tx ?s1))"
    using say_id [of e u tx ?s1 s'] by (simp add: closePosition_def Let_def case_prod_unfold emit_def exit_event_def)
  moreover have "logged n L (snd (say e u tx ?s1))" 
    by (rule iffD2 [OF logged_cong assms]) (simp_all add: frame_simps)
  ultimately show ?thesis by (simp add: logged_AddEvent)
qed

text \<open>What a goroutine does alone while the other waits, up to where it goes on with \<open>f\<close>.\<close>

lemma say_second:
  "(par_step env)\<^sup>*\<^sup>* (s, p, say_call e u tx f) (snd (say e u tx s), p, f (fst (say e u tx s)))"
proof (cases "\<exists>c i b. e_tts e = Some c \<and> Enabled c \<and> Synthesize c (e_http e) (e_rand e u tx) tx = Inr (i, b)")
  case True
  then obtain c i b where *: "e_tts e = Some c" "Enabled c" "Synthesize c (e_http e) (e_rand e u tx) tx = Inr (i, b)" by blast
  have "par_step env (s, p, Call (StoreAudio i b) (\<lambda>_. f i)) (StoreAudio i b s, p, f i)" by (rule par_step.second)
  with * show ?thesis by (simp add: say_call_def say_def r_into_rtranclp)
next
  case False
  then have "say_call e u tx f = f []" "say e u tx s = ([], s)"
    by (auto simp: say_call_def say_def split: option.splits sum.splits)
  then show ?thesis by simp
qed

lemma emit_second: "(par_step env)\<^sup>*\<^sup>* (s, p, emit_call e u typ k msg i l q) (emit e u typ k msg i l s, p, q)"
  unfolding emit_call_def by (rule r_into_rtranclp, rule par_step.second)

lemma call_second: "(par_step env)\<^sup>*\<^sup>* (s, p, Call v c) (v s, p, c s)"
  by (rule r_into_rtranclp, rule par_step.second)

lemma close_second:
  "(par_step env)\<^sup>*\<^sup>* (s, p, close_prog e u k r tx px q) (closePosition e u k r tx px s, p, q)"
proof -
  let ?m = "minutes_after (fst (Times s)) u"
  let ?s1 = "UpsertTicker k (exited u ?m r px) s"
  let ?s2 = "snd (say e u tx ?s1)" and ?i = "fst (say e u tx ?s1)"
  let ?say = "say_call e u tx (\<lambda>i. emit_call e u r k tx i ''signal'' q)"
  have 1: "(par_step env)\<^sup>*\<^sup>* (s, p, close_prog e u k r tx px q) (s, p, Call (UpsertTicker k (exited u ?m r px)) (\<lambda>_. ?say))"
    using call_second [of env s p id] by (simp add: close_prog_def Let_def)
  have 2: "(par_step env)\<^sup>*\<^sup>* (s, p, Call (UpsertTicker k (exited u ?m r px)) (\<lambda>_. ?say)) (?s1, p, ?say)"
    by (rule call_second)
  have 3: "(par_step env)\<^sup>*\<^sup>* (?s1, p, ?say) (?s2, p, emit_call e u r k tx ?i ''signal'' q)" by (rule say_second)
  have 4: "(par_step env)\<^sup>*\<^sup>* (?s2, p, emit_call e u r k tx ?i ''signal'' q) (emit e u r k tx ?i ''signal'' ?s2, p, q)"
    by (rule emit_second)
  have 5: "emit e u r k tx ?i ''signal'' ?s2 = closePosition e u k r tx px s"
    by (simp add: closePosition_def Let_def case_prod_unfold)
  show ?thesis using rtranclp_trans [OF rtranclp_trans [OF rtranclp_trans [OF 1 2] 3] 4] unfolding 5 .
qed

definition profit_taking :: "gotime \<Rightarrow> gotime \<Rightarrow> equity_trade \<Rightarrow> ticker_state \<Rightarrow> bool" where
  "profit_taking openNY exitNY tr t \<longleftrightarrow>
     et_Symbol tr \<noteq> [] \<and> \<not> UnixMilli (et_Timestamp tr) < openNY
     \<and> \<not> exitNY + 5 * minute_ns < UnixMilli (et_Timestamp tr) \<and> \<not> et_Price tr \<le> 0 \<and> \<not> of_int64 (et_Size tr) \<le> 0
     \<and> HasPosition t \<and> \<not> Exited t \<and> TakeProfitPrice t \<le> et_Price tr \<and> 0 < TakeProfitPrice t"

lemma take_profit_trade:
  assumes "GetTicker s (et_Symbol tr) = Some t" and "profit_taking a d tr t"
  shows "\<exists>s'. onTrade e a b c d tr s = closePosition e (UnixMilli (et_Timestamp tr)) (et_Symbol tr) ''PROFIT''
      (''PROFIT! '' @ et_Symbol tr) (et_Price tr) s' \<and> events s' = events s \<and> st_cfg s' = st_cfg s
    \<and> watchlist s' = watchlist s"
proof -
  let ?u = "UnixMilli (et_Timestamp tr)" and ?k = "et_Symbol tr"
  let ?f = "trade_update ?u (minutes_after a ?u) (et_Price tr) (of_int64 (et_Size tr))"
  let ?s = "UpsertTicker ?k ?f s"
  have get: "GetTicker ?s ?k = Some (?f t)" by (simp add: cells.get_upd assms(1))
  have "onTrade e a b c d tr s = act_on_trade e a b c ?u (minutes_after a ?u) ?k (et_Price tr) True (?f t) ?s"
    using assms by (simp add: onTrade_def processTrade_def Let_def get profit_taking_def)
  also have "\<dots> = closePosition e ?u ?k ''PROFIT'' (''PROFIT! '' @ ?k) (et_Price tr) ?s"
    using assms(2) by (simp add: act_on_trade_def manage_position_def profit_taking_def)
  finally show ?thesis by (auto simp: frame_simps)
qed

lemma eleven_starts:
  fixes e :: engine and u :: gotime
  assumes "watchlist s = k # wl" and "GetTicker s k = Some t" and "HasPosition t \<and> \<not> Exited t"
  defines "sa \<equiv> emit e u ''11AM'' [] ''11am close'' (fst (say e u ''Eleven a.m. close'' s)) ''info''
      (snd (say e u ''Eleven a.m. close'' s))"
  shows "(par_step env)\<^sup>*\<^sup>* (s, p, eleven_prog e u)
    (sa, p, close_prog e u k ''TIME_EXIT'' (''11am close. '' @ k) (close_price t) (close_list e u wl))"
proof -
  let ?say = "say e u ''Eleven a.m. close'' s" and ?rest = "Call id (\<lambda>s. close_list e u (Watchlist s))"
  let ?close = "close_prog e u k ''TIME_EXIT'' (''11am close. '' @ k) (close_price t) (close_list e u wl)"
  have wl: "Watchlist sa = k # wl" and t: "GetTicker sa k = Some t"
    using assms(1,2) by (simp_all add: sa_def Watchlist_def frame_simps)
  have 1: "(par_step env)\<^sup>*\<^sup>* (s, p, eleven_prog e u)
      (snd ?say, p, emit_call e u ''11AM'' [] ''11am close'' (fst ?say) ''info'' ?rest)"
    unfolding eleven_prog_def by (rule say_second)
  have 2: "(par_step env)\<^sup>*\<^sup>* (snd ?say, p, emit_call e u ''11AM'' [] ''11am close'' (fst ?say) ''info'' ?rest) (sa, p, ?rest)"
    unfolding sa_def by (rule emit_second)
  have 3: "(par_step env)\<^sup>*\<^sup>* (sa, p, ?rest) (sa, p, close_list e u (k # wl))"
    using call_second [of env sa p id "\<lambda>s. close_list e u (Watchlist s)"] unfolding wl id_apply .
  have 4: "(par_step env)\<^sup>*\<^sup>* (sa, p, close_list e u (k # wl)) (sa, p, ?close)"
    using call_second [of env sa p id "\<lambda>s. case GetTicker s k of None \<Rightarrow> close_list e u wl
        | Some t \<Rightarrow> if HasPosition t \<and> \<not> Exited t
            then close_prog e u k ''TIME_EXIT'' (''11am close. '' @ k) (close_price t) (close_list e u wl)
            else close_list e u wl"] assms(3)
    by (simp only: close_list.simps id_apply t option.case if_True HOL.simp_thms)
  show ?thesis by (rule rtranclp_trans [OF rtranclp_trans [OF rtranclp_trans [OF 1 2] 3] 4])
qed

lemma profit_then_eleven:
  assumes "GetTicker s (et_Symbol tr) = Some t" and "profit_taking a d tr t"
  shows "map_option ExitReason (GetTicker (onElevenAM e u (onTrade e a b c d tr s)) (et_Symbol tr)) = Some ''PROFIT''"
proof -
  obtain x where "onTrade e a b c d tr s = closePosition e (UnixMilli (et_Timestamp tr)) (et_Symbol tr) ''PROFIT''
      (''PROFIT! '' @ et_Symbol tr) (et_Price tr) x" using take_profit_trade [OF assms] by blast
  then obtain t1 where t1: "GetTicker (onTrade e a b c d tr s) (et_Symbol tr) = Some t1" "Exited t1" "ExitReason t1 = ''PROFIT''"
    by (auto simp: get_closePosition exited_def)
  from lc_storeD [OF lc_store_onElevenAM t1(1)] t1(2,3) show ?thesis by (auto simp: lc_def)
qed

lemma eleven_then_profit:
  assumes "GetTicker s (et_Symbol tr) = Some t" and "et_Symbol tr \<in> set (watchlist s)" and "HasPosition t \<and> \<not> Exited t"
  shows "map_option ExitReason (GetTicker (onTrade e a b c d tr (onElevenAM e u s)) (et_Symbol tr)) = Some ''TIME_EXIT''"
proof -
  obtain t1 where t1: "GetTicker (onElevenAM e u s) (et_Symbol tr) = Some t1" "Exited t1" "ExitReason t1 = ''TIME_EXIT''"
    using assms by (auto simp: get_onElevenAM timed_out_def exited_def)
  from lc_storeD [OF lc_store_processTrade t1(1)] t1(2,3) show ?thesis
    by (auto simp: lc_def onTrade_def) metis
qed

lemma closing_flat:
  assumes "(par_step request_step)\<^sup>*\<^sup>* (s, loop_prog e (a, b, c, d) trs, eleven_prog e u) (s', p', Ret)"
    and "\<forall>tr \<in> set trs. \<not> UnixMilli (et_Timestamp tr) < c"
    and "\<forall>k t. GetTicker s k = Some t \<and> HasPosition t \<and> \<not> Exited t \<longrightarrow> k \<in> set (watchlist s)"
  shows "flat s'"
proof -
  note steps = exit_race.par_steps_keep [OF assms(1) late_loop [OF assms(2)] closing_eleven]
  have "open_in s' \<inter> set (watchlist s) = {}"
    using exit_race.par_steps_end [OF assms(1) late_loop [OF assms(2)] closing_eleven] by blast
  moreover have "no_entry s s'"
  proof -
    have "(\<lambda>x y. no_entry x y \<or> no_entry x y \<or> request_step x y)\<^sup>*\<^sup>* s s'" using steps by blast
    then show ?thesis
    proof (induction rule: rtranclp_induct)
      case base
      show ?case by (simp add: no_entry_def)
    next
      case (step y z)
      then have "no_entry y z" using same_request no_entry_same by blast
      with step.IH show ?case by (auto simp: no_entry_def)
    qed
  qed
  moreover have "open_in s \<subseteq> set (watchlist s)" using assms(3) by (auto simp: open_in_def)
  ultimately show ?thesis by (auto simp: flat_open_in no_entry_def)
qed

section \<open>Properties\<close>

text \<open>C10. Flat whatever the interleaving: once the 11 o'clock goroutine has returned no ticker has an open position,
  however its calls, those of the trade loop on trades not stamped before the entry cutoff, and the
  requests being served come between each other.\<close>

theorem interleaving_ends_flat:
  assumes "(par_step request_step)\<^sup>*\<^sup>* (s, loop_prog e (a, b, c, d) trs, eleven_prog e u) (s', p', Ret)"
    and "\<forall>tr \<in> set trs. \<not> UnixMilli (et_Timestamp tr) < c"
    and "\<forall>k t. GetTicker s k = Some t \<and> HasPosition t \<and> \<not> Exited t \<longrightarrow> k \<in> set (watchlist s)"
  shows "flat s'"
  using assms by (rule closing_flat)

text \<open>C11. The life of a position through any interleaving: from any moment to any later one no ticker disappears, a
  position keeps its entry, target and stop, an exited ticker stays exited, and none that has exited
  enters again.\<close>

theorem interleaved_position_life:
  assumes "(par_step request_step)\<^sup>*\<^sup>* (s, loop_prog e (a, b, c, d) trs, eleven_prog e u) (s1, p1, q1)"
    and "(par_step request_step)\<^sup>*\<^sup>* (s1, p1, q1) (s2, p2, q2)"
    and "GetTicker s1 k = Some t1"
  shows "\<exists>t2. GetTicker s2 k = Some t2
    \<and> (HasPosition t1 \<longrightarrow> HasPosition t2 \<and> EntryPrice t2 = EntryPrice t1 \<and> EntryTime t2 = EntryTime t1
         \<and> TakeProfitPrice t2 = TakeProfitPrice t1 \<and> StopPrice t2 = StopPrice t1)
    \<and> (Exited t1 \<longrightarrow> Exited t2 \<and> HasPosition t2 = HasPosition t1)"
proof -
  note mid = position_race.par_steps_keep [OF assms(1) trading_loop timing_eleven]
  have "(\<lambda>x y. cellwise life x y \<or> cellwise calm x y \<or> request_step x y)\<^sup>*\<^sup>* s1 s2"
    using position_race.par_steps_keep [OF assms(2)] mid by blast
  then have "cellwise life s1 s2"
  proof (induction rule: rtranclp_induct)
    case base
    show ?case by (simp add: cellwise_def)
  next
    case (step y z)
    have "cellwise life y z"
      using step.hyps(2) cellwise_calm_life same_request cellwise_same [of life y z, OF life_refl] by blast
    with step.IH show ?case by (rule cellwise_life_trans)
  qed
  from cellwiseD [OF this assms(3)] show ?thesis by (auto simp: life_def entry_kept_def)
qed

lemma take_profit_effect:
  assumes "GetTicker s (et_Symbol tr) = Some t" and "profit_taking a d tr t" and "logged n L s"
  shows "map_option ExitReason (GetTicker (onTrade e a b c d tr s) (et_Symbol tr)) = Some ''PROFIT''"
    and "logged n (L @ [exit_event e (UnixMilli (et_Timestamp tr)) (et_Symbol tr) ''PROFIT'' (''PROFIT! '' @ et_Symbol tr)
          (fst (say e (UnixMilli (et_Timestamp tr)) (''PROFIT! '' @ et_Symbol tr) s'))]) (onTrade e a b c d tr s)"
proof -
  obtain x where x: "onTrade e a b c d tr s = closePosition e (UnixMilli (et_Timestamp tr)) (et_Symbol tr) ''PROFIT''
      (''PROFIT! '' @ et_Symbol tr) (et_Price tr) x" "events x = events s" "st_cfg x = st_cfg s"
    using take_profit_trade [OF assms(1,2)] by blast
  show "map_option ExitReason (GetTicker (onTrade e a b c d tr s) (et_Symbol tr)) = Some ''PROFIT''"
    by (simp add: x(1) get_closePosition exited_def)
  have "logged n L x" using assms(3) logged_cong [OF x(2,3)] by simp
  then show "logged n (L @ [exit_event e (UnixMilli (et_Timestamp tr)) (et_Symbol tr) ''PROFIT'' (''PROFIT! '' @ et_Symbol tr)
          (fst (say e (UnixMilli (et_Timestamp tr)) (''PROFIT! '' @ et_Symbol tr) s'))]) (onTrade e a b c d tr s)"
    unfolding x(1) by (rule logged_close)
qed

text \<open>C12. An exit is not final between the two goroutines, with or without a speech client: when a ticker first in
  the watchlist is open and a trade takes its profit, the timer can read the position as open before the
  trade closes it, and then closes it again: the reason turns from PROFIT to TIME_EXIT and two exits are
  announced one after the other, after the announcement of the close, in an event list that keeps its newest
  entries. One after the other, in either order, the first to close decides.\<close>

theorem exit_race_closes_twice:
  assumes "watchlist s = et_Symbol tr # wl" and "GetTicker s (et_Symbol tr) = Some t" and "profit_taking a d tr t"
    and "wf_events s"
  shows "(\<exists>s1 p1 q1 s2 q2 ev. (par_step env)\<^sup>*\<^sup>* (s, loop_prog e (a, b, c, d) [tr], eleven_prog e u) (s1, p1, q1)
      \<and> (par_step env)\<^sup>*\<^sup>* (s1, p1, q1) (s2, Ret, q2)
      \<and> map_option ExitReason (GetTicker s1 (et_Symbol tr)) = Some ''PROFIT''
      \<and> map_option ExitReason (GetTicker s2 (et_Symbol tr)) = Some ''TIME_EXIT''
      \<and> ev_Type ev = ''11AM''
      \<and> events s2 = last_n (event_cap s) (events s @ [ev,
          exit_event e (UnixMilli (et_Timestamp tr)) (et_Symbol tr) ''PROFIT'' (''PROFIT! '' @ et_Symbol tr)
            (fst (say e (UnixMilli (et_Timestamp tr)) (''PROFIT! '' @ et_Symbol tr) s)),
          exit_event e u (et_Symbol tr) ''TIME_EXIT'' (''11am close. '' @ et_Symbol tr)
            (fst (say e u (''11am close. '' @ et_Symbol tr) s))]))
    \<and> map_option ExitReason (GetTicker (onElevenAM e u (onTrade e a b c d tr s)) (et_Symbol tr)) = Some ''PROFIT''
    \<and> map_option ExitReason (GetTicker (onTrade e a b c d tr (onElevenAM e u s)) (et_Symbol tr)) = Some ''TIME_EXIT''"
proof (intro conjI)
  let ?k = "et_Symbol tr" and ?u = "UnixMilli (et_Timestamp tr)" and ?say = "say e u ''Eleven a.m. close'' s"
  let ?loop = "loop_prog e (a, b, c, d) [tr]"
  define ev where "ev = \<lparr>ev_ID = show_int u @ ''-'' @ ''11AM'' @ ''-'' @ [], ev_TimeNY = fmt_hms (e_loc e) u, ev_Type = ''11AM'',
    ev_Symbol = [], ev_Message = ''11am close'', ev_AudioID = fst ?say, ev_Level = ''info''\<rparr>"
  define sa where "sa = emit e u ''11AM'' [] ''11am close'' (fst ?say) ''info'' (snd ?say)"
  let ?q = "close_prog e u ?k ''TIME_EXIT'' (''11am close. '' @ ?k) (close_price t) (close_list e u wl)"
  let ?s1 = "onTrade e a b c d tr sa"
  let ?s2 = "closePosition e u ?k ''TIME_EXIT'' (''11am close. '' @ ?k) (close_price t) ?s1"
  have sa: "sa = AddEvent ev (snd ?say)" by (simp add: sa_def ev_def emit_def)
  have ta: "GetTicker sa ?k = Some t" using assms(2) by (simp add: sa frame_simps)
  have "logged (event_cap s) (events s) (snd ?say)"
    by (rule iffD2 [OF logged_cong [where s = s]]) (use assms(4) in \<open>simp_all add: frame_simps logged_def wf_events_def\<close>)
  then have La: "logged (event_cap s) (events s @ [ev]) sa" unfolding sa by (rule logged_AddEvent)
  note one = take_profit_effect(1) [OF ta assms(3) La, of e b c] take_profit_effect(2) [OF ta assms(3) La, of e s b c]
  note two = logged_close [OF one(2), of e u ?k "''TIME_EXIT''" "''11am close. '' @ ?k" s "close_price t"]
  have p0: "(par_step env)\<^sup>*\<^sup>* (s, ?loop, eleven_prog e u) (sa, ?loop, ?q)"
    unfolding sa_def using eleven_starts [OF assms(1,2)] assms(3) by (simp add: profit_taking_def)
  have run: "run ?loop sa = ?s1" by (simp add: run_loop_prog del: loop_prog.simps)
  have p1: "(par_step env)\<^sup>*\<^sup>* (s, ?loop, eleven_prog e u) (?s1, Ret, ?q)"
    using rtranclp_trans [OF p0 run_first] unfolding run .
  have p2: "(par_step env)\<^sup>*\<^sup>* (?s1, Ret, ?q) (?s2, Ret, close_list e u wl)" by (rule close_second)
  have "map_option ExitReason (GetTicker ?s2 ?k) = Some ''TIME_EXIT''" "ev_Type ev = ''11AM''"
    by (simp_all add: get_closePosition exited_def ev_def)
  moreover note two [unfolded logged_def, THEN conjunct2, THEN conjunct2, unfolded snoc_snoc]
  ultimately show "\<exists>s1 p1 q1 s2 q2 ev. (par_step env)\<^sup>*\<^sup>* (s, ?loop, eleven_prog e u) (s1, p1, q1)
      \<and> (par_step env)\<^sup>*\<^sup>* (s1, p1, q1) (s2, Ret, q2)
      \<and> map_option ExitReason (GetTicker s1 ?k) = Some ''PROFIT'' \<and> map_option ExitReason (GetTicker s2 ?k) = Some ''TIME_EXIT''
      \<and> ev_Type ev = ''11AM''
      \<and> events s2 = last_n (event_cap s) (events s @ [ev,
          exit_event e ?u ?k ''PROFIT'' (''PROFIT! '' @ ?k) (fst (say e ?u (''PROFIT! '' @ ?k) s)),
          exit_event e u ?k ''TIME_EXIT'' (''11am close. '' @ ?k) (fst (say e u (''11am close. '' @ ?k) s))])"
    using p1 p2 one(1) by blast
next
  show "map_option ExitReason (GetTicker (onElevenAM e u (onTrade e a b c d tr s)) (et_Symbol tr)) = Some ''PROFIT''"
    using profit_then_eleven [OF assms(2,3)] .
next
  show "map_option ExitReason (GetTicker (onTrade e a b c d tr (onElevenAM e u s)) (et_Symbol tr)) = Some ''TIME_EXIT''"
    using eleven_then_profit [OF assms(2)] assms(1,3) by (simp add: profit_taking_def)
qed

section \<open>Instances\<close>

definition sample_trade :: equity_trade where
  "sample_trade = \<lparr>et_Symbol = ''ABC'', et_Timestamp = ny 11 0 div 1000000, et_Price = Fin 12, et_Size = 100\<rparr>"

abbreviation sample_race :: "prog \<times> prog" where
  "sample_race \<equiv> (loop_prog sample_engine (ny 9 30, ny 9 35, ny 9 43, ny 11 0) [sample_trade], eleven_prog sample_engine (ny 11 0))"

lemma sample_trade_time: "UnixMilli (et_Timestamp sample_trade) = ny 11 0"
  by (simp add: sample_trade_def UnixMilli_def ny_def)

lemma sample_run: "(par_step env)\<^sup>*\<^sup>* (s, fst sample_race, snd sample_race)
    (run (snd sample_race) (run (fst sample_race) s), Ret, Ret)"
  using rtranclp_trans [OF run_first run_second] .

theorem interleaving_ends_flat_witness:
  "flat (run (snd sample_race) (run (fst sample_race) (sample_store long_ticker)))"
proof (rule interleaving_ends_flat)
  show "(par_step request_step)\<^sup>*\<^sup>* (sample_store long_ticker,
      loop_prog sample_engine (ny 9 30, ny 9 35, ny 9 43, ny 11 0) [sample_trade], eleven_prog sample_engine (ny 11 0))
    (run (snd sample_race) (run (fst sample_race) (sample_store long_ticker)), Ret, Ret)"
    using sample_run by (simp only: fst_conv snd_conv)
  show "\<forall>tr \<in> set [sample_trade]. \<not> UnixMilli (et_Timestamp tr) < ny 9 43"
    by (simp add: sample_trade_time) (simp add: ny_def)
  show "\<forall>k t. GetTicker (sample_store long_ticker) k = Some t \<and> HasPosition t \<and> \<not> Exited t
      \<longrightarrow> k \<in> set (watchlist (sample_store long_ticker))"
    by (simp add: sample_store_def GetTicker_def SetTimes_def New_def)
qed

theorem interleaved_position_life_witness:
  "\<exists>t. GetTicker (run (snd sample_race) (run (fst sample_race) (sample_store long_ticker))) ''ABC'' = Some t
    \<and> HasPosition t \<and> EntryPrice t = Fin 10 \<and> TakeProfitPrice t = Fin 12"
proof -
  have run: "(par_step request_step)\<^sup>*\<^sup>* (sample_store long_ticker,
      loop_prog sample_engine (ny 9 30, ny 9 35, ny 9 43, ny 11 0) [sample_trade], eleven_prog sample_engine (ny 11 0))
    (run (snd sample_race) (run (fst sample_race) (sample_store long_ticker)), Ret, Ret)"
    using sample_run by (simp only: fst_conv snd_conv)
  have "HasPosition long_ticker" "EntryPrice long_ticker = Fin 10" "TakeProfitPrice long_ticker = Fin 12"
    by (simp_all add: long_ticker_def)
  with interleaved_position_life [OF rtranclp.rtrancl_refl run get_sample(1)] show ?thesis by metis
qed

text \<open>The engine of a live process whose speech service answers every request.\<close>

definition speaking_engine :: engine where
  "speaking_engine = sample_engine\<lparr>e_tts := Some \<lparr>apiKey = ''k'', tts_model = ''m'', tts_voice = ''v'', responseFormat = ''mp3''\<rparr>,
     e_http := (\<lambda>_. Inr (200, [], Inr [])), e_rand := (\<lambda>_ _. ''A'')\<rparr>"

lemma hex_41: "hex_digit 4 = CHR ''4''" "hex_digit 1 = CHR ''1''"
  by code_simp+

lemma speaking_says: "fst (say speaking_engine u tx s) = ''41''"
  by (simp add: say_def speaking_engine_def Enabled_def Synthesize_def randID_def hex_41 [simplified])

theorem exit_race_closes_twice_witness:
  "\<exists>s p q. (par_step request_step)\<^sup>*\<^sup>* (sample_store long_ticker,
        loop_prog speaking_engine (ny 9 30, ny 9 35, ny 9 43, ny 11 0) [sample_trade], eleven_prog speaking_engine (ny 11 0)) (s, p, q)
    \<and> map_option ExitReason (GetTicker s ''ABC'') = Some ''TIME_EXIT''
    \<and> map ev_Type (events s) = [''11AM'', ''PROFIT'', ''TIME_EXIT''] \<and> ev_AudioID (last (events s)) = ''41''"
proof -
  have k: "et_Symbol sample_trade = ''ABC''" by (simp add: sample_trade_def)
  have cap: "event_cap (sample_store long_ticker) = 250"
    by (simp add: event_cap_def sample_config_def applyDefaults_def zero_config_def or_pos_int_def)
  have hundred: "of_int64 100 = Fin 100" using of_int64_exact [of 100] by simp
  have "profit_taking (ny 9 30) (ny 11 0) sample_trade long_ticker"
    unfolding profit_taking_def sample_trade_time
    by (simp add: sample_trade_def long_ticker_def sample_ticker_def new_ticker_def ny_def zero_float64_def minute_ns_def
        sec_ns_def hundred)
  moreover have "watchlist (sample_store long_ticker) = et_Symbol sample_trade # [''XYZ'']"
    "GetTicker (sample_store long_ticker) (et_Symbol sample_trade) = Some long_ticker" "wf_events (sample_store long_ticker)"
    by (simp_all add: k cap wf_events_def)
  ultimately obtain s1 p1 q1 s2 q2 ev where *:
    "(par_step request_step)\<^sup>*\<^sup>* (sample_store long_ticker,
        loop_prog speaking_engine (ny 9 30, ny 9 35, ny 9 43, ny 11 0) [sample_trade], eleven_prog speaking_engine (ny 11 0)) (s1, p1, q1)"
    "(par_step request_step)\<^sup>*\<^sup>* (s1, p1, q1) (s2, Ret, q2)"
    "map_option ExitReason (GetTicker s2 ''ABC'') = Some ''TIME_EXIT''" "ev_Type ev = ''11AM''"
    "events s2 = last_n 250 ([] @ [ev,
          exit_event speaking_engine (ny 11 0) ''ABC'' ''PROFIT'' (''PROFIT! '' @ ''ABC'') ''41'',
          exit_event speaking_engine (ny 11 0) ''ABC'' ''TIME_EXIT'' (''11am close. '' @ ''ABC'') ''41''])"
    using exit_race_closes_twice [of "sample_store long_ticker" sample_trade "[''XYZ'']" long_ticker
        "ny 9 30" "ny 11 0" request_step speaking_engine "ny 9 35" "ny 9 43" "ny 11 0"]
    unfolding k sample_trade_time cap get_sample speaking_says by blast
  have "map ev_Type (events s2) = [''11AM'', ''PROFIT'', ''TIME_EXIT'']" "ev_AudioID (last (events s2)) = ''41''"
    using *(4) by (simp_all add: *(5) exit_event_def)
  with *(1-3) show ?thesis by (meson rtranclp_trans)
qed

end
