(* ===== verification/Pump.thy ===== *)
theory Pump
  imports Store
begin

text \<open>
  From the event list to the browsers: the pump that polls the store every 200 milliseconds
  (\<open>eventPump\<close> of \<open>internal/server/api.go\<close>) and the hub of server-sent events
  (\<open>internal/server/sse.go\<close>).

  The pump keeps the session it saw last and how many of its events it has broadcast. A client of the hub
  is its buffered channel and what has been written to its connection; a broadcast offers the message
  to each client and drops it where the channel is full. Each client is offered the message by itself, so the
  order in which the hub ranges over its map is irrelevant. \<open>marshal\<close> is the JSON text of an event. \<open>broadcast\<close>
  steps happen under the hub's mutex and are atomic, and so is each receive of a client's goroutine.

  \<open>feed\<close> is the specification of the pump: a log that is sent in order, each event once. The lemmas show
  that pump and store refine it as long as the event list is below its capacity, and what a client
  gets of the messages broadcast while it is connected.
\<close>

section \<open>The pump\<close>

record pump =
  pm_session :: string
  pm_len :: nat

definition init_pump :: pump where
  "init_pump = \<lparr>pm_session = [], pm_len = 0\<rparr>"

definition pump_tick :: "snapshot \<Rightarrow> pump \<Rightarrow> pump \<times> event list" where
  "pump_tick snap p =
     (let p = (if sn_SessionID snap \<noteq> [] \<and> sn_SessionID snap \<noteq> pm_session p
               then \<lparr>pm_session = sn_SessionID snap, pm_len = 0\<rparr> else p);
          evs = sn_Events snap;
          p = (if length evs < pm_len p then p\<lparr>pm_len := 0\<rparr> else p)
      in (p\<lparr>pm_len := length evs\<rparr>, drop (pm_len p) evs))"

section \<open>The hub\<close>

record client =
  cl_chan :: "string list"
  cl_out :: "string list"

type_synonym hub = "(nat \<times> client) list"

definition client_buffer :: nat where "client_buffer = 64"

definition newline :: string where "newline = [char_of (10 :: nat)]"

definition ping_frame :: string where
  "ping_frame = ''event: ping'' @ newline @ ''data: {}'' @ newline @ newline"

definition event_frame :: "string \<Rightarrow> string" where
  "event_frame b = ''event: event'' @ newline @ ''data: '' @ b @ newline @ newline"

definition offer :: "string \<Rightarrow> client \<Rightarrow> client" where
  "offer b c = (if length (cl_chan c) < client_buffer then c\<lparr>cl_chan := cl_chan c @ [b]\<rparr> else c)"

definition Broadcast :: "string \<Rightarrow> hub \<Rightarrow> hub" where
  "Broadcast b h = map (\<lambda>(i, c). (i, offer b c)) h"

definition connect :: "nat \<Rightarrow> hub \<Rightarrow> hub" where
  "connect i h = AList.update i \<lparr>cl_chan = [], cl_out = [ping_frame]\<rparr> h"

definition disconnect :: "nat \<Rightarrow> hub \<Rightarrow> hub" where
  "disconnect i h = AList.delete i h"

definition write_next :: "client \<Rightarrow> client" where
  "write_next c =
     (case cl_chan c of
        [] \<Rightarrow> c
      | b # bs \<Rightarrow> \<lparr>cl_chan = bs, cl_out = cl_out c @ [event_frame b]\<rparr>)"

definition flush_client :: "nat \<Rightarrow> hub \<Rightarrow> hub" where
  "flush_client i h = map (\<lambda>(j, c). (j, if j = i then write_next c else c)) h"

section \<open>The pump refines a feed\<close>

datatype pump_op = Add event | Reset gotime gotime gotime string | Tick gotime

record pump_sys =
  ps_store :: store
  ps_pump :: pump
  ps_out :: "event list"

fun pump_step :: "zone \<Rightarrow> map_order \<Rightarrow> pump_op \<Rightarrow> pump_sys \<Rightarrow> pump_sys" where
  "pump_step z ord (Add ev) c = c\<lparr>ps_store := AddEvent ev (ps_store c)\<rparr>"
| "pump_step z ord (Reset now tgt res note) c =
     c\<lparr>ps_store := fst (ResetForHistoricRun now tgt res note (ps_store c))\<rparr>"
| "pump_step z ord (Tick now) c =
     (case pump_tick (Snapshot z ord now (ps_store c)) (ps_pump c) of
        (p, evs) \<Rightarrow> c\<lparr>ps_pump := p, ps_out := ps_out c @ evs\<rparr>)"

text \<open>The specification: a log, how much of it has been sent, and all that has been sent.\<close>

record feed =
  fd_log :: "event list"
  fd_seen :: nat
  fd_out :: "event list"

fun feed_step :: "pump_op \<Rightarrow> feed \<Rightarrow> feed" where
  "feed_step (Add ev) f = f\<lparr>fd_log := fd_log f @ [ev]\<rparr>"
| "feed_step (Reset now tgt res note) f = f\<lparr>fd_log := [], fd_seen := 0\<rparr>"
| "feed_step (Tick now) f =
     f\<lparr>fd_seen := length (fd_log f), fd_out := fd_out f @ drop (fd_seen f) (fd_log f)\<rparr>"

definition feed_of :: "pump_sys \<Rightarrow> feed" where
  "feed_of c = \<lparr>fd_log = events (ps_store c),
     fd_seen = (if sessionID (ps_store c) = pm_session (ps_pump c) then pm_len (ps_pump c) else 0),
     fd_out = ps_out c\<rparr>"

text \<open>Where the refinement holds: room in the event list, session identifiers that do not repeat.\<close>

fun op_ok :: "pump_op \<Rightarrow> pump_sys \<Rightarrow> bool" where
  "op_ok (Add ev) c \<longleftrightarrow> length (events (ps_store c)) < event_cap (ps_store c)"
| "op_ok (Reset now tgt res note) c \<longleftrightarrow> show_int now \<noteq> [] \<and> show_int now \<noteq> pm_session (ps_pump c)"
| "op_ok (Tick now) c \<longleftrightarrow> True"

fun run_ok :: "zone \<Rightarrow> map_order \<Rightarrow> pump_op list \<Rightarrow> pump_sys \<Rightarrow> bool" where
  "run_ok z ord [] c \<longleftrightarrow> True"
| "run_ok z ord (op # ops) c \<longleftrightarrow> op_ok op c \<and> run_ok z ord ops (pump_step z ord op c)"

definition pump_inv :: "pump_sys \<Rightarrow> bool" where
  "pump_inv c \<longleftrightarrow> sessionID (ps_store c) \<noteq> [] \<and> fd_seen (feed_of c) \<le> length (events (ps_store c))"

lemma events_Add: "op_ok (Add ev) c \<Longrightarrow> events (AddEvent ev (ps_store c)) = events (ps_store c) @ [ev]"
  by (auto simp: events_AddEvent event_cap_def)

lemma pump_tick_eq:
  assumes "pump_inv c"
  shows "pump_tick (Snapshot z ord now (ps_store c)) (ps_pump c) =
    (\<lparr>pm_session = sessionID (ps_store c), pm_len = length (events (ps_store c))\<rparr>,
     drop (fd_seen (feed_of c)) (events (ps_store c)))"
  using assms by (auto simp: pump_tick_def Snapshot_def pump_inv_def feed_of_def Let_def)

lemma pump_refines_step:
  assumes "pump_inv c" and "op_ok op c"
  shows "feed_of (pump_step z ord op c) = feed_step op (feed_of c)" and "pump_inv (pump_step z ord op c)"
proof -
  have "feed_of (pump_step z ord op c) = feed_step op (feed_of c) \<and> pump_inv (pump_step z ord op c)"
  proof (cases op)
    case (Add ev)
    with assms events_Add [of ev c] show ?thesis by (auto simp: feed_of_def pump_inv_def frame_simps)
  next
    case (Reset now tgt res msg)
    with assms show ?thesis by (auto simp: feed_of_def pump_inv_def ResetForHistoricRun_def Let_def)
  next
    case (Tick now)
    with pump_tick_eq [OF assms(1)] assms(1) show ?thesis by (simp add: pump_inv_def feed_of_def)
  qed
  then show "feed_of (pump_step z ord op c) = feed_step op (feed_of c)" "pump_inv (pump_step z ord op c)" by blast+
qed

lemma pump_refines_run:
  assumes "pump_inv c" and "run_ok z ord ops c"
  shows "feed_of (fold (pump_step z ord) ops c) = fold feed_step ops (feed_of c)"
  using assms
proof (induction ops arbitrary: c)
  case (Cons op ops)
  then have ok: "op_ok op c" by simp
  note s = pump_refines_step [OF Cons.prems(1) ok, of z ord]
  from Cons.IH [OF s(2)] Cons.prems(2) s(1) show ?case by simp
qed simp

text \<open>What the specification promises of one session: every event once, in order.\<close>

fun added :: "pump_op list \<Rightarrow> event list" where
  "added [] = []"
| "added (Add ev # ops) = ev # added ops"
| "added (op # ops) = added ops"

fun resets :: "pump_op \<Rightarrow> bool" where
  "resets (Reset now tgt res note) = True"
| "resets op = False"

lemma feed_one_session:
  assumes "\<forall>op \<in> set ops. \<not> resets op" and "fd_seen f \<le> length (fd_log f)"
  shows "fd_log (fold feed_step ops f) = fd_log f @ added ops"
    and "\<exists>n \<ge> fd_seen f. fd_seen (fold feed_step ops f) = n \<and> n \<le> length (fd_log f @ added ops)
      \<and> fd_out (fold feed_step ops f) @ drop n (fd_log f @ added ops) = fd_out f @ drop (fd_seen f) (fd_log f @ added ops)"
proof -
  have "fd_log (fold feed_step ops f) = fd_log f @ added ops
    \<and> (\<exists>n \<ge> fd_seen f. fd_seen (fold feed_step ops f) = n \<and> n \<le> length (fd_log f @ added ops)
      \<and> fd_out (fold feed_step ops f) @ drop n (fd_log f @ added ops) = fd_out f @ drop (fd_seen f) (fd_log f @ added ops))"
    using assms
  proof (induction ops arbitrary: f)
    case (Cons op ops)
    show ?case
    proof (cases op)
      case (Add ev)
      with Cons.IH [of "feed_step op f"] Cons.prems show ?thesis by simp
    next
      case (Tick now)
      then have "fd_seen (feed_step op f) \<le> length (fd_log (feed_step op f))" by simp
      with Cons.IH [of "feed_step op f"] Cons.prems Tick show ?thesis
        by (fastforce simp: append_assoc [symmetric] simp del: append_assoc)
    qed (use Cons.prems in simp)
  qed simp
  then show "fd_log (fold feed_step ops f) = fd_log f @ added ops"
    and "\<exists>n \<ge> fd_seen f. fd_seen (fold feed_step ops f) = n \<and> n \<le> length (fd_log f @ added ops)
      \<and> fd_out (fold feed_step ops f) @ drop n (fd_log f @ added ops) = fd_out f @ drop (fd_seen f) (fd_log f @ added ops)"
    by blast+
qed

lemma tick_sends_all:
  assumes "pump_inv c" and "run_ok z ord ops c" and "\<forall>op \<in> set ops. \<not> resets op"
  shows "ps_out (fold (pump_step z ord) (ops @ [Tick now]) c)
       = ps_out c @ drop (fd_seen (feed_of c)) (events (ps_store c) @ added ops)"
proof -
  have ns: "\<forall>op \<in> set (ops @ [Tick now]). \<not> resets op" using assms(3) by simp
  have add: "added (ops @ [Tick now]) = added ops" by (induction ops rule: added.induct) simp_all
  have "run_ok z ord (ops @ [Tick now]) c" using assms(2) by (induction ops arbitrary: c) simp_all
  note r' = pump_refines_run [OF assms(1) this]
  have "fd_seen (feed_of c) \<le> length (fd_log (feed_of c))" using assms(1) by (simp add: pump_inv_def feed_of_def)
  note f = feed_one_session [OF ns this]
  have "fd_seen (fold feed_step (ops @ [Tick now]) (feed_of c)) = length (fd_log (fold feed_step (ops @ [Tick now]) (feed_of c)))"
    by simp
  with f add have "fd_out (fold feed_step (ops @ [Tick now]) (feed_of c))
      = fd_out (feed_of c) @ drop (fd_seen (feed_of c)) (fd_log (feed_of c) @ added ops)"
    by (auto simp del: fold_append)
  then show ?thesis
    unfolding r' [symmetric] by (simp add: feed_of_def del: fold_append)
qed

section \<open>What a client gets\<close>

datatype hub_op = Msg string | Connect nat | Disconnect nat | Flush nat

fun hub_step :: "hub_op \<Rightarrow> hub \<Rightarrow> hub" where
  "hub_step (Msg b) h = Broadcast b h"
| "hub_step (Connect i) h = connect i h"
| "hub_step (Disconnect i) h = disconnect i h"
| "hub_step (Flush i) h = flush_client i h"

fun client_step :: "nat \<Rightarrow> hub_op \<Rightarrow> client \<Rightarrow> client" where
  "client_step i (Msg b) c = offer b c"
| "client_step i (Flush j) c = (if j = i then write_next c else c)"
| "client_step i op c = c"

fun messages :: "hub_op list \<Rightarrow> string list" where
  "messages [] = []"
| "messages (Msg b # ops) = b # messages ops"
| "messages (op # ops) = messages ops"

lemma map_of_map_snd: "map_of (map (\<lambda>(i, c). (i, f i c)) h) i = map_option (f i) (map_of h i)"
  by (induction h) auto

lemma hub_step_client:
  assumes "map_of h i = Some c" and "op \<noteq> Connect i" and "op \<noteq> Disconnect i"
  shows "map_of (hub_step op h) i = Some (client_step i op c)"
  using assms
  by (cases op) (auto simp: Broadcast_def flush_client_def connect_def disconnect_def map_of_map_snd
      update_conv' delete_conv' map_of_map_snd [where f = "\<lambda>j c. if j = k then write_next c else c" for k])

text \<open>Everything a client has been given: what is written and what waits in its channel.\<close>

definition given :: "client \<Rightarrow> string list" where
  "given c = cl_out c @ map event_frame (cl_chan c)"

lemma given_offer:
  "given (offer b c) = (if length (cl_chan c) < client_buffer then given c @ [event_frame b] else given c)"
  by (simp add: given_def offer_def)

lemma given_write [simp]: "given (write_next c) = given c"
  by (simp add: given_def write_next_def split: list.splits)

lemma chan_bounds:
  "length (cl_chan (write_next c)) \<le> length (cl_chan c)"
  "length (cl_chan c) \<le> client_buffer \<Longrightarrow> length (cl_chan (offer b c)) \<le> client_buffer"
  "length (cl_chan (offer b c)) \<le> Suc (length (cl_chan c))"
  by (auto simp: write_next_def offer_def split: list.splits)

lemma client_run:
  assumes "length (cl_chan c) \<le> client_buffer"
  shows "length (cl_chan (fold (client_step i) ops c)) \<le> client_buffer
    \<and> (\<exists>ms. subseq ms (messages ops) \<and> given (fold (client_step i) ops c) = given c @ map event_frame ms
        \<and> (length (cl_chan c) + length (messages ops) \<le> client_buffer \<longrightarrow> ms = messages ops))"
  using assms
proof (induction ops arbitrary: c)
  case (Cons op ops)
  have len: "length (cl_chan (client_step i op c)) \<le> client_buffer"
    using Cons.prems chan_bounds(1) [of c] chan_bounds(2) [of c] by (cases op) (auto intro: order_trans)
  from Cons.IH [OF this] obtain ms where
    ih: "length (cl_chan (fold (client_step i) ops (client_step i op c))) \<le> client_buffer"
    "subseq ms (messages ops)"
    "given (fold (client_step i) ops (client_step i op c)) = given (client_step i op c) @ map event_frame ms"
    "length (cl_chan (client_step i op c)) + length (messages ops) \<le> client_buffer \<longrightarrow> ms = messages ops"
    by blast
  show ?case
  proof (cases op)
    case (Msg b)
    show ?thesis
    proof (cases "length (cl_chan c) < client_buffer")
      case True
      with Msg ih show ?thesis
        by (intro conjI exI [of _ "b # ms"]) (auto simp: given_offer offer_def given_def)
    next
      case False
      with Msg ih show ?thesis by (intro conjI exI [of _ ms]) (auto simp: given_offer)
    qed
  next
    case (Flush j)
    with ih chan_bounds(1) [of c] show ?thesis by (intro conjI exI [of _ ms]) (auto split: if_splits)
  qed (use ih in auto)
qed auto

lemma hub_run_client:
  assumes "map_of h i = Some c" and "Connect i \<notin> set ops" and "Disconnect i \<notin> set ops"
  shows "map_of (fold hub_step ops h) i = Some (fold (client_step i) ops c)"
  using assms
proof (induction ops arbitrary: h c)
  case (Cons op ops)
  then have "map_of (hub_step op h) i = Some (client_step i op c)" by (intro hub_step_client) auto
  from Cons.IH [OF this] Cons.prems show ?case by simp
qed simp

section \<open>Properties\<close>

text \<open>C16. The pump refines an ordered feed: as long as the event list has room and session identifiers do not
  repeat, store and pump behave as a log of which each event is sent once and in order, however additions,
  new sessions and ticks interleave; in one session the next tick has sent all that was added.\<close>

theorem pump_refines_feed:
  assumes "pump_inv c" and "run_ok z ord ops c"
  shows "feed_of (fold (pump_step z ord) ops c) = fold feed_step ops (feed_of c)
    \<and> ((\<forall>op \<in> set ops. \<not> resets op) \<longrightarrow>
         ps_out (fold (pump_step z ord) (ops @ [Tick now]) c)
       = ps_out c @ drop (fd_seen (feed_of c)) (events (ps_store c) @ added ops))"
  using pump_refines_run [OF assms] tick_sends_all [OF assms] by blast

text \<open>C39. At the capacity the pump falls silent: once the event list is full and has been sent, no event added
  later in the session is ever broadcast, because the list no longer grows, although it keeps the newest
  events.\<close>

theorem pump_stalls_when_full:
  assumes "0 < event_cap (ps_store c)" and "length (events (ps_store c)) = event_cap (ps_store c)"
    and "pm_session (ps_pump c) = sessionID (ps_store c)" and "pm_len (ps_pump c) = event_cap (ps_store c)"
    and "\<forall>op \<in> set ops. \<not> resets op"
  shows "ps_out (fold (pump_step z ord) ops c) = ps_out c
    \<and> events (ps_store (fold (pump_step z ord) ops c)) = last_n (event_cap (ps_store c)) (events (ps_store c) @ added ops)"
  using assms
proof (induction ops arbitrary: c)
  case (Cons op ops)
  show ?case
  proof (cases op)
    case (Add ev)
    let ?c = "pump_step z ord op c" and ?s = "ps_store c"
    have cap: "event_cap (AddEvent ev ?s) = event_cap ?s" by simp
    have ev: "events (AddEvent ev ?s) = tl (events ?s) @ [ev]"
      using Cons.prems(1,2) event_log.add_full [of ?s ev] by (cases "events ?s") auto
    have "length (events (AddEvent ev ?s)) = event_cap ?s"
      using Cons.prems(1,2) ev by (cases "events ?s") simp_all
    with Cons.IH [of ?c] Cons.prems Add cap have ih: "ps_out (fold (pump_step z ord) ops ?c) = ps_out c"
      "events (ps_store (fold (pump_step z ord) ops ?c)) = last_n (event_cap ?s) (tl (events ?s) @ [ev] @ added ops)"
      by (simp_all add: frame_simps ev)
    with Add Cons.prems(1,2) last_n_tl_snoc [of "events ?s" "event_cap ?s" ev "added ops"] show ?thesis by simp
  next
    case (Tick now)
    let ?c = "pump_step z ord op c"
    have "?c = c" using Cons.prems Tick by (simp add: pump_tick_def Snapshot_def Let_def)
    with Cons.IH [of ?c] Cons.prems Tick show ?thesis by simp
  qed (use Cons.prems in simp)
qed simp

text \<open>Server-sent events: while a client stays connected it is given the broadcast messages in order, each at most
  once, framed as events; a message is dropped only when its channel is full, so a client that is never
  64 messages behind gets all of them; and the channel never holds more than 64.\<close>

theorem client_gets_messages:
  assumes "map_of h i = Some c" and "length (cl_chan c) \<le> client_buffer"
    and "Connect i \<notin> set ops" and "Disconnect i \<notin> set ops"
  shows "\<exists>c' ms. map_of (fold hub_step ops h) i = Some c' \<and> length (cl_chan c') \<le> client_buffer
    \<and> given c' = given c @ map event_frame ms \<and> subseq ms (messages ops)
    \<and> (length (cl_chan c) + length (messages ops) \<le> client_buffer \<longrightarrow> ms = messages ops)"
  using hub_run_client [OF assms(1,3,4)] client_run [OF assms(2), of i ops] by blast

section \<open>Instances\<close>

definition sample_event :: event where
  "sample_event = \<lparr>ev_ID = ''1-BUY-A'', ev_TimeNY = ''09:36:00'', ev_Type = ''BUY'', ev_Symbol = ''A'',
     ev_Message = ''buy A'', ev_AudioID = [], ev_Level = ''info''\<rparr>"

definition small_store :: store where
  "small_store = New 5 (loaded_config\<lparr>cfg_UI := \<lparr>MaxEvents = 1\<rparr>\<rparr>) [''A'']"

theorem pump_refines_feed_witness:
  "ps_out (fold (pump_step (fixed_zone 0) id) ([Tick 6, Add sample_event] @ [Tick 7])
     \<lparr>ps_store = small_store, ps_pump = init_pump, ps_out = []\<rparr>) = [sample_event]"
proof -
  let ?c = "\<lparr>ps_store = small_store, ps_pump = init_pump, ps_out = []\<rparr>"
  have n: "show_int 5 \<noteq> []" by (simp add: show_int_def) (subst show_nat.simps, simp)
  then have "pump_inv ?c" by (simp add: pump_inv_def feed_of_def small_store_def New_def init_pump_def)
  moreover have "run_ok (fixed_zone 0) id [Tick 6, Add sample_event] ?c"
    using n by (simp add: small_store_def New_def event_cap_def init_pump_def pump_tick_def Snapshot_def Let_def)
  ultimately have "ps_out (fold (pump_step (fixed_zone 0) id) ([Tick 6, Add sample_event] @ [Tick 7]) ?c)
      = ps_out ?c @ drop (fd_seen (feed_of ?c)) (events (ps_store ?c) @ added [Tick 6, Add sample_event])"
    using pump_refines_feed by (metis (no_types, lifting) list.set(1) list.set(2) resets.simps(2,3) empty_iff insert_iff)
  then show ?thesis using n by (simp add: feed_of_def small_store_def New_def init_pump_def del: fold_append)
qed

text \<open>A list of one event that is full and has been sent.\<close>

definition full_sys :: pump_sys where
  "full_sys = \<lparr>ps_store = AddEvent sample_event small_store,
     ps_pump = \<lparr>pm_session = show_int 5, pm_len = 1\<rparr>, ps_out = [sample_event]\<rparr>"

theorem pump_stalls_when_full_witness:
  "ps_out (fold (pump_step (fixed_zone 0) id) [Add (sample_event\<lparr>ev_ID := ''2-SELL-A''\<rparr>), Tick 9] full_sys) = [sample_event]
    \<and> events (ps_store (fold (pump_step (fixed_zone 0) id) [Add (sample_event\<lparr>ev_ID := ''2-SELL-A''\<rparr>), Tick 9] full_sys))
      = [sample_event\<lparr>ev_ID := ''2-SELL-A''\<rparr>]"
proof -
  have s: "events (ps_store full_sys) = [sample_event]" "event_cap (ps_store full_sys) = 1"
    "sessionID (ps_store full_sys) = show_int 5"
    by (simp_all add: full_sys_def small_store_def event_cap_def New_def AddEvent_def)
  then have "0 < event_cap (ps_store full_sys)" "length (events (ps_store full_sys)) = event_cap (ps_store full_sys)"
    "pm_session (ps_pump full_sys) = sessionID (ps_store full_sys)" "pm_len (ps_pump full_sys) = event_cap (ps_store full_sys)"
    by (simp_all add: full_sys_def)
  from pump_stalls_when_full [OF this, of "[Add (sample_event\<lparr>ev_ID := ''2-SELL-A''\<rparr>), Tick 9]" "fixed_zone 0" id] s
  show ?thesis by (simp add: full_sys_def last_n_def del: pump_step.simps fold_simps)
qed

theorem client_gets_messages_witness:
  "\<exists>c'. map_of (fold hub_step [Msg ''a'', Connect 2, Flush 1, Msg ''b''] (connect 1 [])) 1 = Some c'
    \<and> given c' = [ping_frame, event_frame ''a'', event_frame ''b'']"
proof -
  have c: "map_of (connect 1 []) 1 = Some \<lparr>cl_chan = [], cl_out = [ping_frame]\<rparr>" by (simp add: connect_def)
  have "Connect 1 \<notin> set [Msg ''a'', Connect 2, Flush 1, Msg ''b'']" "Disconnect 1 \<notin> set [Msg ''a'', Connect 2, Flush 1, Msg ''b'']"
    by simp_all
  from client_gets_messages [OF c _ this] show ?thesis
    by (auto simp: given_def client_buffer_def)
qed

end
