(* ===== verification/Wire.thy ===== *)
theory Wire
  imports Pump Json_Text
begin

text \<open>
  The wire between server and page: an event as the JSON text \<open>Broadcast\<close> marshals (the tags of \<open>Event\<close> in
  \<open>internal/store/store.go\<close>), framed as \<open>ServeHTTP\<close> of \<open>internal/server/sse.go\<close> writes it.

  The other end is a specification: \<open>event_stream\<close> reads a byte stream as the event-stream format of the HTML
  standard says, \<open>page_events\<close> takes the messages of type \<open>event\<close>, parses their data and reads the
  members of an event, as the page does.

  The lemmas show that reader and writer are inverse: \<open>framing\<close> is their interface, a writer of frames and
  a reader that takes one frame off the stream.
\<close>

section \<open>Marshalling an event\<close>

definition omitempty :: "string \<Rightarrow> string \<Rightarrow> (string \<times> json) list" where
  "omitempty k v = (if v = [] then [] else [(k, JStr v)])"

definition event_json :: "event \<Rightarrow> json" where
  "event_json ev = JObj
     ([(''id'', JStr (ev_ID ev)), (''time_ny'', JStr (ev_TimeNY ev)), (''type'', JStr (ev_Type ev))]
      @ omitempty ''symbol'' (ev_Symbol ev) @ [(''message'', JStr (ev_Message ev))]
      @ omitempty ''audio_id'' (ev_AudioID ev) @ omitempty ''level'' (ev_Level ev))"

definition Marshal_event :: "event \<Rightarrow> string" where
  "Marshal_event ev = encode (event_json ev)"

section \<open>Reading an event stream\<close>

definition carriage_return :: char where "carriage_return = CHR 0x0D"
definition line_feed :: char where "line_feed = CHR 0x0A"

text \<open>The complete lines; one ends at a line feed, a carriage return, or the two together.\<close>

fun stream_lines :: "string \<Rightarrow> string \<Rightarrow> string list" where
  "stream_lines acc [] = []"
| "stream_lines acc (c # s) =
     (if c = line_feed then acc # stream_lines [] s
      else if c = carriage_return
      then acc # stream_lines [] (if s \<noteq> [] \<and> hd s = line_feed then tl s else s)
      else stream_lines (acc @ [c]) s)"

definition field_of :: "string \<Rightarrow> string \<times> string" where
  "field_of l =
     (case dropWhile (\<lambda>c. c \<noteq> CHR '':'') l of
        [] \<Rightarrow> (l, [])
      | _ # v \<Rightarrow> (takeWhile (\<lambda>c. c \<noteq> CHR '':'') l, if v \<noteq> [] \<and> hd v = CHR '' '' then tl v else v))"

text \<open>A blank line dispatches the message gathered so far, unless it has no data; a comment starts with a colon.\<close>

fun dispatch :: "string \<Rightarrow> string \<Rightarrow> string list \<Rightarrow> (string \<times> string) list" where
  "dispatch ty dat [] = []"
| "dispatch ty dat (l # ls) =
     (if l = [] then
        (if dat = [] then [] else [(if ty = [] then ''message'' else ty, butlast dat)]) @ dispatch [] [] ls
      else if hd l = CHR '':'' then dispatch ty dat ls
      else case field_of l of
        (f, v) \<Rightarrow>
          if f = ''event'' then dispatch v dat ls
          else if f = ''data'' then dispatch ty (dat @ v @ [line_feed]) ls
          else dispatch ty dat ls)"

definition event_stream :: "string \<Rightarrow> (string \<times> string) list" where
  "event_stream s = dispatch [] [] (stream_lines [] s)"

section \<open>What the page makes of it\<close>

definition member_text :: "string \<Rightarrow> (string \<times> json) list \<Rightarrow> string" where
  "member_text k ms = (case map_of (rev ms) k of Some (JStr s) \<Rightarrow> s | _ \<Rightarrow> [])"

definition read_event :: "string \<Rightarrow> event option" where
  "read_event s =
     (case scan_json s of
        Some (JObj ms) \<Rightarrow> Some \<lparr>ev_ID = member_text ''id'' ms, ev_TimeNY = member_text ''time_ny'' ms, ev_Type = member_text ''type'' ms,
          ev_Symbol = member_text ''symbol'' ms, ev_Message = member_text ''message'' ms, ev_AudioID = member_text ''audio_id'' ms,
          ev_Level = member_text ''level'' ms\<rparr>
      | _ \<Rightarrow> None)"

definition page_events :: "string \<Rightarrow> event option list" where
  "page_events s = map (\<lambda>(ty, dat). read_event dat) (filter (\<lambda>(ty, dat). ty = ''event'') (event_stream s))"

text \<open>An event with the ill-formed bytes of its fields replaced.\<close>

definition utf8_event :: "event \<Rightarrow> event" where
  "utf8_event ev = \<lparr>ev_ID = to_utf8 (ev_ID ev), ev_TimeNY = to_utf8 (ev_TimeNY ev), ev_Type = to_utf8 (ev_Type ev),
     ev_Symbol = to_utf8 (ev_Symbol ev), ev_Message = to_utf8 (ev_Message ev), ev_AudioID = to_utf8 (ev_AudioID ev),
     ev_Level = to_utf8 (ev_Level ev)\<rparr>"

section \<open>Frames on a stream\<close>

locale framing =
  fixes frame :: "'m \<Rightarrow> string" and fine :: "'m \<Rightarrow> bool" and reader :: "string \<Rightarrow> 'd list" and seen :: "'m \<Rightarrow> 'd"
  assumes read_frame: "fine m \<Longrightarrow> reader (frame m @ s) = seen m # reader s"
    and read_end: "reader [] = []"
begin

lemma read_frames: "list_all fine ms \<Longrightarrow> reader (concat (map frame ms) @ s) = map seen ms @ reader s"
  by (induction ms) (simp_all add: read_frame)

lemma read_all: "list_all fine ms \<Longrightarrow> reader (concat (map frame ms)) = map seen ms"
  using read_frames [of ms "[]"] by (simp add: read_end)

end

text \<open>A message on one line: no control character.\<close>

definition one_line :: "string \<Rightarrow> bool" where
  "one_line s \<longleftrightarrow> (\<forall>c \<in> set s. 32 \<le> byte c)"

lemma stream_lines_text:
  assumes "one_line l"
  shows "stream_lines acc (l @ line_feed # s) = (acc @ l) # stream_lines [] s"
  using assms
proof (induction l arbitrary: acc)
  case (Cons c l)
  then have "c \<noteq> line_feed" "c \<noteq> carriage_return" by (auto simp: one_line_def line_feed_def carriage_return_def)
  with Cons show ?case by (simp add: one_line_def)
qed simp

lemma newline_feed: "newline = [line_feed]"
  by code_simp

definition event_message :: "string \<times> string \<Rightarrow> string" where
  "event_message m = (case m of (ty, b) \<Rightarrow> ''event: '' @ ty @ newline @ ''data: '' @ b @ newline @ newline)"

lemma frames_are_messages:
  "event_frame b = event_message (''event'', b)" "ping_frame = event_message (''ping'', ''{}'')"
  by (simp_all add: event_frame_def ping_frame_def event_message_def)

lemma stream_lines_message:
  assumes "one_line ty" and "one_line b"
  shows "stream_lines [] (event_message (ty, b) @ s) = [''event: '' @ ty, ''data: '' @ b, []] @ stream_lines [] s"
proof -
  have l: "one_line (''event: '' @ ty)" "one_line (''data: '' @ b)" "one_line []" using assms by (simp_all add: one_line_def)
  have "event_message (ty, b) @ s = (''event: '' @ ty) @ line_feed # ((''data: '' @ b) @ line_feed # ([] @ line_feed # s))"
    by (simp add: event_message_def newline_feed)
  then show ?thesis using l [THEN stream_lines_text] by (simp only: append.simps)
qed

interpretation messages: framing event_message "\<lambda>(ty, b). ty \<noteq> [] \<and> one_line ty \<and> one_line b" event_stream id
proof
  show "event_stream [] = []" by (simp add: event_stream_def)
next
  fix m :: "string \<times> string" and s
  assume m: "case m of (ty, b) \<Rightarrow> ty \<noteq> [] \<and> one_line ty \<and> one_line b"
  obtain ty b where tb: "m = (ty, b)" by fastforce
  have "field_of (''event: '' @ ty) = (''event'', ty)" "field_of (''data: '' @ b) = (''data'', b)"
    by (simp_all add: field_of_def)
  then show "event_stream (event_message m @ s) = id m # event_stream s"
    using m by (simp add: tb event_stream_def stream_lines_message del: stream_lines.simps)
qed

section \<open>Reading what was marshalled\<close>

lemma encodable_event: "encodable 0 (event_json ev)"
  by (simp add: event_json_def omitempty_def max_nesting_def)

lemma one_line_event: "one_line (Marshal_event ev)"
  using encode_printable [OF encodable_event] by (simp add: one_line_def Marshal_event_def)

lemma to_utf8_empty [simp]: "to_utf8 s = [] \<longleftrightarrow> s = []"
  by (cases s) (auto simp: replacement_def split: nat.split)

lemma utf8_event_json: "utf8_json (event_json ev) = event_json (utf8_event ev)"
proof -
  have names: "to_utf8 ''id'' = ''id''" "to_utf8 ''time_ny'' = ''time_ny''" "to_utf8 ''type'' = ''type''"
    "to_utf8 ''symbol'' = ''symbol''" "to_utf8 ''message'' = ''message''" "to_utf8 ''audio_id'' = ''audio_id''"
    "to_utf8 ''level'' = ''level''"
    by (rule to_utf8_ascii, simp)+
  show ?thesis by (simp add: event_json_def omitempty_def names utf8_event_def del: to_utf8.simps)
qed

lemma member_text_append: "member_text k (ms @ ns) = (if k \<in> fst ` set ns then member_text k ns else member_text k ms)"
proof (cases "map_of (rev ns) k")
  case None
  then have "k \<notin> fst ` set ns" by (simp add: map_of_eq_None_iff)
  with None show ?thesis by (simp add: member_text_def map_add_def)
next
  case (Some v)
  then have "k \<in> fst ` set ns" using map_of_eq_None_iff [of "rev ns" k] by auto
  with Some show ?thesis by (simp add: member_text_def map_add_def)
qed

lemma member_text_simps:
  "member_text k [] = []" "member_text k [(k', JStr s)] = (if k' = k then s else [])"
  "member_text k ((k1, v1) # (k2, v2) # ms) = (if k = k2 \<or> k \<in> fst ` set ms then member_text k ((k2, v2) # ms) else member_text k [(k1, v1)])"
  using member_text_append [of k "[(k1, v1)]" "(k2, v2) # ms"] by (auto simp: member_text_def)

lemma read_Marshal_event: "read_event (Marshal_event ev) = Some (utf8_event ev)"
proof -
  have "scan_json (Marshal_event ev) = Some (event_json (utf8_event ev))"
    unfolding Marshal_event_def scan_encode [OF encodable_event] utf8_event_json ..
  then show ?thesis by (simp add: read_event_def event_json_def member_text_simps member_text_append omitempty_def)
qed

lemma page_reads_events:
  "page_events (concat (ping_frame # map (event_frame \<circ> Marshal_event) evs)) = map (Some \<circ> utf8_event) evs"
proof -
  have "concat (ping_frame # map (event_frame \<circ> Marshal_event) evs)
      = concat (map event_message ((''ping'', ''{}'') # map (\<lambda>ev. (''event'', Marshal_event ev)) evs))"
    by (simp add: frames_are_messages o_def)
  moreover have "list_all (\<lambda>(ty, b). ty \<noteq> [] \<and> one_line ty \<and> one_line b)
      ((''ping'', ''{}'') # map (\<lambda>ev. (''event'', Marshal_event ev)) evs)"
    using one_line_event by (auto simp: list_all_iff one_line_def)
  ultimately have "event_stream (concat (ping_frame # map (event_frame \<circ> Marshal_event) evs))
      = (''ping'', ''{}'') # map (\<lambda>ev. (''event'', Marshal_event ev)) evs"
    using messages.read_all by (simp only: list.map_id)
  then show ?thesis by (simp add: page_events_def filter_map o_def read_Marshal_event)
qed

end
