(* ===== verification/Delivery.thy ===== *)
theory Delivery
  imports Wire
begin

text \<open>
  From an event of the engine to the connection of a browser: store, pump and hub together
  (\<open>eventPump\<close> of \<open>internal/server/api.go\<close> calling \<open>Broadcast\<close> of \<open>internal/server/sse.go\<close>).

  A step is an operation of the store or a tick of the pump, a connection that comes or goes, or a write of
  a connection's goroutine. A tick broadcasts the JSON text of each event it takes to the
  clients connected then. \<open>hub_ops\<close> is what the hub sees of a run; through it the refinement of the pump and the
  lemmas on a client are put together, and with those on the wire they say what the page reads.
\<close>

section \<open>Store, pump and hub\<close>

datatype delivery_op = Server pump_op | Join nat | Leave nat | Write nat

record delivery =
  dl_sys :: pump_sys
  dl_hub :: hub

fun delivery_step ::
  "zone \<Rightarrow> map_order \<Rightarrow> delivery_op \<Rightarrow> delivery \<Rightarrow> delivery" where
  "delivery_step z ord (Server (Tick now)) d =
     (case pump_tick (Snapshot z ord now (ps_store (dl_sys d))) (ps_pump (dl_sys d)) of
        (p, evs) \<Rightarrow> \<lparr>dl_sys = (dl_sys d)\<lparr>ps_pump := p, ps_out := ps_out (dl_sys d) @ evs\<rparr>,
                      dl_hub = fold (\<lambda>ev. Broadcast (Marshal_event ev)) evs (dl_hub d)\<rparr>)"
| "delivery_step z ord (Server op) d = d\<lparr>dl_sys := pump_step z ord op (dl_sys d)\<rparr>"
| "delivery_step z ord (Join i) d = d\<lparr>dl_hub := connect i (dl_hub d)\<rparr>"
| "delivery_step z ord (Leave i) d = d\<lparr>dl_hub := disconnect i (dl_hub d)\<rparr>"
| "delivery_step z ord (Write i) d = d\<lparr>dl_hub := flush_client i (dl_hub d)\<rparr>"

section \<open>The run as the pump and as the hub see it\<close>

fun server_ops :: "delivery_op list \<Rightarrow> pump_op list" where
  "server_ops [] = []"
| "server_ops (Server op # ops) = op # server_ops ops"
| "server_ops (op # ops) = server_ops ops"

definition sent_by :: "zone \<Rightarrow> map_order \<Rightarrow> pump_op \<Rightarrow> pump_sys \<Rightarrow> event list" where
  "sent_by z ord op c =
     (case op of Tick now \<Rightarrow> snd (pump_tick (Snapshot z ord now (ps_store c)) (ps_pump c)) | _ \<Rightarrow> [])"

fun hub_ops :: "zone \<Rightarrow> map_order \<Rightarrow> delivery_op list \<Rightarrow> pump_sys \<Rightarrow> hub_op list" where
  "hub_ops z ord [] c = []"
| "hub_ops z ord (Server op # ops) c =
     map (\<lambda>ev. Msg (Marshal_event ev)) (sent_by z ord op c) @ hub_ops z ord ops (pump_step z ord op c)"
| "hub_ops z ord (Join i # ops) c = Connect i # hub_ops z ord ops c"
| "hub_ops z ord (Leave i # ops) c = Disconnect i # hub_ops z ord ops c"
| "hub_ops z ord (Write i # ops) c = Flush i # hub_ops z ord ops c"

text \<open>No message finds the client's channel full.\<close>

fun keeps_up :: "nat \<Rightarrow> hub_op list \<Rightarrow> client \<Rightarrow> bool" where
  "keeps_up i [] c \<longleftrightarrow> True"
| "keeps_up i (Msg b # ops) c \<longleftrightarrow> length (cl_chan c) < client_buffer \<and> keeps_up i ops (offer b c)"
| "keeps_up i (op # ops) c \<longleftrightarrow> keeps_up i ops (client_step i op c)"

lemma sent_by_out: "ps_out (pump_step z ord op c) = ps_out c @ sent_by z ord op c"
  by (cases op) (simp_all add: sent_by_def split: prod.split)

lemma fold_Msg: "fold hub_step (map (\<lambda>ev. Msg (Marshal_event ev)) evs) h = fold (\<lambda>ev. Broadcast (Marshal_event ev)) evs h"
  by (induction evs arbitrary: h) simp_all

lemma delivery_split:
  "fold (delivery_step z ord) ops d =
    \<lparr>dl_sys = fold (pump_step z ord) (server_ops ops) (dl_sys d),
     dl_hub = fold hub_step (hub_ops z ord ops (dl_sys d)) (dl_hub d)\<rparr>"
proof (induction ops arbitrary: d)
  case (Cons op ops)
  show ?case
  proof (cases op)
    case (Server sop)
    have "delivery_step z ord (Server sop) d =
      \<lparr>dl_sys = pump_step z ord sop (dl_sys d),
       dl_hub = fold hub_step (map (\<lambda>ev. Msg (Marshal_event ev)) (sent_by z ord sop (dl_sys d))) (dl_hub d)\<rparr>"
      by (cases sop) (simp_all add: sent_by_def fold_Msg split: prod.split)
    with Server show ?thesis by (simp add: Cons.IH)
  qed (simp_all add: Cons.IH)
qed simp

lemma messages_append: "messages (xs @ ys) = messages xs @ messages ys"
  by (induction xs rule: messages.induct) simp_all

lemma messages_Msg: "messages (map (\<lambda>ev. Msg (Marshal_event ev)) evs) = map Marshal_event evs"
  by (induction evs) simp_all

lemma messages_sent:
  "\<exists>evs. ps_out (fold (pump_step z ord) (server_ops ops) c) = ps_out c @ evs \<and> messages (hub_ops z ord ops c) = map Marshal_event evs"
proof (induction ops arbitrary: c)
  case (Cons op ops)
  show ?case
  proof (cases op)
    case (Server sop)
    from Cons.IH [of "pump_step z ord sop c"] Server show ?thesis
      by (auto simp: sent_by_out messages_append messages_Msg intro: exI [of _ "sent_by z ord sop c @ _"])
  qed (use Cons.IH [of c] in simp_all)
qed simp

lemma stays_connected:
  assumes "Join i \<notin> set ops" and "Leave i \<notin> set ops"
  shows "Connect i \<notin> set (hub_ops z ord ops c)" and "Disconnect i \<notin> set (hub_ops z ord ops c)"
proof -
  have "Connect i \<notin> set (hub_ops z ord ops c) \<and> Disconnect i \<notin> set (hub_ops z ord ops c)"
    using assms by (induction ops arbitrary: c rule: server_ops.induct) auto
  then show "Connect i \<notin> set (hub_ops z ord ops c)" "Disconnect i \<notin> set (hub_ops z ord ops c)" by blast+
qed

lemma keeps_up_given: "keeps_up i ops c \<Longrightarrow> given (fold (client_step i) ops c) = given c @ map event_frame (messages ops)"
  by (induction i ops c rule: keeps_up.induct) (simp_all add: given_offer)

lemma write_all: "fold (client_step i) (replicate (length (cl_chan c)) (Flush i)) c = \<lparr>cl_chan = [], cl_out = given c\<rparr>"
proof (induction "cl_chan c" arbitrary: c)
  case Nil
  then show ?case by (cases c) (simp add: given_def)
next
  case (Cons b bs)
  have w: "cl_chan (write_next c) = bs" by (simp add: write_next_def Cons.hyps(2) [symmetric])
  from Cons.hyps(1) [OF w [symmetric]] have "fold (client_step i) (replicate (length bs) (Flush i)) (write_next c)
      = \<lparr>cl_chan = [], cl_out = given c\<rparr>" by (simp add: w)
  then show ?case by (simp add: Cons.hyps(2) [symmetric])
qed

lemma hub_ops_writes: "hub_ops z ord (replicate n (Write i)) c = replicate n (Flush i)"
  and server_ops_writes: "server_ops (replicate n (Write i)) = []"
  by (induction n) simp_all

section \<open>Property\<close>

lemma delivered:
  assumes "pump_inv (dl_sys d)" and "run_ok z ord (server_ops ops) (dl_sys d)"
    and "\<forall>op \<in> set (server_ops ops). \<not> resets op"
    and "map_of (dl_hub d) i = Some c" and "Join i \<notin> set ops" and "Leave i \<notin> set ops"
    and "keeps_up i (hub_ops z ord (ops @ [Server (Tick now)]) (dl_sys d)) c"
  shows "\<exists>n. map_of (dl_hub (fold (delivery_step z ord) (ops @ Server (Tick now) # replicate n (Write i)) d)) i =
    Some \<lparr>cl_chan = [], cl_out = given c @ map (\<lambda>ev. event_frame (Marshal_event ev))
      (drop (fd_seen (feed_of (dl_sys d))) (events (ps_store (dl_sys d)) @ added (server_ops ops)))\<rparr>"
proof -
  let ?ops = "ops @ [Server (Tick now)]"
  let ?hops = "hub_ops z ord ?ops (dl_sys d)"
  have so: "server_ops ?ops = server_ops ops @ [Tick now]" by (induction ops rule: server_ops.induct) simp_all
  obtain evs where evs: "ps_out (fold (pump_step z ord) (server_ops ?ops) (dl_sys d)) = ps_out (dl_sys d) @ evs"
    "messages ?hops = map Marshal_event evs" using messages_sent by blast
  have "ps_out (fold (pump_step z ord) (server_ops ?ops) (dl_sys d)) = ps_out (dl_sys d)
      @ drop (fd_seen (feed_of (dl_sys d))) (events (ps_store (dl_sys d)) @ added (server_ops ops))"
    unfolding so by (rule tick_sends_all [OF assms(1,2,3)])
  with evs(1) have e: "evs = drop (fd_seen (feed_of (dl_sys d))) (events (ps_store (dl_sys d)) @ added (server_ops ops))" by simp
  have "Join i \<notin> set ?ops" "Leave i \<notin> set ?ops" using assms(5,6) by simp_all
  note conn = stays_connected [OF this, of z ord "dl_sys d"]
  let ?c = "fold (client_step i) ?hops c"
  define d1 where "d1 = fold (delivery_step z ord) ?ops d"
  have c: "map_of (dl_hub d1) i = Some ?c"
    unfolding d1_def delivery_split using hub_run_client [OF assms(4) conn] by simp
  have g: "given ?c = given c @ map (\<lambda>ev. event_frame (Marshal_event ev)) evs"
    using keeps_up_given [OF assms(7)] evs(2) by simp
  let ?n = "length (cl_chan ?c)"
  have "Connect i \<notin> set (replicate ?n (Flush i))" "Disconnect i \<notin> set (replicate ?n (Flush i))" by auto
  from hub_run_client [OF c this]
  have "map_of (dl_hub (fold (delivery_step z ord) (replicate ?n (Write i)) d1)) i
      = Some (fold (client_step i) (replicate ?n (Flush i)) ?c)"
    unfolding delivery_split hub_ops_writes by (simp only: delivery.select_convs)
  then have "map_of (dl_hub (fold (delivery_step z ord) (?ops @ replicate ?n (Write i)) d)) i =
      Some \<lparr>cl_chan = [], cl_out = given ?c\<rparr>" by (simp only: write_all d1_def fold_append o_apply)
  then show ?thesis unfolding g e by (intro exI [of _ ?n]) simp
qed

section \<open>Property\<close>

text \<open>C17. Delivery: while a browser stays connected in one session and its channel never overflows, with room in the
  event list, the next tick and the writes that follow put on its connection what its page reads, as
  an event stream with JSON data, as each event not sent before and each one added since, once, in order and
  unchanged (up to ill-formed bytes of its text), after what it had been given before.\<close>

theorem events_are_delivered:
  assumes "pump_inv (dl_sys d)" and "run_ok z ord (server_ops ops) (dl_sys d)"
    and "\<forall>op \<in> set (server_ops ops). \<not> resets op"
    and "map_of (dl_hub d) i = Some c" and "Join i \<notin> set ops" and "Leave i \<notin> set ops"
    and "keeps_up i (hub_ops z ord (ops @ [Server (Tick now)]) (dl_sys d)) c"
    and "given c = ping_frame # map (event_frame \<circ> Marshal_event) before"
  shows "\<exists>n c'. map_of (dl_hub (fold (delivery_step z ord) (ops @ Server (Tick now) # replicate n (Write i)) d)) i = Some c'
    \<and> cl_chan c' = []
    \<and> page_events (concat (cl_out c')) = map (Some \<circ> utf8_event)
        (before @ drop (fd_seen (feed_of (dl_sys d))) (events (ps_store (dl_sys d)) @ added (server_ops ops)))"
proof -
  let ?new = "drop (fd_seen (feed_of (dl_sys d))) (events (ps_store (dl_sys d)) @ added (server_ops ops))"
  from delivered [OF assms(1-7)] obtain n where n:
    "map_of (dl_hub (fold (delivery_step z ord) (ops @ Server (Tick now) # replicate n (Write i)) d)) i =
      Some \<lparr>cl_chan = [], cl_out = given c @ map (event_frame \<circ> Marshal_event) ?new\<rparr>" by (auto simp: o_def)
  have p: "page_events (concat (given c @ map (event_frame \<circ> Marshal_event) ?new)) = map (Some \<circ> utf8_event) (before @ ?new)"
    using page_reads_events [of "before @ ?new"] assms(8) by (simp only: append_Cons map_append)
  show ?thesis by (rule exI, rule exI, rule conjI [OF n], rule conjI) (simp_all only: client.select_convs p)
qed

section \<open>Instance\<close>

definition sample_delivery :: delivery where
  "sample_delivery = \<lparr>dl_sys = \<lparr>ps_store = small_store, ps_pump = init_pump, ps_out = []\<rparr>, dl_hub = connect 0 []\<rparr>"

theorem events_are_delivered_witness:
  "\<exists>n c. map_of (dl_hub (fold (delivery_step (fixed_zone 0) id)
      ([Server (Add sample_event)] @ Server (Tick 7) # replicate n (Write 0)) sample_delivery)) 0 = Some c
    \<and> page_events (concat (cl_out c)) = [Some (utf8_event sample_event)]"
proof -
  let ?c = "\<lparr>cl_chan = [], cl_out = [ping_frame]\<rparr>"
  have n: "show_int 5 \<noteq> []" by (simp add: show_int_def) (subst show_nat.simps, simp)
  have inv: "pump_inv (dl_sys sample_delivery)"
    using n by (simp add: sample_delivery_def pump_inv_def feed_of_def small_store_def New_def init_pump_def)
  have ok: "run_ok (fixed_zone 0) id (server_ops [Server (Add sample_event)]) (dl_sys sample_delivery)"
    by (simp add: sample_delivery_def small_store_def New_def event_cap_def)
  have client: "map_of (dl_hub sample_delivery) 0 = Some ?c" by (simp add: sample_delivery_def connect_def)
  have evs: "events (AddEvent sample_event small_store) = [sample_event]" "sessionID (AddEvent sample_event small_store) = show_int 5"
    by (simp_all add: small_store_def New_def AddEvent_def)
  have up: "keeps_up 0 (hub_ops (fixed_zone 0) id ([Server (Add sample_event)] @ [Server (Tick 7)])
      (dl_sys sample_delivery)) ?c"
    using n by (simp add: sample_delivery_def sent_by_def pump_tick_def Snapshot_def init_pump_def Let_def evs client_buffer_def)
  have out: "[] @ drop (fd_seen (feed_of (dl_sys sample_delivery)))
      (events (ps_store (dl_sys sample_delivery)) @ added (server_ops [Server (Add sample_event)])) = [sample_event]"
    using n by (simp add: feed_of_def sample_delivery_def small_store_def New_def init_pump_def)
  have "given ?c = ping_frame # map (event_frame \<circ> Marshal_event) []" by (simp add: given_def)
  from events_are_delivered [OF inv ok _ client _ _ up this] show ?thesis unfolding out by auto
qed

end
