(* ===== verification/Journeys.thy ===== *)
theory Journeys
  imports Entry Race Delivery
begin

text \<open>
  A property that spans the components: what a user of the page sees of a request for a past session, from the
  POST to \<open>/api/historic/run\<close> over the run to a later GET of \<open>/api/state\<close>.
\<close>

section \<open>Requests change no session\<close>

text \<open>A request that queues no run, the only kind whose whole effect is on the store.\<close>

definition reading_step :: "store \<Rightarrow> store \<Rightarrow> bool" where
  "reading_step s s' \<longleftrightarrow> (\<exists>h sv now ord r rep. serve h sv now ord r s = Some (s', None, rep))"

lemma reading_steps_rest: "reading_step\<^sup>*\<^sup>* s s' \<Longrightarrow> rest_of s' = rest_of s"
proof (induction rule: rtranclp_induct)
  case (step y z)
  then obtain h sv now ord r rep where "serve h sv now ord r y = Some (z, None, rep)" by (auto simp: reading_step_def)
  from serve_rest [OF this] step.IH show ?case by simp
qed simp

text \<open>The page gets the snapshot if JSON can hold it, and an empty body if one of its numbers is not finite.\<close>

definition page_gets :: "response \<Rightarrow> snapshot \<Rightarrow> bool" where
  "page_gets resp snap \<longleftrightarrow> rs_Status resp = 200 \<and> rs_Type resp = ''application/json''
     \<and> rs_Body resp = (if \<forall>x \<in> set (payload_floats (PState snap)). is_fin x then Json (PState snap) else NoBody)"

lemma state_reply:
  assumes "rq_Method r = ''GET''"
  shows "\<exists>snap. page_gets (snd (handleState h sv now ord r s)) snap
    \<and> sn_Phase snap = phase s \<and> sn_HistoricReport snap = historicReport s \<and> sn_Events snap = events s
    \<and> sn_SessionID snap = sessionID s
    \<and> sn_HistoricTargetDateNY snap = (if IsZero (historicTargetDateNY s) then [] else fmt_ymd (sv_loc h sv) (historicTargetDateNY s))"
proof -
  have body: "page_gets (write_json 200 (PState snap)) snap" for snap
    by (simp add: page_gets_def write_json_def Encode_def list_all_iff)
  show ?thesis
    using assms body by (fastforce simp: handleState_def Let_def Snapshot_def SetTimes_def split: prod.split)
qed

section \<open>A past session\<close>

lemma replayed_session_tag:
  assumes "wf_store s"
  shows "session_tag (fst (replay_session e env d note w en (fst (ResetForHistoricRun now tgt res msg s)))) =
    (show_int now, tgt, res, msg)"
proof -
  let ?s = "fst (ResetForHistoricRun now tgt res msg s)"
  have "store_step False False s ?s" by (rule call_Reset) simp
  then have "wf_store ?s" using wf_store_step assms by blast
  from session_tag_steps [OF steady.replay_session_steps [OF this rtranclp.rtrancl_refl]]
  have "session_tag (fst (replay_session e env d note w en ?s)) = session_tag ?s" .
  then show ?thesis by (simp add: session_tag_def ResetForHistoricRun_def Let_def)
qed

text \<open>The two ways a run for a past date ends, as the goroutine leaves the store.\<close>

lemma past_goroutine:
  assumes "undisturbed env" and "distinct (watchlist s)" and "wf_store s" and z: "full_days (e_loc e)"
    and "env_date_cancel env = (\<lambda>_. None)" and "env_probe_cancel env = (\<lambda>_ _. None)"
    and "local_day (e_loc e) day < local_day (e_loc e) (env_asOf env)" and "dateOnlyInLoc (e_loc e) day = day"
  obtains (failed) err s1 where "historic_goroutine (e_loc e) e env False now day s = Some s1" and "phase s1 = PhaseClosed"
      and "events s1 \<noteq> []" and "ev_Message (last (events s1)) = ''Historic run failed: '' @ err"
  | (shown) rep s1 where "historic_goroutine (e_loc e) e env False now day s = Some s1" and "phase s1 = PhaseClosed"
      and "historicReport s1 = Some rep" and "all_exited rep"
      and "historicTargetDateNY s1 = day" and "sessionID s1 = show_int (env_now env)"
proof (rule past_run [OF assms(1,2) z assms(5,6,7)])
  fix err
  let ?s = "emit e (env_asOf env) ''SYSTEM'' [] (''Historic date resolution failed for ''
        @ fmt_ymd (e_loc e) (dateOnlyInLoc (e_loc e) day) @ '': '' @ err) [] ''warn'' (SetPhase PhaseClosed s)"
  assume r: "RunHistoricForDate e env day s = Some (?s, Some err)"
  define ev where "ev = \<lparr>ev_ID = show_int now @ ''-SYSTEM-historic'', ev_TimeNY = fmt_hms (e_loc e) now,
    ev_Type = ''SYSTEM'', ev_Symbol = [], ev_Message = ''Historic run failed: '' @ err, ev_AudioID = [], ev_Level = ''warn''\<rparr>"
  have "historic_goroutine (e_loc e) e env False now day s = Some (AddEvent ev ?s)"
    by (simp add: historic_goroutine_def assms(8) r ev_def)
  then show thesis
    by (rule failed [where err = err]) (simp_all add: frame_simps events_AddEvent, simp add: ev_def)
next
  fix n msg w en s'
  assume r: "RunHistoricForDate e env day s = Some (s', None)"
    and s': "s' = fst (replay_session e env (midnight (e_loc e) n) msg w en
      (fst (ResetForHistoricRun (env_now env) (dateOnlyInLoc (e_loc e) day) (midnight (e_loc e) n) msg s)))"
    and fin: "finished s'"
  have "session_tag s' = (show_int (env_now env), day, midnight (e_loc e) n, msg)"
    unfolding s' using replayed_session_tag [OF assms(3)] by (simp add: assms(8))
  moreover obtain rep where "historicReport s' = Some rep" "all_exited rep" "phase s' = PhaseClosed"
    using fin by (auto simp: finished_def)
  ultimately show thesis
    by (intro shown [of s' rep]) (simp_all add: historic_goroutine_def assms(8) r session_tag_def)
qed

text \<open>C6. The journey of a request: a POST for a past date has been accepted, by a server in the engine's zone (one that
  has every midnight) and for another date than 1 January of year 1, and its run, over a watchlist without
  repetitions, is neither cancelled nor interleaved with other calls. Then the run ends, and whatever requests are served after it, as long
  as none queues another run, the state the page asks for is closed and either holds the report of the session asked
  for, under the date as the request wrote it, every trade of it exited, or the run failed and the last event says
  so. The page gets that state with status 200, with an empty body where a number in it is not finite.\<close>

theorem requested_session_is_shown:
  assumes post: "fst (handleHistoricRun h sv r s) = Some day" and "\<not> IsZero day"
    and "sv_loc h sv = e_loc e" and "full_days (e_loc e)"
    and "undisturbed env" and "env_date_cancel env = (\<lambda>_. None)" and "env_probe_cancel env = (\<lambda>_ _. None)"
    and "local_day (e_loc e) day < local_day (e_loc e) (env_asOf env)"
    and "wf_store s0" and "distinct (watchlist s0)" and "rq_Method r' = ''GET''"
  shows "\<exists>s1. historic_goroutine (sv_loc h sv) e env False now day s0 = Some s1
    \<and> (\<forall>s2. reading_step\<^sup>*\<^sup>* s1 s2 \<longrightarrow>
        (\<exists>snap. page_gets (snd (handleState h sv now' ord r' s2)) snap \<and> sn_Phase snap = PhaseClosed
          \<and> (sn_HistoricTargetDateNY snap = TrimSpace (h_unicode h) (Query_Get r ''date'')
                \<and> (\<exists>rep. sn_HistoricReport snap = Some rep \<and> all_exited rep)
              \<or> sn_Events snap \<noteq> [] \<and> take 21 (ev_Message (last (sn_Events snap))) = ''Historic run failed: '')))"
proof -
  note d = parse_then_format [OF handleHistoricRun_queue(3) [OF post], unfolded assms(3), OF assms(4)]
  show ?thesis
    using assms(5,10,9,4,6,7,8) d(3)
  proof (cases rule: past_goroutine [where now = now])
    case (failed err s1)
    show ?thesis
      unfolding assms(3)
    proof (intro exI [of _ s1] conjI allI impI, rule failed(1))
      fix s2 assume "reading_step\<^sup>*\<^sup>* s1 s2"
      note eq = reading_steps_rest [OF this]
      show "\<exists>snap. page_gets (snd (handleState h sv now' ord r' s2)) snap \<and> sn_Phase snap = PhaseClosed
          \<and> (sn_HistoricTargetDateNY snap = TrimSpace (h_unicode h) (Query_Get r ''date'')
                \<and> (\<exists>rep. sn_HistoricReport snap = Some rep \<and> all_exited rep)
              \<or> sn_Events snap \<noteq> [] \<and> take 21 (ev_Message (last (sn_Events snap))) = ''Historic run failed: '')"
        using state_reply [OF assms(11), of h sv now' ord s2] eq failed(2-4) by (auto simp: rest_of_def)
    qed
  next
    case (shown rep s1)
    show ?thesis
      unfolding assms(3)
    proof (intro exI [of _ s1] conjI allI impI, rule shown(1))
      fix s2 assume "reading_step\<^sup>*\<^sup>* s1 s2"
      note eq = reading_steps_rest [OF this]
      show "\<exists>snap. page_gets (snd (handleState h sv now' ord r' s2)) snap \<and> sn_Phase snap = PhaseClosed
          \<and> (sn_HistoricTargetDateNY snap = TrimSpace (h_unicode h) (Query_Get r ''date'')
                \<and> (\<exists>rep. sn_HistoricReport snap = Some rep \<and> all_exited rep)
              \<or> sn_Events snap \<noteq> [] \<and> take 21 (ev_Message (last (sn_Events snap))) = ''Historic run failed: '')"
        using state_reply [OF assms(11), of h sv now' ord s2] eq shown(2-5) d(1) assms(2,3) by (auto simp: rest_of_def)
    qed
  qed
qed

section \<open>Instance\<close>

theorem requested_session_is_shown_witness:
  "\<exists>s1 snap. historic_goroutine (fixed_zone 0) plain_engine (quiet_env probe_rest (864000 * sec_ns)) False 0 0
      (SetMode ModeHistoric (New 0 loaded_config [''A''])) = Some s1
    \<and> page_gets (snd (handleState sample_host sample_server 0 id (sample_request ''GET'' ''/api/state'') s1)) snap
    \<and> sn_Phase snap = PhaseClosed"
proof -
  let ?s = "SetMode ModeHistoric (New 0 loaded_config [''A''])"
  let ?r = "(sample_request ''POST'' ''/api/historic/run'')\<lparr>rq_Query := [(''date'', ''1970-01-01'')]\<rparr>"
  have z: "sv_loc sample_host sample_server = e_loc plain_engine" "e_loc plain_engine = fixed_zone 0"
    by (simp_all add: sv_loc_def mustLoc_def sample_host_def plain_engine_def)
  have f: "fmt_ymd (fixed_zone 0) 0 = ''1970-01-01''" and c: "civil (fixed_zone 0) 0 = (1970, 1, 1)"
    and d: "dateOnlyInLoc (fixed_zone 0) 0 = 0" and t: "TrimSpace (h_unicode sample_host) ''1970-01-01'' = ''1970-01-01''"
    by code_simp+
  have "ParseInLocation (fixed_zone 0) ''1970-01-01'' = Some 0" using format_then_parse [OF c] by (simp add: f d)
  then have post: "fst (handleHistoricRun sample_host sample_server ?r ?s) = Some 0"
    by (simp add: handleHistoricRun_def sample_request_def Query_Get_def Mode_def SetMode_def t z Let_def)
  have past: "local_day (e_loc plain_engine) 0 < local_day (e_loc plain_engine) (env_asOf (quiet_env probe_rest (864000 * sec_ns)))"
    by (simp add: z local_day_def local_secs_def fixed_zone_def Unix_def sec_ns_def quiet_env_def)
  have wf: "wf_store ?s" using wf_New(1) [OF loaded_ok(2)] by simp
  have "\<exists>s1. historic_goroutine (sv_loc sample_host sample_server) plain_engine (quiet_env probe_rest (864000 * sec_ns)) False 0 0 ?s = Some s1
    \<and> (\<forall>s2. reading_step\<^sup>*\<^sup>* s1 s2 \<longrightarrow> (\<exists>snap. page_gets (snd (handleState sample_host sample_server 0 id
        (sample_request ''GET'' ''/api/state'') s2)) snap \<and> sn_Phase snap = PhaseClosed
          \<and> (sn_HistoricTargetDateNY snap = TrimSpace (h_unicode sample_host) (Query_Get ?r ''date'')
                \<and> (\<exists>rep. sn_HistoricReport snap = Some rep \<and> all_exited rep)
              \<or> sn_Events snap \<noteq> [] \<and> take 21 (ev_Message (last (sn_Events snap))) = ''Historic run failed: '')))"
    by (rule requested_session_is_shown [OF post _ z(1) _ quiet_undisturbed _ _ past wf])
      (simp_all add: z IsZero_def zero_time_def sec_ns_def full_days_fixed quiet_env_def SetMode_def New_def sample_request_def)
  then show ?thesis unfolding z by blast
qed

end
