(* ===== verification/LiveDay.thy ===== *)
theory LiveDay
  imports Race LiveRun
begin

text \<open>
  A live day, call by call: the run of \<open>Run\<close> up to its loop, and from there the loop and the 11 o'clock goroutine
  as the interleaved programs of \<open>Calls\<close>, with requests being served.

  The lemmas show that neither goroutine puts a ticker into the store that is not in the watchlist, so the time
  exit, which walks the watchlist, misses no position.
\<close>

section \<open>Every ticker is watched\<close>

definition watched :: "string list \<Rightarrow> store \<Rightarrow> bool" where
  "watched wl s \<longleftrightarrow> watchlist s = wl \<and> (\<forall>k. GetTicker s k \<noteq> None \<longrightarrow> k \<in> set wl)"

definition keeps_watched :: "string list \<Rightarrow> store \<Rightarrow> store \<Rightarrow> bool" where
  "keeps_watched wl a b \<longleftrightarrow> (watched wl a \<longrightarrow> watched wl b)"

lemma same_watched: "same a b \<Longrightarrow> keeps_watched wl a b"
  by (simp add: keeps_watched_def watched_def same_get) (simp add: same_def)

interpretation watching: quiet_calls "keeps_watched wl" "keeps_watched wl" for wl
  by unfold_locales (rule same_watched)

interpretation watch_race: rely_guarantee "keeps_watched wl" "keeps_watched wl" "keeps_watched wl" "keeps_watched wl"
  request_step for wl
proof unfold_locales
  show "request_step a b \<Longrightarrow> keeps_watched wl a b \<and> keeps_watched wl a b" for a b
    using same_request same_watched by blast
qed (auto simp: keeps_watched_def)

lemma kept_watched: "kept (keeps_watched wl) (watched wl)"
  unfolding kept_def using same_watched by (meson keeps_watched_def)

lemma watched_Upsert: "k \<in> set wl \<Longrightarrow> keeps_watched wl s (UpsertTicker k f s)"
  by (simp add: keeps_watched_def watched_def cells.get_upd frame_simps)

lemma watched_trade:
  assumes "watched wl s"
  shows "rg (keeps_watched wl) (keeps_watched wl) (\<lambda>_. True) (trade_prog e a b c d symb ms p z al) s"
proof (cases "symb \<in> set wl")
  case True
  then show ?thesis
    by (intro watching.trade_rule [where I = "\<lambda>_. True"] kept_True) (simp_all add: watched_Upsert)
next
  case False
  have none: "GetTicker x symb = None" if "watched wl x" for x using that False by (auto simp: watched_def)
  show ?thesis
    unfolding trade_prog_def by (rule rg_if) (simp, rule watching.read_rule [OF kept_watched assms], simp add: none)
qed

lemma rg_watched:
  assumes "rg (keeps_watched wl) (keeps_watched wl) (\<lambda>_. True) p s" and "watched wl s"
  shows "rg (keeps_watched wl) (keeps_watched wl) (watched wl) p s"
  using assms
proof (induction p arbitrary: s)
  case Ret
  then show ?case by (simp add: keeps_watched_def)
next
  case (Call u c)
  show ?case
    unfolding rg.simps
  proof (intro allI impI)
    fix x assume x: "keeps_watched wl s x"
    with Call.prems have g: "keeps_watched wl x (u x)" "rg (keeps_watched wl) (keeps_watched wl) (\<lambda>_. True) (c x) (u x)"
      "watched wl x" unfolding rg.simps by (blast, blast, simp add: keeps_watched_def)
    then have "watched wl (u x)" by (simp add: keeps_watched_def)
    from Call.IH [OF rangeI g(2) this] g(1)
    show "keeps_watched wl x (u x) \<and> rg (keeps_watched wl) (keeps_watched wl) (watched wl) (c x) (u x)" by blast
  qed
qed

lemma watched_loop:
  "watched wl s \<Longrightarrow> rg (keeps_watched wl) (keeps_watched wl) (watched wl) (loop_prog e (a, b, c, d) trs) s"
proof (induction trs arbitrary: s)
  case Nil
  then show ?case by (simp add: keeps_watched_def)
next
  case (Cons tr trs)
  show ?case
    unfolding loop_prog.simps
    by (rule rg_then [OF rg_watched [OF watched_trade [OF Cons.prems] Cons.prems] Cons.IH])
      (simp_all add: keeps_watched_def)
qed

lemma watched_close_list:
  assumes "set ks \<subseteq> set wl"
  shows "rg (keeps_watched wl) (keeps_watched wl) (\<lambda>_. True) (close_list e u ks) s"
  using assms
proof (induction ks arbitrary: s)
  case (Cons k ks)
  have close: "rg (keeps_watched wl) (keeps_watched wl) (\<lambda>_. True) (close_prog e u k r tx p (close_list e u ks)) x" for r tx p x
    by (rule watching.close_rule [OF kept_True TrueI kept_True _ TrueI]) (use Cons in \<open>auto intro: watched_Upsert\<close>)
  show ?case
    unfolding close_list.simps
    by (rule watching.read_rule [OF kept_True TrueI]) (use Cons in \<open>auto split: option.split intro: close\<close>)
qed simp

lemma watched_eleven:
  assumes "watched wl s"
  shows "rg (keeps_watched wl) (keeps_watched wl) (watched wl) (eleven_prog e u) s"
proof (rule rg_watched [OF _ assms])
  show "rg (keeps_watched wl) (keeps_watched wl) (\<lambda>_. True) (eleven_prog e u) s"
    unfolding eleven_prog_def
    by (rule watching.say_rule [OF kept_watched assms], rule watching.emit_rule [OF kept_watched], assumption,
        rule watching.read_rule [OF kept_watched], assumption, rule watched_close_list)
      (simp add: watched_def Watchlist_def)
qed

lemma watched_all_along:
  assumes "(par_step request_step)\<^sup>*\<^sup>* (s, loop_prog e (a, b, c, d) trs, eleven_prog e u) (s', p', q')" and "watched wl s"
  shows "watched wl s'"
proof -
  have "(\<lambda>x y. keeps_watched wl x y \<or> keeps_watched wl x y \<or> request_step x y)\<^sup>*\<^sup>* s s'"
    using watch_race.par_steps_keep [OF assms(1) watched_loop [OF assms(2)] watched_eleven [OF assms(2)]] by blast
  then show ?thesis
  proof (induction rule: rtranclp_induct)
    case (step y z)
    then have "keeps_watched wl y z" using same_request same_watched by blast
    with step.IH show ?case by (simp add: keeps_watched_def)
  qed (rule assms(2))
qed

section \<open>From the open to the loop\<close>

text \<open>
  With no message received \<open>Run\<close> stands at its loop, with the tracked tickers in the store and nothing traded.
\<close>

lemma run_selected_at_loop:
  assumes "untraded s" and "undisturbed env" and "distinct (watchlist s)" and "lv_events env = []"
    and "run_selected e env (a, b, c, x) s = (s', None)" and "phase s' = PhaseTrackingTicks"
  shows "untraded s' \<and> watchlist s' = watchlist s"
proof -
  obtain s1 cs where sel: "selectCandidatesAt0935 e (env_now env) (SetPhase PhaseSelecting0935 s) = (s1, cs)"
    by fastforce
  have "untraded (SetPhase PhaseSelecting0935 s)"
    using assms(1) inv_cong(2) [of "SetPhase PhaseSelecting0935 s" s] by (simp add: frame_simps)
  note u = select_untraded [OF this sel]
  have s1: "settings s1 = settings s" "distinct cs" using u(2,4) assms(3) by (simp_all add: frame_simps)
  define s2 where "s2 = info e (env_now env) (''09:35 selection: '' @ show_int (int (length cs))
      @ '' tickers matched opening filters (switching to trades)'') s1"
  have False: "cs \<noteq> []" using assms(5,6) sel by (auto simp: run_selected_def frame_simps)
  have s2: "GetTicker s2 k = GetTicker s1 k" "settings s2 = settings s1" for k by (simp_all add: s2_def frame_simps)
  have "watchlist s2 = watchlist s" using s2(2) s1(1) by (intro watchlist_of_settings) simp
  with u(1,3) s2 have u2: "untraded s2" "set cs \<subseteq> set (watchlist s2)"
    using inv_cong(2) [of s2 s1] by (simp_all add: frame_simps)
  obtain tracked s3 where tr: "run_tracked e env a b cs s2 = (tracked, s3)" by fastforce
  note t = run_tracked_untraded [OF u2(1) assms(2) s1(2) u2(2) tr]
  have r: "run_trades e env (a, b, c, x) (sort (env_ord env (map fst tracked))) s3 = (s', None)"
    using assms(5) False unfolding run_selected_def Let_def prod.case sel s2_def [symmetric] tr by simp
  then have s': "s' = info e (env_now env) ''Tracking tick data (trades) for filtered tickers...'' s3"
    using assms(4) by (simp add: run_trades_def Let_def split: option.splits)
  have "untraded s'" using t(1) inv_cong(2) [of s' s3] by (simp add: s' frame_simps)
  moreover have "settings s' = settings s" using t(2) s2(2) s1(1) by (simp add: s' frame_simps)
  ultimately show ?thesis using watchlist_of_settings by blast
qed

lemma Run_at_loop:
  assumes "undisturbed env" and "distinct wl" and "lv_events env = []"
    and run: "Run e env (SetMode ModeRealtime (New now cfg wl)) = Some (s0, None)" and "phase s0 = PhaseTrackingTicks"
  shows "untraded s0 \<and> watchlist s0 = wl"
proof -
  let ?s = "SetMode ModeRealtime (New now cfg wl)"
  obtain a b c x where w: "session_times e (lv_start env) = (a, b, c, x)" by (cases "session_times e (lv_start env)")
  define s1 where "s1 = run_intro e (lv_start env) (a, b, c, x) ?s"
  define s2 where "s2 = SetPhase PhaseCollecting5m s1"
  define s3 where "s3 = info e (env_now env) ''Collecting 09:30-09:34 minute bars for open-5m metrics...'' s2"
  define s4 where "s4 = collect_bars e (env_now env) a b (lv_bars env) s3"
  have fresh: "untraded ?s" "watchset ?s = set (watchlist ?s)" "phase ?s \<noteq> PhaseTrackingTicks" "watchlist ?s = wl"
    by (simp_all add: untraded_def New_def SetMode_def GetTicker_def)
  have st: "settings s3 = settings ?s" "settings s4 = settings ?s"
    by (simp_all add: s1_def s2_def s3_def s4_def run_intro_frame collect_bars_settings frame_simps)
  have ph: "phase s1 \<noteq> PhaseTrackingTicks" "phase s2 = PhaseCollecting5m" "phase s4 = PhaseCollecting5m"
    using fresh(3) by (simp_all add: s1_def s2_def s3_def s4_def run_intro_def Let_def collect_bars_frame frame_simps
        SetTimes_def)
  have wl: "watchlist s3 = wl" "watchset s3 = set wl" "watchlist s4 = wl"
    using st fresh(2,4) by (simp_all add: settings_def)
  have "GetTicker s3 k = GetTicker ?s k" for k by (simp add: s3_def s2_def s1_def run_intro_frame frame_simps)
  then have "untraded s3" using fresh(1) inv_cong(2) [of s3 ?s] st(1) by simp
  then have u4: "untraded s4" using collect_bars_untraded wl by (simp add: s4_def)
  consider "s0 = s1" | "s0 = s2" | "s0 = s4" | "run_selected e env (a, b, c, x) s4 = (s0, None)"
    using run unfolding Run_def Let_def w prod.case s1_def [symmetric] s2_def [symmetric] s3_def [symmetric]
      s4_def [symmetric]
    by (auto split: if_splits option.splits)
  then show ?thesis
  proof cases
    case 4
    from run_selected_at_loop [OF u4 assms(1) _ assms(3) 4 assms(5)] assms(2) wl(3) show ?thesis by simp
  qed (use ph assms(5) in simp_all)
qed

section \<open>Property\<close>

text \<open>C9. A live day ends flat, call by call: \<open>Run\<close> of a fresh store has reached its loop; the loop's calls on the
  trades it receives, those of the 11 o'clock goroutine and the requests being served come between each other
  in any order, except that when the goroutine makes its first call only trades stamped at or after the
  entry cutoff are left to handle. Then at every moment after the goroutine has returned no ticker has an open
  position, whether the loop is still handling trades or has closed the phase.\<close>

theorem live_day_ends_flat:
  assumes "undisturbed env" and "distinct wl" and "lv_events env = []"
    and "Run e env (SetMode ModeRealtime (New now cfg wl)) = Some (s0, None)" and "phase s0 = PhaseTrackingTicks"
    and "session_times e (lv_start env) = (openNY, selNY, cutoffNY, exitNY)"
    and "(par_step request_step)\<^sup>*\<^sup>* (s0, loop_prog e (openNY, selNY, cutoffNY, exitNY) (early @ late), eleven_prog e exitNY)
      (s1, loop_prog e (openNY, selNY, cutoffNY, exitNY) late, eleven_prog e exitNY)"
    and "(par_step request_step)\<^sup>*\<^sup>* (s1, loop_prog e (openNY, selNY, cutoffNY, exitNY) late, eleven_prog e exitNY) (s2, p, Ret)"
    and "\<forall>tr \<in> set late. \<not> UnixMilli (et_Timestamp tr) < cutoffNY"
  shows "flat s2 \<and> flat (SetPhase PhaseClosed s2)"
proof -
  have "untraded s0" "watchlist s0 = wl" using Run_at_loop [OF assms(1-5)] by blast+
  then have "watched wl s0" by (auto simp: watched_def untraded_def)
  from watched_all_along [OF assms(7) this] have "watched wl s1" .
  then have "\<forall>k t. GetTicker s1 k = Some t \<and> HasPosition t \<and> \<not> Exited t \<longrightarrow> k \<in> set (watchlist s1)"
    by (auto simp: watched_def)
  from closing_flat [OF assms(8,9) this] show ?thesis
    using inv_cong(3) [of "SetPhase PhaseClosed s2" s2] by (simp add: frame_simps)
qed

section \<open>A day\<close>

text \<open>
  One ticker: its bar of 09:30 passes the filters, the trades up to the selection leave a price below the VWAP,
  and a trade at 09:36 crosses it and opens a position; the goroutine then closes it.
\<close>

definition day_config :: config where
  "day_config = sample_config\<lparr>cfg_Filters := \<lparr>cf_Open5mRangePctMin = Fin (1 / 16), cf_Open5mRangePctMax = 1,
     cf_Open5mVolMin = 0, cf_Open5mVolMax = Fin 1000000, cf_Open5mTodayPctMin = Fin 100, cf_Open5mTodayPctMax = Fin 10000,
     cf_EntryMinAfterOpen = 5, cf_EntryMaxAfterOpen = 12, cf_EntryPriceMin = 1, cf_EntryPriceMax = Fin 50,
     cf_SoldOffFromOpenPctMin = Fin (1 / 4), cf_SoldOffOpen5mRangePctMin = Fin (1 / 64),
     cf_SoldOffOpen5mTodayPctMin = Fin 50\<rparr>,
     cfg_History := \<lparr>Open5mLookbackSessions = 1, MaxCalendarLookback = 1, MaxWorkers = 1\<rparr>\<rparr>"

definition day_engine :: engine where
  "day_engine = sample_engine\<lparr>e_cfg := day_config\<rparr>"

definition day_bar :: equity_agg where
  "day_bar = \<lparr>agg_Symbol = ''A'', agg_StartTimestamp = ny 9 30 div 1000000, agg_Open = Fin 8, agg_High = Fin 9,
     agg_Low = Fin 8, agg_Close = Fin 8, agg_Volume = Fin 512\<rparr>"

definition day_rest :: rest where
  "day_rest =
     \<lparr>ListAggs = (\<lambda>_ _ _. ([rest_bar (day_bar\<lparr>agg_Volume := Fin 256\<rparr>)], None)),
      ListTrades = (\<lambda>_ _ _.
        ([\<lparr>SipTimestamp = ny 9 31, ParticipantTimestamp = 0, TrfTimestamp = 0, tr_Price = Fin 8, tr_Size = Fin 50\<rparr>,
          \<lparr>SipTimestamp = ny 9 32, ParticipantTimestamp = 0, TrfTimestamp = 0, tr_Price = Fin 4, tr_Size = Fin 50\<rparr>], None))\<rparr>"

definition day_env :: run_env where
  "day_env = (quiet_env day_rest (ny 9 29))\<lparr>lv_bars := [WsBar day_bar]\<rparr>"

definition day_ticker :: ticker_state where
  "day_ticker = (new_ticker ''A'')\<lparr>Open0930 := Fin 8, ORHigh := Fin 9, ORLow := Fin 8, Open5mVol := Fin 512,
     Open5mRangePct := Fin (1 / 8), Status := ''tracking'', Prev10AvgOpen5mVol := Fin 256, Open5mTodayPct := Fin 200,
     CumPV := Fin 600, CumV := Fin 100, VWAP := Fin 6, LastPrice := Fin 4, LastTrade := ny 9 32,
     PrevVWAP := Fin 6, PrevPrice := Fin 4\<rparr>"

definition day_trade :: equity_trade where
  "day_trade = \<lparr>et_Symbol = ''A'', et_Timestamp = ny 9 36 div 1000000, et_Price = Fin 10, et_Size = 100\<rparr>"

lemma day_clock:
  "atTime (fixed_zone (- 14400)) (ny 9 29) ''09:30:00'' = ny 9 30"
  "atTime (fixed_zone (- 14400)) (ny 9 29) ''09:35:00'' = ny 9 35"
  "atTime (fixed_zone (- 14400)) (ny 9 29) ''09:43:00'' = ny 9 43"
  "atTime (fixed_zone (- 14400)) (ny 9 29) ''11:00:00'' = ny 11 0"
  "fmt_hm (fixed_zone (- 14400)) (ny 9 30) = ''09:30''"
  by code_simp+

lemma day_fields:
  "e_loc day_engine = fixed_zone (- 14400)" "e_tts day_engine = None" "cfg_Market (e_cfg day_engine) = cfg_Market sample_config"
  "cfg_History (e_cfg day_engine) = \<lparr>Open5mLookbackSessions = 1, MaxCalendarLookback = 1, MaxWorkers = 1\<rparr>"
  "cfg_Massive (e_cfg day_engine) = cfg_Massive sample_config" "e_unicode day_engine = sample_unicode"
  by (simp_all add: day_engine_def day_config_def sample_engine_def)

lemma day_times: "session_times day_engine (lv_start day_env) = (ny 9 30, ny 9 35, ny 9 43, ny 11 0)"
  by (simp add: session_times_def day_fields day_env_def quiet_env_def sample_config_def applyDefaults_def zero_config_def
      or_string_def day_clock Let_def)

definition day_start :: store where
  "day_start = SetMode ModeRealtime (New 0 day_config [''A''])"

lemma day_start_simps:
  "watchlist day_start = [''A'']" "watchset day_start = {''A''}" "GetTicker day_start k = None"
  "Filters day_start = sample_filters"
  by (simp_all add: day_start_def New_def SetMode_def GetTicker_def Filters_def runtimeFiltersFromConfig_def day_config_def
      sample_filters_def Let_def)

lemma day_bar_effect:
  "onMinuteBar ''09:30'' day_bar (new_ticker ''A'') =
     (new_ticker ''A'')\<lparr>Open0930 := Fin 8, ORHigh := Fin 9, ORLow := Fin 8, Open5mVol := Fin 512\<rparr>"
  by (simp add: onMinuteBar_def day_bar_def new_ticker_def zero_float64_def feq_def Let_def)

lemma day_bars:
  assumes "settings s = settings day_start" and "GetTicker s ''A'' = None"
  shows "GetTicker (collect_bars day_engine now (ny 9 30) (ny 9 35) (lv_bars day_env) s) ''A'' =
    Some ((new_ticker ''A'')\<lparr>Open0930 := Fin 8, ORHigh := Fin 9, ORLow := Fin 8, Open5mVol := Fin 512\<rparr>)"
proof -
  have "watchset s = {''A''}" using assms(1) day_start_simps(2) by (simp add: settings_def)
  then have "collects day_engine (ny 9 30) (ny 9 35) s day_bar"
    by (simp add: collects_def day_fields day_bar_def UnixMilli_def ny_def clock_secs_def local_secs_def fixed_zone_def
        Unix_def sec_ns_def)
  moreover have "UnixMilli (agg_StartTimestamp day_bar) = ny 9 30" "agg_Symbol day_bar = ''A''"
    by (simp_all add: day_bar_def UnixMilli_def ny_def)
  ultimately show ?thesis
    by (simp add: day_env_def get_onMinuteAgg assms(2) day_fields day_clock day_bar_effect)
qed

lemma day_average: "avgPrevSessionsOpen5mVol day_engine (\<lambda>_. None) day_rest k d 1 1 = Inr (Fin 256)"
proof -
  have vol: "Open5mVolume day_rest k a b = Inr (Some (Fin 256))" for a b
    by (simp add: Open5mVolume_def day_rest_def rest_bar_def day_bar_def zero_float64_def)
  have stop: "avg_loop day_rest z (\<lambda>_. None) k d 1 1 2 vs = Inr vs" for z vs by (subst avg_loop.simps) simp
  have "avg_loop day_rest z (\<lambda>_. None) k d 1 1 1 [] = Inr [Fin 256]" for z
    by (subst avg_loop.simps) (simp add: vol stop zero_float64_def Let_def)
  then show ?thesis by (simp add: avgPrevSessionsOpen5mVol_def of_int64_def zero_float64_def)
qed

lemma day_range: "(Fin 9 - Fin 8) / Fin 8 = Fin (1 / 8)"
  by (simp add: minus_float64_def rnd_dyadic [of 1 3, simplified])

lemma day_seed_trades:
  assumes "CumPV t = 0" "CumV t = 0" "VWAP t = 0" "LastPrice t = 0" "\<not> SawCrossInWindow t"
  shows "fst (seedVWAPFromTrades (\<lambda>_. None) day_rest k (ny 9 30) (ny 9 35) t) =
    t\<lparr>CumPV := Fin 600, CumV := Fin 100, VWAP := Fin 6, LastPrice := Fin 4, LastTrade := ny 9 32,
      PrevVWAP := Fin 6, PrevPrice := Fin 4\<rparr>"
proof -
  have ms: "tradeTimeMillis \<lparr>SipTimestamp = ny 9 m, ParticipantTimestamp = 0, TrfTimestamp = 0, tr_Price = p, tr_Size = z\<rparr> = ny 9 m div 1000000"
    if "0 \<le> m" for m p z
    using that by (simp add: tradeTimeMillis_def ny_def IsZero_def zero_time_def to_millis_def sec_ns_def)
  have "UnixMilli (ny 9 31 div 1000000) = ny 9 31" "UnixMilli (ny 9 32 div 1000000) = ny 9 32"
    "ny 9 31 div 1000000 \<noteq> 0" "ny 9 32 div 1000000 \<noteq> 0"
    by (simp_all add: UnixMilli_def ny_def)
  with assms show ?thesis
    by (simp add: seedVWAPFromTrades_def day_rest_def ms seed_trade_def vwap_update_def zero_float64_def Let_def)
qed

lemma day_seed:
  "tracked_cell day_engine (\<lambda>_ _. None) (\<lambda>_ _. None) day_rest (ny 9 30) (ny 9 35) ''A''
     (select_cell ((new_ticker ''A'')\<lparr>Open0930 := Fin 8, ORHigh := Fin 9, ORLow := Fin 8, Open5mVol := Fin 512\<rparr>)) =
   day_ticker"
  unfolding tracked_cell_def Let_def
  by (subst day_seed_trades) (simp_all add: day_fields day_average select_cell_def open_range_def day_range day_ticker_def
      new_ticker_def zero_float64_def rnd_dyadic [of 2 0, simplified])

lemma day_selection:
  assumes "settings s = settings day_start"
    and "GetTicker s ''A'' = Some ((new_ticker ''A'')\<lparr>Open0930 := Fin 8, ORHigh := Fin 9, ORLow := Fin 8, Open5mVol := Fin 512\<rparr>)"
  shows "\<exists>s'. selectCandidatesAt0935 day_engine now s = (s', [''A'']) \<and> settings s' = settings day_start \<and> GetTicker s' ''A'' =
    Some (select_cell ((new_ticker ''A'')\<lparr>Open0930 := Fin 8, ORHigh := Fin 9, ORLow := Fin 8, Open5mVol := Fin 512\<rparr>))"
proof -
  have f: "Filters s = sample_filters" and wl: "watchlist s = [''A'']"
    using assms(1) day_start_simps by (simp_all add: settings_def Filters_def)
  have "selected sample_filters (GetTicker s ''A'')"
    by (simp add: assms(2) selected_def range_ok_def open_range_def sample_filters_def new_ticker_def zero_float64_def
        one_float64_def day_range)
  then show ?thesis
    by (simp add: selectCandidatesAt0935_def Watchlist_def Let_def wl f select_one_eq cells.get_upd assms frame_simps)
qed

lemma day_tracked:
  assumes "settings s = settings day_start" and "GetTicker s ''A'' =
    Some (select_cell ((new_ticker ''A'')\<lparr>Open0930 := Fin 8, ORHigh := Fin 9, ORLow := Fin 8, Open5mVol := Fin 512\<rparr>))"
    and "untraded s"
  obtains tracked s' where "run_tracked day_engine day_env (ny 9 30) (ny 9 35) [''A''] s = (tracked, s')"
    and "settings s' = settings day_start" "phase s' = PhaseTrackingTicks" "GetTicker s' ''A'' = Some day_ticker"
proof -
  obtain tracked s' where r: "run_tracked day_engine day_env (ny 9 30) (ny 9 35) [''A''] s = (tracked, s')" by fastforce
  have u: "undisturbed day_env" by (simp add: day_env_def undisturbed_def quiet_env_def)
  have wl: "set [''A''] \<subseteq> set (watchlist s)"
    using assms(1) day_start_simps(1) by (simp add: settings_def)
  note t = run_tracked_untraded [OF assms(3) u _ wl r, simplified]
  obtain s1 where b: "buildTrackedStates day_engine (env_now day_env) (env_cancel day_env) (env_cancel day_env)
      (env_arrive day_env) (env_ord day_env) (env_rest day_env) (ny 9 30) (ny 9 35) [''A''] s = (tracked, s1)"
    using r by (auto simp: run_tracked_def split: prod.splits)
  have env: "env_cancel day_env = (\<lambda>_ _. None)" "env_rest day_env = day_rest" "env_ord day_env xs = xs"
    "env_arrive day_env xs = xs" for xs by (simp_all add: day_env_def quiet_env_def)
  from tracked_lookup(1) [OF _ _ _ b, of "''A''"]
  have "map_of tracked ''A'' = Some day_ticker" by (simp add: env assms(2) day_seed)
  with t r assms(1) that show thesis by simp
qed

lemma day_feed:
  "open_aggs id \<lparr>wc_new = (\<lambda>_. None), wc_subscribe = (\<lambda>_. None), wc_connect = None\<rparr> day_engine [''A''] = Some None"
  "open_trades id \<lparr>wc_new = (\<lambda>_. None), wc_subscribe = (\<lambda>_. None), wc_connect = None\<rparr> day_engine ks = None"
proof -
  have feed: "Feed (cfg_Massive (e_cfg day_engine)) = ''realtime''" "WSBatchSize (cfg_Massive (e_cfg day_engine)) = 200"
    by (simp_all add: day_fields sample_config_def applyDefaults_def zero_config_def or_string_def or_pos_int_def Let_def)
  have "ToLower id ''realtime'' = ''realtime''" by (simp add: ToLower_def lower_char_def ascii_def)
  moreover have "\<exists>bs. subscribe_batches (\<lambda>_. None) 200 [''A''] 0 [] = Some (Inr bs)"
    using subscribe_batches_cover [of 200 0 "\<lambda>_. None" "[''A'']" "[]"] by auto
  ultimately show
    "open_aggs id \<lparr>wc_new = (\<lambda>_. None), wc_subscribe = (\<lambda>_. None), wc_connect = None\<rparr> day_engine [''A''] = Some None"
    "open_trades id \<lparr>wc_new = (\<lambda>_. None), wc_subscribe = (\<lambda>_. None), wc_connect = None\<rparr> day_engine ks = None"
    by (auto simp: open_aggs_def open_trades_def NewWS_def feed)
qed

lemma day_selected:
  assumes "settings s = settings day_start" and "untraded s"
    and "GetTicker s ''A'' = Some ((new_ticker ''A'')\<lparr>Open0930 := Fin 8, ORHigh := Fin 9, ORLow := Fin 8, Open5mVol := Fin 512\<rparr>)"
  shows "\<exists>s0. run_selected day_engine day_env (ny 9 30, ny 9 35, ny 9 43, ny 11 0) s = (s0, None)
    \<and> phase s0 = PhaseTrackingTicks \<and> GetTicker s0 ''A'' = Some day_ticker \<and> settings s0 = settings day_start"
proof -
  have u: "untraded (SetPhase PhaseSelecting0935 s)"
    using assms(2) inv_cong(2) [of "SetPhase PhaseSelecting0935 s" s] by (simp add: frame_simps)
  obtain s5 where sel: "selectCandidatesAt0935 day_engine (env_now day_env) (SetPhase PhaseSelecting0935 s) = (s5, [''A''])"
    and s5: "settings s5 = settings day_start" and t5: "GetTicker s5 ''A'' =
      Some (select_cell ((new_ticker ''A'')\<lparr>Open0930 := Fin 8, ORHigh := Fin 9, ORLow := Fin 8, Open5mVol := Fin 512\<rparr>))"
    using day_selection [of "SetPhase PhaseSelecting0935 s" "env_now day_env"] assms(1,3) by (auto simp: frame_simps)
  define s6 where "s6 = info day_engine (env_now day_env) (''09:35 selection: '' @ show_int (int (length [''A'']))
      @ '' tickers matched opening filters (switching to trades)'') s5"
  have "untraded s6" "settings s6 = settings day_start" "GetTicker s6 ''A'' = GetTicker s5 ''A''"
    using select_untraded(1) [OF u sel] inv_cong(2) [of s6 s5] s5 by (simp_all add: s6_def frame_simps)
  from day_tracked [OF this(2) _ this(1)] this(3) t5 obtain tracked s7 where
    tr: "run_tracked day_engine day_env (ny 9 30) (ny 9 35) [''A''] s6 = (tracked, s7)"
    and s7: "settings s7 = settings day_start" "phase s7 = PhaseTrackingTicks" "GetTicker s7 ''A'' = Some day_ticker"
    by metis
  define s0 where "s0 = info day_engine (env_now day_env) ''Tracking tick data (trades) for filtered tickers...'' s7"
  have "run_trades day_engine day_env w ks s7 = (s0, None)" for w ks
    by (simp add: run_trades_def day_feed s0_def day_env_def quiet_env_def)
  then have "run_selected day_engine day_env (ny 9 30, ny 9 35, ny 9 43, ny 11 0) s = (s0, None)"
    unfolding run_selected_def prod.case Let_def sel s6_def [symmetric] tr by simp
  with s7 show ?thesis by (simp add: s0_def frame_simps)
qed

lemma day_run:
  "\<exists>s0. Run day_engine day_env day_start = Some (s0, None) \<and> phase s0 = PhaseTrackingTicks
    \<and> GetTicker s0 ''A'' = Some day_ticker \<and> Filters s0 = sample_filters"
proof -
  let ?w = "(ny 9 30, ny 9 35, ny 9 43, ny 11 0)"
  define s2 where "s2 = SetPhase PhaseCollecting5m (run_intro day_engine (lv_start day_env) ?w day_start)"
  define s3 where "s3 = info day_engine (env_now day_env) ''Collecting 09:30-09:34 minute bars for open-5m metrics...'' s2"
  define s4 where "s4 = collect_bars day_engine (env_now day_env) (ny 9 30) (ny 9 35) (lv_bars day_env) s3"
  have st: "settings s2 = settings day_start" "settings s3 = settings day_start" "settings s4 = settings day_start"
    by (simp_all add: s2_def s3_def s4_def run_intro_frame collect_bars_settings frame_simps)
  have none: "GetTicker s3 k = None" for k
    by (simp add: s3_def s2_def run_intro_frame frame_simps day_start_simps)
  have "untraded s4"
    unfolding s4_def by (rule collect_bars_untraded)
      (use none st(2) day_start_simps in \<open>simp_all add: untraded_def settings_def\<close>)
  from day_selected [OF st(3) this day_bars [OF st(2) none, of "env_now day_env", folded s4_def]] obtain s0 where
    sel: "run_selected day_engine day_env ?w s4 = (s0, None)"
    and s0: "phase s0 = PhaseTrackingTicks" "GetTicker s0 ''A'' = Some day_ticker" "settings s0 = settings day_start" by blast
  have env: "lv_done_open day_env = False" "lv_done_select day_env = False" "lv_ToLower day_env = id"
    "lv_ws_aggs day_env = \<lparr>wc_new = (\<lambda>_. None), wc_subscribe = (\<lambda>_. None), wc_connect = None\<rparr>"
    by (simp_all add: day_env_def quiet_env_def)
  have "Watchlist s2 = [''A'']" using st(1) day_start_simps(1) by (simp add: settings_def Watchlist_def)
  then have "Run day_engine day_env day_start = Some (s0, None)"
    unfolding Run_def Let_def day_times prod.case s2_def [symmetric] s3_def [symmetric] s4_def [symmetric]
    by (simp add: env day_feed sel)
  with s0 show ?thesis using day_start_simps(4) by (simp add: settings_def Filters_def)
qed

lemma day_entry:
  assumes "GetTicker s ''A'' = Some day_ticker" and "Filters s = sample_filters"
  shows "\<exists>t. GetTicker (onTrade day_engine (ny 9 30) (ny 9 35) (ny 9 43) (ny 11 0) day_trade s) ''A'' = Some t
    \<and> HasPosition t \<and> \<not> Exited t"
proof -
  have no: "\<not> HasPosition day_ticker" "\<not> Exited day_ticker" by (simp_all add: day_ticker_def new_ticker_def)
  have ok: "entry_ok sample_filters (ny 9 30) (ny 9 35) (ny 9 43) (ny 9 36) (Fin 10) (Fin 100) day_ticker"
  proof -
    have "Fin 12 \<le> Fin 12 + rnd (999 / 1000)"
      using default_pos rnd_mono [of 0 "999 / 1000"] by (intro fplus_ge_left) (simp_all add: zero_float64_def)
    then have "\<not> Fin 12 + rnd (999 / 1000) < Fin 6"
      using fle_flt_trans flt_not_fle by fastforce
    then show ?thesis
      unfolding entry_ok_def minutes_six Let_def in_range_def
      by (simp add: sample_filters_def day_ticker_def new_ticker_def ny_def of_int64_def minute_ns_def sec_ns_def
          zero_float64_def one_float64_def)
  qed
  have k: "et_Symbol day_trade = ''A''" "et_Timestamp day_trade = ny 9 36 div 1000000" "et_Price day_trade = Fin 10"
    "of_int64 (et_Size day_trade) = Fin 100"
    using of_int64_exact [of 100] by (simp_all add: day_trade_def)
  show ?thesis
    by (simp add: onTrade_def k get_processTrade assms trade_cell_entry [OF no] Let_def sample_accepted ok)
      (simp add: entered_def no)
qed

theorem live_day_ends_flat_witness:
  "\<exists>s0 s1 s2 t. Run day_engine day_env (SetMode ModeRealtime (New 0 day_config [''A''])) = Some (s0, None)
    \<and> GetTicker s1 ''A'' = Some t \<and> HasPosition t \<and> \<not> Exited t
    \<and> (par_step request_step)\<^sup>*\<^sup>* (s1, Ret, eleven_prog day_engine (ny 11 0)) (s2, Ret, Ret) \<and> flat s2"
proof -
  let ?w = "(ny 9 30, ny 9 35, ny 9 43, ny 11 0)"
  let ?q = "eleven_prog day_engine (ny 11 0)"
  obtain s0 where s0: "Run day_engine day_env (SetMode ModeRealtime (New 0 day_config [''A''])) = Some (s0, None)"
    "phase s0 = PhaseTrackingTicks" "GetTicker s0 ''A'' = Some day_ticker" "Filters s0 = sample_filters"
    using day_run unfolding day_start_def by blast
  let ?s1 = "onTrade day_engine (ny 9 30) (ny 9 35) (ny 9 43) (ny 11 0) day_trade s0"
  obtain t where t: "GetTicker ?s1 ''A'' = Some t" "HasPosition t" "\<not> Exited t" using day_entry [OF s0(3,4)] by blast
  have r: "run (loop_prog day_engine ?w [day_trade]) s0 = ?s1" by (simp add: run_loop_prog del: loop_prog.simps)
  have p1: "(par_step request_step)\<^sup>*\<^sup>* (s0, loop_prog day_engine ?w ([day_trade] @ []), ?q) (?s1, loop_prog day_engine ?w [], ?q)"
    using run_first [of request_step s0 "loop_prog day_engine ?w [day_trade]" ?q] unfolding r by (simp del: loop_prog.simps(2))
  have p2: "(par_step request_step)\<^sup>*\<^sup>* (?s1, loop_prog day_engine ?w [], ?q) (run ?q ?s1, loop_prog day_engine ?w [], Ret)"
    by (rule run_second)
  have "undisturbed day_env" "lv_events day_env = []" by (simp_all add: day_env_def undisturbed_def quiet_env_def)
  from live_day_ends_flat [OF this(1) _ this(2) s0(1,2) day_times p1 p2] have "flat (run ?q ?s1)" by simp
  with s0(1) t p2 show ?thesis by auto
qed

end
