(* ===== verification/Spec2Isabelle.thy ===== *)
theory Spec2Isabelle
  imports Journeys LiveDay
begin

text \<open>
  A verification development for the market scanner and opening-range trader of this repository.

  \<^bold>\<open>The program.\<close> A process (\<open>cmd/orb/main.go\<close>) loads a configuration and a watchlist and starts a store, an
  engine and an HTTP server. On a trading day the engine collects the minute bars of the first five
  minutes from a WebSocket feed, selects the candidates at 09:35, fetches their history and the VWAP so
  far, then follows their trades: it announces the first cross of the price over the VWAP, enters and leaves
  positions, and at 11:00 closes what is open. In historic mode a queue of requested dates drives replays
  of past sessions over REST, which end in a report. The server answers the page's requests and
  pushes the store's events to the browsers. All parts meet in the store, behind one mutex.

  \<^bold>\<open>Theories, in the order of their dependence.\<close>

  \<^item> \<open>Prelude\<close>: shared collections, generic lemmas, and the interfaces as locales: \<open>keyed_cells\<close> and \<open>cell_steps\<close>
    (a map updated cell by cell, by calls that may arrive in any order), \<open>bounded_log\<close>, \<open>guarded_cell\<close>,
    \<open>slice_order\<close> (what a comparison owes the sort that uses it), \<open>monotone_steps\<close> and \<open>invariant_steps\<close>
    (what a run of events keeps).
  \<^item> \<open>Float64\<close>: Go's \<open>float64\<close>: finite values as the rationals they denote, infinities, NaN, the arithmetic
    rounded to nearest even, comparison, and the decimal formatting of messages.
  \<^item> \<open>GoTime\<close>, \<open>Dates\<close>: what the program uses of package \<open>time\<close>: instants in nanoseconds, zones as offset
    functions, the civil calendar, formatting, and the parsing of dates with its inverse laws.
  \<^item> \<open>Utf8\<close>, \<open>Json_Text\<close>: what the program uses of \<open>encoding/json\<close>: UTF-8, the quoting of strings, the scanner that
    reads the first JSON value of a text, and the encoder, with the law that the scanner reads back what the encoder wrote.
  \<^item> \<open>Config\<close> (\<open>internal/config/config.go\<close>), \<open>Filters\<close> (the runtime filters of \<open>internal/store/store.go\<close> and the patch
    of \<open>internal/server/api.go\<close>), \<open>Store\<close> (every method of \<open>internal/store/store.go\<close>), \<open>Symbols\<close>
    (\<open>internal/watchlist\<close>, \<open>internal/nato\<close>).
  \<^item> \<open>Engine\<close> (the struct, events and speech, \<open>internal/openai/tts.go\<close>), \<open>Opening\<close> (collection and selection),
    \<open>Trading\<close>, \<open>Interleaving\<close> and \<open>Trading_Properties\<close> (the trade handler, positions, time exit), \<open>Rest\<close>
    (\<open>internal/engine/restshim.go\<close>, \<open>internal/massive/massive.go\<close>), \<open>Tracking\<close> (history, seeding), \<open>Feed\<close> and \<open>LiveRun\<close> (the
    feed and \<open>Run\<close>) of \<open>internal/engine/engine.go\<close>.
  \<^item> \<open>Calls\<close>, \<open>Race\<close>, \<open>LiveDay\<close>: the trade loop and the 11 o'clock goroutine of \<open>Run\<close> as programs of single store
    calls, which run alone are the handlers of \<open>Trading\<close>; the locale \<open>rely_guarantee\<close> that composes what each promises; what
    holds of every interleaving; and a live day, \<open>Run\<close> up to its loop and the two programs from there.
  \<^item> \<open>Historic\<close> (date resolution, worker pools, sold-off scan), \<open>Report\<close>, \<open>HistoricRun\<close> and
    \<open>HistoricRun_Properties\<close> of \<open>internal/engine/historic.go\<close>.
  \<^item> \<open>Requests\<close>, \<open>Server\<close>, \<open>Server_Properties\<close> (the handlers of \<open>internal/server/http.go\<close>, \<open>api.go\<close>, \<open>util.go\<close>),
    \<open>RunQueue\<close> (the queue of historic runs), \<open>Pump\<close>, \<open>Wire\<close> and \<open>Delivery\<close> (the event pump and
    \<open>internal/server/sse.go\<close>, the text of an event and its frame, and all of it together).
  \<^item> \<open>Atomic\<close>: every goroutine as a sequence of calls of the store's methods, \<open>store_step\<close>; the locale
    \<open>quiet_engine\<close> carries each engine operation to a path of such calls. \<open>Entry\<close> (\<open>cmd/orb/main.go\<close>) puts the
    process together and interprets the locale for an engine with speech, for a muted one, and for runs that stay in
    their session. \<open>Journeys\<close>: the properties that follow a request through all of them.

  \<^bold>\<open>How state and operations correspond.\<close> A struct is a record with the source's field names (prefixed where two
  structs share one), a method is a function from the record to the record and its result, a failing one
  returns a sum or an option of the error text, and a panic is \<open>None\<close> where the code can reach it. The
  mutex is held for the whole body of each store method, so a method is one step. Goroutines are modelled by
  what they can observe of each other: worker pools by the order in which their results
  arrive, which is an argument; the live loop by the list of messages it receives, and with the timer as a program
  of store calls; the queue of runs
  and the pump by step relations over single channel operations and polls. Loops over data are structural
  recursion. The searches for a trading day have the code's own bound on the tries as an argument; their
  weekend loops (\<open>skip_days\<close>) are partial functions, so that not returning is \<open>None\<close>, and the properties show
  that they return where the zone has every midnight. No other loop of the model needs fuel.

  \<^bold>\<open>What the properties show.\<close> Trading: exactly when a position is entered and left, at which price, what is
  announced, that it stays well formed and that nothing is open after the time exit; live and replayed
  sessions, and seeded and streamed VWAP, agree. Interleaved with the trade loop call by call the time exit
  still leaves nothing open, if no trade of before the entry cutoff is handled so late, and no position loses its
  entry, but an exit can be made and announced twice. Opening and history: the selection is exactly the
  candidates in range, in order and within the limit, each tracked with its own history whatever order the workers
  answer in. Historic: the date found is the last weekday with data, the replay ends closed, flat and with
  a report whose sums account for each ticker. Store and server: filters only change to valid
  ones, a request changes nothing but what it is for, the newest request of a run is the one
  that runs, runs never overlap and a shutdown cancels them, the pump refines an ordered feed while the event list is below its bound (and
  stalls at it), an event reaches each connected browser that keeps up, once and in order. A POST for a past session
  leads to its report on the page or to an announced failure. The whole process: every state any
  interleaving of its goroutines reaches is well formed, and historic mode never speaks.

  \<^bold>\<open>Parameters.\<close> The REST and WebSocket clients, the HTTP transport of the speech client, the YAML
  parser, the file system, the environment, the time-zone database, the Unicode tables, the clock's
  readings, the context's cancellation, random numbers and the iteration order of maps are arguments of
  the definitions that use them.

  \<^bold>\<open>Idealisations.\<close> Negative zero is identified with zero, and no fused multiply-add is used (Go permits it on
  some platforms). \<open>sort.Slice\<close> is an insertion sort; the laws proved of it hold for each sort where the comparison is a strict
  total order on the elements. An unloadable time zone, a nil \<open>Location\<close> in the engine, is a panic. In
  \<open>Run\<close> the 11 o'clock goroutine acts between two messages; its finer interleavings are those of \<open>Atomic\<close>,
  \<open>Race\<close> and \<open>LiveDay\<close>, which take from \<open>Run\<close> only what comes before the loop. A historic run is not interleaved with
  other calls, except in \<open>Atomic\<close> and \<open>RunQueue\<close>. The path of a request is the one the multiplexer has cleaned.

  \<^bold>\<open>Not modelled.\<close> The web client (\<open>internal/server/web\<close>, not Go); listening, shutting down and serving
  files, which is \<open>net/http\<close>; signals, log lines and the final sleep of \<open>main\<close>; response headers other than the
  content type.
\<close>

end
